(* ===== verification/Prelude.thy ===== *)
theory Prelude
  imports Main "HOL-Library.Word" "HOL-Library.List_Lexorder" "HOL-Library.Char_ord"
begin

text \<open>
  Shared vocabulary of the development.

  \<^item> Machine types: \<open>byte\<close> is \<open>uint8_t\<close>, \<open>u16\<close> .. \<open>u64\<close> the unsigned fixed-width integers,
    \<open>size_t\<close> is 64 bits wide (LP64), \<open>f64\<close> is the bit pattern of a \<open>double\<close>.
  \<^item> \<open>byte_of_char\<close> and \<open>char_of_byte\<close> go between the characters of a \<open>std::string\<close> and bytes.
  \<^item> \<open>le_bytes\<close> and \<open>le_word\<close> are the object representation of an unsigned integer, least
    significant byte first; the byte-order code of several components rests on their laws.
  \<^item> \<open>'a access\<close> is the result of an operation on a caller's buffer: it refuses (the C++
    function returns \<open>false\<close>), it succeeds, or it touches memory outside the buffer.
  \<^item> The collections \<open>wf_intros\<close> and \<open>bytes_simps\<close> are filled by the components.
\<close>

named_theorems bytes_simps "laws of the byte representation of words"
named_theorems wf_intros "introduction rules for the well-formedness invariants"

type_synonym byte = "8 word"
type_synonym u16 = "16 word"
type_synonym u32 = "32 word"
type_synonym u64 = "64 word"
type_synonym i32 = "32 word"
type_synonym size_t = "64 word"
type_synonym f64 = "64 word"

unbundle bit_operations_syntax

section \<open>Results of operations on buffers\<close>

datatype 'a access = Refused | Fault | Done 'a

fun access_bind :: "'a access \<Rightarrow> ('a \<Rightarrow> 'b access) \<Rightarrow> 'b access" where
  "access_bind Refused f = Refused"
| "access_bind Fault f = Fault"
| "access_bind (Done a) f = f a"

lemma access_bind_Done_iff:
  "access_bind m f = Done b \<longleftrightarrow> (\<exists>a. m = Done a \<and> f a = Done b)"
  by (cases m) auto

lemma access_bind_Fault_iff:
  "access_bind m f = Fault \<longleftrightarrow> m = Fault \<or> (\<exists>a. m = Done a \<and> f a = Fault)"
  by (cases m) auto

section \<open>Characters and bytes\<close>

definition byte_of_char :: "char \<Rightarrow> byte" where
  "byte_of_char c = of_nat (of_char c)"

definition char_of_byte :: "byte \<Rightarrow> char" where
  "char_of_byte b = char_of (unat b)"

lemma unat_byte_of_char: "unat (byte_of_char c) = of_char c"
  by (simp add: byte_of_char_def unat_of_nat)

lemma char_of_byte_of_char [simp]: "char_of_byte (byte_of_char c) = c"
  by (simp add: char_of_byte_def unat_byte_of_char)

lemma byte_of_char_of_byte [simp]: "byte_of_char (char_of_byte b) = b"
  using unsigned_less [of b, where ?'a = nat] by (simp add: char_of_byte_def byte_of_char_def)

lemma byte_of_char_inj [simp]: "byte_of_char a = byte_of_char b \<longleftrightarrow> a = b"
  by (metis char_of_byte_of_char)

lemma map_char_of_byte_of_char [simp]: "map (char_of_byte \<circ> byte_of_char) s = s"
  by (induction s) auto

section \<open>Words as bytes, least significant byte first\<close>

fun le_bytes :: "nat \<Rightarrow> 'a::len word \<Rightarrow> byte list" where
  "le_bytes 0 w = []"
| "le_bytes (Suc n) w = ucast w # le_bytes n (drop_bit 8 w)"

fun le_word :: "byte list \<Rightarrow> 'a::len word" where
  "le_word [] = 0"
| "le_word (b # bs) = ucast b OR push_bit 8 (le_word bs)"

lemma le_bytes_numeral:
  "le_bytes (numeral k) w = ucast w # le_bytes (pred_numeral k) (drop_bit 8 w)"
  by (simp add: numeral_eq_Suc)

lemma length_le_bytes [simp, bytes_simps]: "length (le_bytes n w) = n"
  by (induction n arbitrary: w) auto

lemma le_word_le_bytes: "le_word (le_bytes n w) = take_bit (8 * n) w"
proof (induction n arbitrary: w)
  case 0
  then show ?case by simp
next
  case (Suc n)
  show ?case
    by (rule bit_word_eqI)
      (auto simp: Suc.IH bit_or_iff bit_push_bit_iff bit_take_bit_iff bit_drop_bit_eq
        bit_ucast_iff dest: bit_imp_le_length)
qed

lemma le_word_le_bytes_id [simp, bytes_simps]:
  "LENGTH('a) \<le> 8 * n \<Longrightarrow> le_word (le_bytes n w) = (w :: 'a::len word)"
  by (simp add: le_word_le_bytes take_bit_word_eq_self)

lemma bit_le_word:
  "bit (le_word bs :: 'a::len word) k \<longleftrightarrow>
     k < LENGTH('a) \<and> k < 8 * length bs \<and> bit (bs ! (k div 8)) (k mod 8)"
proof (induction bs arbitrary: k)
  case Nil
  then show ?case by simp
next
  case (Cons b bs)
  show ?case
  proof (cases "k < 8")
    case True
    then show ?thesis
      by (auto simp: bit_or_iff bit_push_bit_iff bit_ucast_iff)
  next
    case False
    then obtain j where "k = j + 8"
      by (metis le_add_diff_inverse2 linorder_not_less)
    then have "(j + 8) div 8 = Suc (j div 8)"
      by simp
    with \<open>k = j + 8\<close> show ?thesis
      by (auto simp: bit_or_iff bit_push_bit_iff bit_ucast_iff Cons.IH
          dest: bit_imp_le_length)
  qed
qed

lemma le_bytes_nth: "i < n \<Longrightarrow> le_bytes n w ! i = ucast (drop_bit (8 * i) w)"
  by (induction n arbitrary: w i) (auto simp: nth_Cons' drop_bit_drop_bit algebra_simps)

lemma le_bytes_le_word:
  assumes "length bs = n" and "8 * n \<le> LENGTH('a::len)"
  shows "le_bytes n (le_word bs :: 'a word) = bs"
proof (rule nth_equalityI)
  show "length (le_bytes n (le_word bs :: 'a word)) = length bs"
    by (simp add: assms)
  fix i
  assume "i < length (le_bytes n (le_word bs :: 'a word))"
  then have i: "i < n" by simp
  have "ucast (drop_bit (8 * i) (le_word bs :: 'a word)) = bs ! i"
  proof (rule bit_word_eqI)
    fix k
    assume "k < LENGTH(8)"
    then have "k < 8" by simp
    then show "bit (ucast (drop_bit (8 * i) (le_word bs :: 'a word)) :: byte) k = bit (bs ! i) k"
      using i assms by (simp add: bit_ucast_iff bit_drop_bit_eq bit_le_word)
  qed
  with i show "le_bytes n (le_word bs :: 'a word) ! i = bs ! i"
    by (simp add: le_bytes_nth)
qed

lemma le_word_rev_rev:
  "LENGTH('a) \<le> 8 * n \<Longrightarrow> le_word (rev (rev (le_bytes n w))) = (w :: 'a::len word)"
  by simp

text \<open>Equality of bytes, bit by bit.\<close>

lemma byte_no_high_bit [simp]: "8 \<le> n \<Longrightarrow> \<not> bit (a :: byte) n"
  by (auto dest: bit_imp_le_length)

lemma byte_eqI:
  fixes a b :: byte
  assumes "bit a 0 = bit b 0" "bit a 1 = bit b 1" "bit a 2 = bit b 2" "bit a 3 = bit b 3"
    "bit a 4 = bit b 4" "bit a 5 = bit b 5" "bit a 6 = bit b 6" "bit a 7 = bit b 7"
  shows "a = b"
proof (rule bit_word_eqI)
  fix n
  assume "n < LENGTH(8)"
  then have "n \<in> {0, 1, 2, 3, 4, 5, 6, 7}"
    by auto
  with assms show "bit a n = bit b n"
    by auto
qed

lemma not_bit_if_small:
  assumes "unat (v :: 'a::len word) < 2 ^ k" and "k \<le> n"
  shows "\<not> bit v n"
proof -
  have "unat v < 2 ^ n"
    using assms by (meson le_less_trans less_le_trans one_le_numeral power_increasing)
  then have "\<not> bit (unat v) n"
    by (simp add: bit_iff_odd)
  then show ?thesis
    by (metis bit_unsigned_iff bit_imp_le_length possible_bit_nat)
qed

lemma take_bit_less_exp:
  assumes "take_bit k v = (v :: byte)"
  shows "unat v < 2 ^ k"
proof -
  have "unat v = take_bit k (unat v)"
    using assms by (metis unsigned_take_bit_eq)
  then show ?thesis
    using take_bit_nat_less_exp [of k "unat v"] by simp
qed

section \<open>Lists\<close>

definition splice_at :: "nat \<Rightarrow> 'a list \<Rightarrow> 'a list \<Rightarrow> 'a list" where
  "splice_at p new xs = take p xs @ new @ drop (p + length new) xs"

lemma length_splice_at [simp]:
  "p + length new \<le> length xs \<Longrightarrow> length (splice_at p new xs) = length xs"
  by (simp add: splice_at_def)

lemma slice_splice_at [simp]:
  "p + length new \<le> length xs \<Longrightarrow> take (length new) (drop p (splice_at p new xs)) = new"
  by (simp add: splice_at_def)

lemma splice_at_take_before [simp]:
  "p \<le> length xs \<Longrightarrow> take p (splice_at p new xs) = take p xs"
  by (simp add: splice_at_def)

lemma splice_at_drop_after:
  "p \<le> length xs \<Longrightarrow> drop (p + length new) (splice_at p new xs) = drop (p + length new) xs"
  by (simp add: splice_at_def)

lemma splice_at_nil [simp]: "splice_at p [] xs = xs"
  by (simp add: splice_at_def)

lemma splice_at_splice_at:
  "p + length a \<le> length xs \<Longrightarrow>
     splice_at (p + length a) b (splice_at p a xs) = splice_at p (a @ b) xs"
  by (cases a) (auto simp: splice_at_def min_def add.assoc add.commute [of "length b"])

end
