(* ===== verification/Base64.thy ===== *)
theory Base64
  imports Prelude
begin

text \<open>
  Base64: \<open>include/xtils/utils/base64.h\<close> and \<open>src/utils/base64.cc\<close>.

  The encoder and decoder are the loops of the source over the input list; the destination
  buffer is the list of what the loop wrote, and its capacity is the argument \<open>dst_size\<close>.
  \<open>-1\<close> is \<open>None\<close>. Sizes are natural numbers: the sizes of real buffers are far from the
  \<open>size_t\<close> limit.
\<close>

definition base64_enc_size :: "nat \<Rightarrow> nat" where
  "base64_enc_size src_size = (src_size + 2) div 3 * 4"

definition base64_dec_size :: "nat \<Rightarrow> nat" where
  "base64_dec_size src_size = (src_size + 3) div 4 * 3"

definition k_enc_table :: string where
  "k_enc_table = ''ABCDEFGHIJKLMNOPQRSTUVWXYZabcdefghijklmnopqrstuvwxyz0123456789+/''"

definition k_x :: byte where
  "k_x = 0xff"

definition k_dec_table :: "byte list" where
  "k_dec_table =
    [62, k_x, 62, k_x, 63, 52, 53, 54, 55, 56,
     57, 58, 59, 60, 61, k_x, k_x, k_x, 0, k_x,
     k_x, k_x, 0, 1, 2, 3, 4, 5, 6, 7,
     8, 9, 10, 11, 12, 13, 14, 15, 16, 17,
     18, 19, 20, 21, 22, 23, 24, 25, k_x, k_x,
     k_x, k_x, 63, k_x, 26, 27, 28, 29, 30, 31,
     32, 33, 34, 35, 36, 37, 38, 39, 40, 41,
     42, 43, 44, 45, 46, 47, 48, 49, 50, 51]"

text \<open>A byte above 127 is a negative or a large \<open>char\<close>; both are outside the table's range.\<close>

definition decode_char :: "char \<Rightarrow> byte" where
  "decode_char c =
     (let n = of_char c :: nat in
      if n < of_char CHR ''+'' \<or> n > of_char CHR ''z'' then k_x
      else k_dec_table ! (n - of_char CHR ''+''))"

definition enc_char :: "byte \<Rightarrow> char" where
  "enc_char v = k_enc_table ! unat v"

definition carry0 :: "byte \<Rightarrow> byte" where
  "carry0 s0 = push_bit 4 (s0 AND 0x03)"

definition carry1 :: "byte \<Rightarrow> byte" where
  "carry1 s1 = push_bit 2 (s1 AND 0x0f)"

fun base64_encode_loop :: "byte list \<Rightarrow> string" where
  "base64_encode_loop [] = []"
| "base64_encode_loop [a] =
     [enc_char (drop_bit 2 a), enc_char (carry0 a), CHR ''='', CHR ''='']"
| "base64_encode_loop [a, b] =
     [enc_char (drop_bit 2 a), enc_char (carry0 a OR drop_bit 4 b),
      enc_char (carry1 b), CHR ''='']"
| "base64_encode_loop (a # b # c # rest) =
     [enc_char (drop_bit 2 a), enc_char (carry0 a OR drop_bit 4 b),
      enc_char (carry1 b OR drop_bit 6 c), enc_char (c AND 0x3f)]
     @ base64_encode_loop rest"

definition base64_encode_buf :: "byte list \<Rightarrow> nat \<Rightarrow> string option" where
  "base64_encode_buf src dst_size =
     (if dst_size < base64_enc_size (length src) then None
      else Some (base64_encode_loop src))"

text \<open>The \<open>std::string\<close> overload sizes the buffer itself, so the call cannot fail.\<close>

definition base64_encode :: "byte list \<Rightarrow> string" where
  "base64_encode src = the (base64_encode_buf src (base64_enc_size (length src)))"

text \<open>One group of four characters: the three bytes, or an invalid character.\<close>

definition decode_group :: "char \<Rightarrow> char \<Rightarrow> char \<Rightarrow> char \<Rightarrow> byte list option" where
  "decode_group s0 s1 s2 s3 =
     (let d0 = decode_char s0; d1 = decode_char s1; d2 = decode_char s2; d3 = decode_char s3 in
      if d0 = k_x \<or> d1 = k_x \<or> d2 = k_x \<or> d3 = k_x then None
      else Some [push_bit 2 d0 OR drop_bit 4 d1, push_bit 4 d1 OR drop_bit 2 d2,
                 push_bit 6 d2 OR d3])"

text \<open>
  The decoding loop. A group cut short by the end of the input is filled with \<open>'\0'\<close> in its
  first two places and with padding in the last two. The result carries \<open>s[2]\<close> and \<open>s[3]\<close> of
  the last group, which the code looks at after the loop.
\<close>

fun base64_decode_loop :: "string \<Rightarrow> char \<times> char \<Rightarrow> (byte list \<times> char \<times> char) option" where
  "base64_decode_loop [] s = Some ([], s)"
| "base64_decode_loop [a] s =
     map_option (\<lambda>bs. (bs, CHR ''='', CHR ''='')) (decode_group a CHR 0x00 CHR ''='' CHR ''='')"
| "base64_decode_loop [a, b] s =
     map_option (\<lambda>bs. (bs, CHR ''='', CHR ''='')) (decode_group a b CHR ''='' CHR ''='')"
| "base64_decode_loop [a, b, c] s =
     map_option (\<lambda>bs. (bs, c, CHR ''='')) (decode_group a b c CHR ''='')"
| "base64_decode_loop (a # b # c # d # rest) s =
     (case decode_group a b c d of
        None \<Rightarrow> None
      | Some bs \<Rightarrow> map_option (\<lambda>(out, s'). (bs @ out, s')) (base64_decode_loop rest (c, d)))"

definition base64_decode_buf :: "string \<Rightarrow> nat \<Rightarrow> byte list option" where
  "base64_decode_buf src dst_size =
     (if dst_size < base64_dec_size (length src) then None
      else map_option
        (\<lambda>(out, s2, s3). take (length out - ((if s3 = CHR ''='' then 1 else 0) +
                                             (if s2 = CHR ''='' then 1 else 0))) out)
        (base64_decode_loop src (CHR 0x00, CHR 0x00)))"

definition base64_decode :: "string \<Rightarrow> byte list option" where
  "base64_decode src = base64_decode_buf src (base64_dec_size (length src))"

section \<open>The alphabet\<close>

lemma decode_enc_table:
  "list_all2 (\<lambda>c v. decode_char c = v) k_enc_table (map of_nat [0..<64])"
  by (simp add: k_enc_table_def decode_char_def k_dec_table_def upt_rec)

lemma decode_enc_char [simp]: "unat v < 64 \<Longrightarrow> decode_char (enc_char v) = v"
  using list_all2_nthD2 [OF decode_enc_table, of "unat v"] by (simp add: enc_char_def)

lemma decode_pad [simp]: "decode_char CHR ''='' = 0"
  by code_simp

lemma decode_nul [simp]: "decode_char CHR 0x00 = k_x"
  by code_simp

lemma six_bits [simp]:
  "unat (drop_bit 2 (a :: byte)) < 64" "unat (a AND 63) < 64"
  "unat (carry0 a) < 64" "unat (carry0 a OR drop_bit 4 b) < 64"
  "unat (carry1 a) < 64" "unat (carry1 a OR drop_bit 6 b) < 64"
  by (rule take_bit_less_exp [of 6, simplified], rule byte_eqI; simp add: carry0_def carry1_def bit_simps)+


lemma enc_char_not_pad [simp]: "unat v < 64 \<Longrightarrow> enc_char v \<noteq> CHR ''=''"
proof
  assume v: "unat v < 64" and eq: "enc_char v = CHR ''=''"
  then have "v = 0"
    using decode_enc_char [OF v] by simp
  with eq show False
    by (simp add: enc_char_def k_enc_table_def)
qed

lemma six_bits_not_k_x [simp]: "unat v < 64 \<Longrightarrow> v \<noteq> k_x"
  by (auto simp: k_x_def)

section \<open>Groups\<close>

lemma decode_group_enc:
  assumes "unat v0 < 64" "unat v1 < 64" "unat v2 < 64" "unat v3 < 64"
  shows "decode_group (enc_char v0) (enc_char v1) (enc_char v2) (enc_char v3) =
    Some [push_bit 2 v0 OR drop_bit 4 v1, push_bit 4 v1 OR drop_bit 2 v2, push_bit 6 v2 OR v3]"
  using assms by (simp add: decode_group_def)

text \<open>The bit arithmetic of a full group, of two bytes and of one byte.\<close>

lemma recombine:
  "push_bit 2 (drop_bit 2 (a :: byte)) OR drop_bit 4 (carry0 a) = a"
  "push_bit 2 (drop_bit 2 a) OR drop_bit 4 (carry0 a OR drop_bit 4 b) = a"
  "push_bit 4 (carry0 a OR drop_bit 4 b) OR drop_bit 2 (carry1 b) = b"
  "push_bit 4 (carry0 a OR drop_bit 4 b) OR
     drop_bit 2 (carry1 b OR drop_bit 6 c) = b"
  "push_bit 6 (carry1 b OR drop_bit 6 c) OR (c AND 63) = c"
  "push_bit 4 (carry0 a) = 0" "push_bit 6 (carry1 b) = 0"
  by (rule byte_eqI; simp add: carry0_def carry1_def bit_simps)+

lemma decode_encode_group [simp]:
  "decode_group (enc_char (drop_bit 2 a)) (enc_char (carry0 a OR drop_bit 4 b))
     (enc_char (carry1 b OR drop_bit 6 c)) (enc_char (c AND 63)) = Some [a, b, c]"
  "decode_group (enc_char (drop_bit 2 a)) (enc_char (carry0 a OR drop_bit 4 b))
     (enc_char (carry1 b)) CHR ''='' = Some [a, b, 0]"
  "decode_group (enc_char (drop_bit 2 a)) (enc_char (carry0 a)) CHR ''='' CHR ''='' =
     Some [a, 0, 0]"
  supply push_bit_or [simp del] drop_bit_or [simp del]
  by (simp_all add: decode_group_def recombine)

definition pad_zeros :: "char \<Rightarrow> char \<Rightarrow> byte list" where
  "pad_zeros s2 s3 =
     (if s3 = CHR ''='' then [0] else []) @ (if s2 = CHR ''='' then [0] else [])"

lemma decode_encode_loop:
  assumes "s2 \<noteq> CHR ''=''" and "s3 \<noteq> CHR ''=''"
  shows "\<exists>t2 t3. base64_decode_loop (base64_encode_loop bs) (s2, s3) =
    Some (bs @ pad_zeros t2 t3, t2, t3)"
  using assms
proof (induction bs arbitrary: s2 s3 rule: base64_encode_loop.induct)
  case (4 a b c rest)
  let ?x = "enc_char (carry1 b OR drop_bit 6 c)" and ?y = "enc_char (c AND 63)"
  have "?x \<noteq> CHR ''=''" and "?y \<noteq> CHR ''=''"
    by simp_all
  from "4.IH" [OF this] obtain t2 t3 where
    "base64_decode_loop (base64_encode_loop rest) (?x, ?y) =
       Some (rest @ pad_zeros t2 t3, t2, t3)"
    by blast
  then show ?case by auto
qed (auto simp: pad_zeros_def)

lemma base64_size_step [simp]:
  "base64_enc_size (Suc (Suc (Suc n))) = base64_enc_size n + 4"
  "base64_dec_size (Suc (Suc (Suc (Suc n)))) = base64_dec_size n + 3"
  using div_add_self2 [of 3 "n + 2"] div_add_self2 [of 4 "n + 3"]
  by (simp_all add: base64_enc_size_def base64_dec_size_def)

lemma base64_size_base [simp]:
  "base64_enc_size 0 = 0" "base64_enc_size (Suc 0) = 4" "base64_enc_size (Suc (Suc 0)) = 4"
  "base64_dec_size 0 = 0" "base64_dec_size (Suc 0) = 3" "base64_dec_size (Suc (Suc 0)) = 3"
  "base64_dec_size (Suc (Suc (Suc 0))) = 3"
  by (simp_all add: base64_enc_size_def base64_dec_size_def)

lemma length_encode_loop: "length (base64_encode_loop bs) = base64_enc_size (length bs)"
  by (induction bs rule: base64_encode_loop.induct) auto

lemma base64_encode_eq [simp]: "base64_encode bs = base64_encode_loop bs"
  by (simp add: base64_encode_def base64_encode_buf_def)

lemma length_decode_group: "decode_group a b c d = Some out \<Longrightarrow> length out = 3"
  by (auto simp: decode_group_def Let_def split: if_splits)

lemma length_decode_loop:
  "base64_decode_loop s st = Some (out, st') \<Longrightarrow> length out = base64_dec_size (length s)"
  by (induction s st arbitrary: out st' rule: base64_decode_loop.induct)
    (auto dest!: length_decode_group split: option.splits)

text \<open>Which inputs the decoder accepts.\<close>

definition valid_char :: "char \<Rightarrow> bool" where
  "valid_char c \<longleftrightarrow> decode_char c \<noteq> k_x"

lemma decode_group_Some_iff:
  "(\<exists>out. decode_group a b c d = Some out) \<longleftrightarrow>
     valid_char a \<and> valid_char b \<and> valid_char c \<and> valid_char d"
  by (auto simp: decode_group_def valid_char_def Let_def)

lemma valid_char_simps [simp]: "valid_char CHR ''=''" "\<not> valid_char CHR 0x00"
  by (simp_all add: valid_char_def)

lemma decode_loop_Some_iff:
  "(\<exists>out st'. base64_decode_loop s st = Some (out, st')) \<longleftrightarrow>
     list_all valid_char s \<and> length s mod 4 \<noteq> 1"
proof (induction s st rule: base64_decode_loop.induct)
  case (2 a s)
  have "decode_group a CHR 0x00 CHR ''='' CHR ''='' = None"
    using decode_group_Some_iff [of a "CHR 0x00" "CHR ''=''" "CHR ''=''"] by auto
  then show ?case by simp
next
  case (5 a b c d rest s)
  show ?case
  proof (cases "decode_group a b c d")
    case None
    with decode_group_Some_iff [of a b c d] show ?thesis by auto
  next
    case (Some bs)
    with decode_group_Some_iff [of a b c d] "5.IH" [OF Some] show ?thesis by auto
  qed
next
  case (3 a b s)
  with decode_group_Some_iff [of a b "CHR ''=''" "CHR ''=''"] show ?case by auto
next
  case (4 a b c s)
  with decode_group_Some_iff [of a b c "CHR ''=''"] show ?case by auto
qed simp


section \<open>Properties\<close>

lemma length_pad_zeros: "length (pad_zeros s2 s3) =
    (if s3 = CHR ''='' then 1 else 0) + (if s2 = CHR ''='' then 1 else 0)"
  by (simp add: pad_zeros_def)

lemma base64_decode_eq:
  "base64_decode src = map_option
     (\<lambda>(out, s2, s3). take (length out - length (pad_zeros s2 s3)) out)
     (base64_decode_loop src (CHR 0x00, CHR 0x00))"
  by (simp add: base64_decode_def base64_decode_buf_def length_pad_zeros)

lemma decode_loop_unpadded:
  "base64_decode_loop (takeWhile ((\<noteq>) CHR ''='') (base64_encode_loop bs)) st =
     base64_decode_loop (base64_encode_loop bs) st"
proof (induction bs arbitrary: st rule: base64_encode_loop.induct)
  case (2 a)
  then show ?case
    by (simp add: enc_char_not_pad [symmetric] not_sym [OF enc_char_not_pad])
next
  case (3 a b)
  then show ?case
    by (simp add: not_sym [OF enc_char_not_pad])
next
  case (4 a b c rest)
  then show ?case
    by (simp add: not_sym [OF enc_char_not_pad])
qed simp

lemma base64_decode_encode:
  "base64_decode (base64_encode bs) = Some bs"
  "base64_decode (takeWhile ((\<noteq>) CHR ''='') (base64_encode bs)) = Some bs"
proof -
  obtain t2 t3 where "base64_decode_loop (base64_encode_loop bs) (CHR 0x00, CHR 0x00) =
      Some (bs @ pad_zeros t2 t3, t2, t3)"
    using decode_encode_loop [of "CHR 0x00" "CHR 0x00" bs] by auto
  then show "base64_decode (base64_encode bs) = Some bs"
    "base64_decode (takeWhile ((\<noteq>) CHR ''='') (base64_encode bs)) = Some bs"
    by (simp_all add: base64_decode_eq decode_loop_unpadded)
qed

text \<open>Property C8. Decoding what was encoded gives back the input, for every byte string, with the padding
  kept or dropped; and the encoder fills exactly the \<open>Base64EncSize\<close> bytes it announces.\<close>

theorem base64_roundtrip:
  "base64_decode (base64_encode bs) = Some bs \<and>
   base64_decode (takeWhile ((\<noteq>) CHR ''='') (base64_encode bs)) = Some bs \<and>
   length (base64_encode bs) = base64_enc_size (length bs)"
  using base64_decode_encode by (simp add: length_encode_loop)

text \<open>The decoder is total and fails exactly when a character is outside the two alphabets (and is
  not padding) or the last group has a single character; the decoded text never exceeds the
  \<open>Base64DecSize\<close> bound that callers allocate.\<close>

theorem base64_decode_accepts:
  "(base64_decode s \<noteq> None \<longleftrightarrow> list_all valid_char s \<and> length s mod 4 \<noteq> 1) \<and>
   (case base64_decode s of None \<Rightarrow> True | Some out \<Rightarrow> length out \<le> base64_dec_size (length s))"
proof (cases "base64_decode_loop s (CHR 0x00, CHR 0x00)")
  case None
  with decode_loop_Some_iff [of s "(CHR 0x00, CHR 0x00)"] show ?thesis
    by (auto simp: base64_decode_eq)
next
  case (Some r)
  obtain out st where r: "r = (out, st)"
    by (cases r)
  with Some have "length out = base64_dec_size (length s)"
    by (simp add: length_decode_loop)
  with Some r decode_loop_Some_iff [of s "(CHR 0x00, CHR 0x00)"] show ?thesis
    by (cases st) (auto simp: base64_decode_eq)
qed

text \<open>
  Padding is not confined to the end of the input: a padding character decodes to six zero
  bits wherever it stands, so text after it is still decoded.
\<close>

lemma base64_interior_padding:
  "base64_decode ''QQ==QUJD'' = Some [65, 0, 0, 65, 66, 67]" "base64_decode ''===='' = Some [0]"
  by code_simp+

end
