(* ===== verification/Effects.thy ===== *)
theory Effects
  imports Prelude
begin

text \<open>
  Stateful code that may throw.

  A method is a function from the state to its outcome and the state it leaves: the exception it
  throws (\<open>Inl\<close>) or its result (\<open>Inr\<close>). The state survives an exception, as the members a method
  has already assigned do. \<open>keeps P m\<close> says that \<open>m\<close> preserves \<open>P\<close> whichever way it ends, and
  \<open>moves R m\<close> that it changes the state only along \<open>R\<close>; the collections \<open>keeps_intros\<close> and
  \<open>moves_intros\<close> hold their rules for the constructs below, and components add rules for their
  own operations.
\<close>

type_synonym ('e, 's, 'a) eff = "'s \<Rightarrow> ('e + 'a) \<times> 's"

named_theorems keeps_intros "preservation of a state predicate"
named_theorems moves_intros "changes of the state along a preorder"

definition give :: "'a \<Rightarrow> ('e, 's, 'a) eff" where
  "give a = (\<lambda>s. (Inr a, s))"

definition throw :: "'e \<Rightarrow> ('e, 's, 'a) eff" where
  "throw e = (\<lambda>s. (Inl e, s))"

definition then_with :: "('e, 's, 'a) eff \<Rightarrow> ('a \<Rightarrow> ('e, 's, 'b) eff) \<Rightarrow> ('e, 's, 'b) eff" where
  "then_with m f = (\<lambda>s. case m s of (Inl e, t) \<Rightarrow> (Inl e, t) | (Inr a, t) \<Rightarrow> f a t)"

definition then_do :: "('e, 's, unit) eff \<Rightarrow> ('e, 's, 'b) eff \<Rightarrow> ('e, 's, 'b) eff" where
  "then_do m k = then_with m (\<lambda>_. k)"

definition look :: "('s \<Rightarrow> 'a) \<Rightarrow> ('e, 's, 'a) eff" where
  "look f = (\<lambda>s. (Inr (f s), s))"

definition change :: "('s \<Rightarrow> 's) \<Rightarrow> ('e, 's, unit) eff" where
  "change f = (\<lambda>s. (Inr (), f s))"

text \<open>Statement sequences and a \<open>for\<close> loop over a container.\<close>

fun in_order :: "('e, 's, unit) eff list \<Rightarrow> ('e, 's, unit) eff" where
  "in_order [] = give ()"
| "in_order (m # ms) = then_do m (in_order ms)"

definition for_each :: "'a list \<Rightarrow> ('a \<Rightarrow> ('e, 's, unit) eff) \<Rightarrow> ('e, 's, unit) eff" where
  "for_each xs f = in_order (map f xs)"

text \<open>The results of a list of operations, in order.\<close>

fun all_results :: "('e, 's, 'a) eff list \<Rightarrow> ('e, 's, 'a list) eff" where
  "all_results [] = give []"
| "all_results (m # ms) = then_with m (\<lambda>a. then_with (all_results ms) (\<lambda>as. give (a # as)))"

definition only_if :: "bool \<Rightarrow> ('e, 's, unit) eff \<Rightarrow> ('e, 's, unit) eff" where
  "only_if b m = (if b then m else give ())"

section \<open>Running\<close>

lemma run_simps [simp]:
  "give a s = (Inr a, s)" "throw e s = (Inl e, s)" "look f s = (Inr (f s), s)"
  "change g s = (Inr (), g s)"
  by (simp_all add: give_def throw_def look_def change_def)

lemma run_then_with:
  "then_with m f s = (case m s of (Inl e, t) \<Rightarrow> (Inl e, t) | (Inr a, t) \<Rightarrow> f a t)"
  by (simp add: then_with_def)

lemma run_then_do:
  "then_do m k s = (case m s of (Inl e, t) \<Rightarrow> (Inl e, t) | (Inr a, t) \<Rightarrow> k t)"
  by (simp add: then_do_def then_with_def)

lemma run_only_if: "only_if b m s = (if b then m s else (Inr (), s))"
  by (simp add: only_if_def)

lemmas eff_run = run_then_with run_then_do run_only_if

lemma then_with_look [simp]: "then_with (look f) g s = g (f s) s"
  by (simp add: run_then_with)

lemma then_do_change [simp]: "then_do (change f) k s = k (f s)"
  by (simp add: run_then_do)

text \<open>The simplifier may see \<open>give a\<close> and \<open>throw e\<close> as \<open>Pair (Inr a)\<close> and \<open>Pair (Inl e)\<close>.\<close>

lemma then_ended [simp]:
  "then_with (Pair (Inr a)) f = f a" "then_with (Pair (Inl e)) f = Pair (Inl e)"
  "then_do (Pair (Inr ())) k = k" "then_do (Pair (Inl e)) k = Pair (Inl e)"
  "then_with (give a) f = f a" "then_do (give ()) k = k"
  "then_with (throw e) f = throw e" "then_do (throw e) k = throw e"
  by (auto simp: run_then_with run_then_do)

lemma then_do_assoc: "then_do (then_do a b) c = then_do a (then_do b c)"
  by (rule ext) (simp add: run_then_do split: prod.splits sum.splits)

lemma in_order_append: "in_order (xs @ ys) = then_do (in_order xs) (in_order ys)"
  by (induction xs) (simp_all add: then_do_assoc)

section \<open>Invariants\<close>

definition keeps :: "('s \<Rightarrow> bool) \<Rightarrow> ('e, 's, 'a) eff \<Rightarrow> bool" where
  "keeps P m \<longleftrightarrow> (\<forall>s. P s \<longrightarrow> P (snd (m s)))"

lemma keepsD: "keeps P m \<Longrightarrow> P s \<Longrightarrow> P (snd (m s))"
  by (simp add: keeps_def)

lemma keeps_give [keeps_intros]: "keeps P (give a)"
  by (simp add: keeps_def)

lemma keeps_throw [keeps_intros]: "keeps P (throw e)"
  by (simp add: keeps_def)

lemma keeps_ended [simp]: "keeps P (Pair r)"
  by (simp add: keeps_def)

lemma keeps_look [keeps_intros]: "keeps P (look f)"
  by (simp add: keeps_def)

lemma keeps_change: "(\<And>s. P s \<Longrightarrow> P (f s)) \<Longrightarrow> keeps P (change f)"
  by (simp add: keeps_def)

lemma keeps_then_with [keeps_intros]:
  assumes "keeps P m" and "\<And>a. keeps P (f a)"
  shows "keeps P (then_with m f)"
  unfolding keeps_def
proof (intro allI impI)
  fix s assume "P s"
  then have "P (snd (m s))"
    using assms(1) by (rule keepsD [rotated])
  then show "P (snd (then_with m f s))"
    using assms(2) by (auto simp: run_then_with keeps_def split: prod.splits sum.splits)
qed

text \<open>What was looked up holds of the state the continuation runs in.\<close>

lemma keeps_then_look:
  "(\<And>s. P s \<Longrightarrow> P (snd (g (f s) s))) \<Longrightarrow> keeps P (then_with (look f) g)"
  by (simp add: keeps_def)

lemma keeps_then_do [keeps_intros]: "keeps P m \<Longrightarrow> keeps P k \<Longrightarrow> keeps P (then_do m k)"
  by (simp add: then_do_def keeps_then_with)

lemma keeps_only_if [keeps_intros]: "(b \<Longrightarrow> keeps P m) \<Longrightarrow> keeps P (only_if b m)"
  by (simp add: only_if_def keeps_give)

lemma keeps_in_order [keeps_intros]: "(\<And>m. m \<in> set ms \<Longrightarrow> keeps P m) \<Longrightarrow> keeps P (in_order ms)"
  by (induction ms) (simp_all add: keeps_intros)

lemma keeps_for_each [keeps_intros]:
  "(\<And>x. x \<in> set xs \<Longrightarrow> keeps P (f x)) \<Longrightarrow> keeps P (for_each xs f)"
  by (auto simp: for_each_def intro!: keeps_in_order)

section \<open>Frames\<close>

definition moves :: "('s \<Rightarrow> 's \<Rightarrow> bool) \<Rightarrow> ('e, 's, 'a) eff \<Rightarrow> bool" where
  "moves R m \<longleftrightarrow> (\<forall>s. R s (snd (m s)))"

lemma movesD: "moves R m \<Longrightarrow> R s (snd (m s))"
  by (simp add: moves_def)

lemma moves_basic [moves_intros]:
  assumes "reflp R"
  shows "moves R (give a)" "moves R (throw e)" "moves R (look f)"
  using assms by (simp_all add: moves_def reflpD)

lemma moves_change: "(\<And>s. R s (f s)) \<Longrightarrow> moves R (change f)"
  by (simp add: moves_def)

lemma moves_then_with [moves_intros]:
  assumes "transp R" and "moves R m" and "\<And>a. moves R (f a)"
  shows "moves R (then_with m f)"
  unfolding moves_def
proof
  fix s
  have "R s (snd (m s))"
    using assms(2) by (rule movesD)
  then show "R s (snd (then_with m f s))"
    using assms(1,3) unfolding moves_def
    by (cases "m s") (auto simp: run_then_with split: sum.splits elim: transpE)
qed

lemma moves_then_do [moves_intros]:
  "transp R \<Longrightarrow> moves R m \<Longrightarrow> moves R k \<Longrightarrow> moves R (then_do m k)"
  by (simp add: then_do_def moves_then_with)

lemma moves_only_if [moves_intros]: "reflp R \<Longrightarrow> moves R m \<Longrightarrow> moves R (only_if b m)"
  by (simp add: only_if_def moves_basic)

lemma moves_in_order [moves_intros]:
  "reflp R \<Longrightarrow> transp R \<Longrightarrow> (\<And>m. m \<in> set ms \<Longrightarrow> moves R m) \<Longrightarrow> moves R (in_order ms)"
  by (induction ms) (simp_all add: moves_basic moves_then_do)

lemma moves_for_each [moves_intros]:
  "reflp R \<Longrightarrow> transp R \<Longrightarrow> (\<And>x. x \<in> set xs \<Longrightarrow> moves R (f x)) \<Longrightarrow> moves R (for_each xs f)"
  by (auto simp: for_each_def intro!: moves_in_order)

section \<open>Pre- and postconditions\<close>

text \<open>\<open>triple P m Q E\<close>: from \<open>P\<close>, \<open>m\<close> returns with \<open>Q\<close> or throws with \<open>E\<close>.\<close>

definition triple ::
    "('s \<Rightarrow> bool) \<Rightarrow> ('e, 's, 'a) eff \<Rightarrow> ('a \<Rightarrow> 's \<Rightarrow> bool) \<Rightarrow> ('s \<Rightarrow> bool) \<Rightarrow> bool" where
  "triple P m Q E \<longleftrightarrow>
     (\<forall>s. P s \<longrightarrow> (case m s of (Inl e, t) \<Rightarrow> E t | (Inr r, t) \<Rightarrow> Q r t))"

lemma tripleI:
  assumes "\<And>s e t. P s \<Longrightarrow> m s = (Inl e, t) \<Longrightarrow> E t"
    and "\<And>s r t. P s \<Longrightarrow> m s = (Inr r, t) \<Longrightarrow> Q r t"
  shows "triple P m Q E"
  using assms by (auto simp: triple_def split: prod.splits sum.splits)

lemma tripleD:
  assumes "triple P m Q E" and "P s"
  shows "m s = (Inr r, t) \<Longrightarrow> Q r t" and "m s = (Inl e, t) \<Longrightarrow> E t"
  using assms by (auto simp: triple_def)

lemma triple_then_with:
  assumes "triple P m R E" and "\<And>r. triple (R r) (f r) Q E"
  shows "triple P (then_with m f) Q E"
  using assms unfolding triple_def run_then_with by (fastforce split: prod.splits sum.splits)

lemma triple_then_do:
  "triple P m (\<lambda>_. R) E \<Longrightarrow> triple R k Q E \<Longrightarrow> triple P (then_do m k) Q E"
  unfolding then_do_def by (rule triple_then_with)

lemma triple_weaken:
  assumes "triple P m Q E" and "\<And>s. P' s \<Longrightarrow> P s" and "\<And>r s. Q r s \<Longrightarrow> Q' r s"
    and "\<And>s. E s \<Longrightarrow> E' s"
  shows "triple P' m Q' E'"
  using assms unfolding triple_def by (fastforce split: prod.splits sum.splits)

lemma triple_only_if:
  assumes "b \<Longrightarrow> triple P m Q E" and "\<And>s. \<not> b \<Longrightarrow> P s \<Longrightarrow> Q () s"
  shows "triple P (only_if b m) Q E"
  using assms by (auto simp: triple_def run_only_if)

lemma triple_look: "(\<And>s. P s \<Longrightarrow> Q (f s) s) \<Longrightarrow> triple P (look f) Q E"
  by (simp add: triple_def)

lemma triple_change: "(\<And>s. P s \<Longrightarrow> Q () (f s)) \<Longrightarrow> triple P (change f) Q E"
  by (simp add: triple_def)

end
