(* ===== verification/Ordered_Map.thy ===== *)
theory Ordered_Map
  imports Prelude
begin

text \<open>
  \<open>std::map\<close> and \<open>std::unordered_map\<close>: the containers behind \<open>Json::object_t\<close>, \<open>AnyMap\<close>, the
  state tables of the finite state machine and the registries of the behaviour-tree factory.

  \<open>omap\<close> keeps the entries as a list with strictly increasing keys, so iterating a
  \<open>std::map\<close> is traversing the list. The locale \<open>key_map\<close> states what the clients rely on; it is
  interpreted on \<open>omap\<close> at the end of the theory.
\<close>

type_synonym ('k, 'v) omap = "('k \<times> 'v) list"

text \<open>\<open>find\<close>: the mapped value, or \<open>end()\<close>.\<close>

definition omap_find :: "('k, 'v) omap \<Rightarrow> 'k \<Rightarrow> 'v option" where
  "omap_find m k = map_of m k"

text \<open>\<open>m[k] = v\<close>.\<close>

fun omap_set :: "'k::linorder \<Rightarrow> 'v \<Rightarrow> ('k, 'v) omap \<Rightarrow> ('k, 'v) omap" where
  "omap_set k v [] = [(k, v)]"
| "omap_set k v ((k', v') # m) =
     (if k < k' then (k, v) # (k', v') # m
      else if k = k' then (k, v) # m
      else (k', v') # omap_set k v m)"

text \<open>\<open>erase(k)\<close>.\<close>

fun omap_erase :: "'k \<Rightarrow> ('k, 'v) omap \<Rightarrow> ('k, 'v) omap" where
  "omap_erase k [] = []"
| "omap_erase k ((k', v') # m) = (if k = k' then m else (k', v') # omap_erase k m)"

definition omap_wf :: "('k::linorder, 'v) omap \<Rightarrow> bool" where
  "omap_wf m \<longleftrightarrow> sorted_wrt (<) (map fst m)"

lemma sorted_entries_unique:
  assumes "sorted_wrt (<) (map fst xs)" and "sorted_wrt (<) (map fst ys)"
    and "map_of xs = map_of ys"
  shows "xs = (ys :: ('k::linorder \<times> 'v) list)"
  using assms
proof (induction xs arbitrary: ys)
  case Nil
  then show ?case by simp
next
  case (Cons x xs)
  obtain k v where x: "x = (k, v)"
    by (cases x)
  have above: "\<forall>k' \<in> fst ` set xs. k < k'"
    using Cons.prems(1) by (simp add: x)
  have "ys \<noteq> []"
    using Cons.prems(3) by (auto simp: x fun_eq_iff split: if_splits)
  then obtain k2 v2 ys2 where ys: "ys = (k2, v2) # ys2"
    by (metis list.exhaust surj_pair)
  have above2: "\<forall>k' \<in> fst ` set ys2. k2 < k'"
    using Cons.prems(2) by (simp add: ys)
  have dom: "insert k (fst ` set xs) = insert k2 (fst ` set ys2)"
    using Cons.prems(3) dom_map_of_conv_image_fst [of "x # xs"] dom_map_of_conv_image_fst [of ys]
    by (simp add: x ys del: map_of.simps)
  have k: "k = k2"
    using dom above above2 by (metis insert_iff order_less_asym)
  then have v: "v = v2"
    using fun_cong [OF Cons.prems(3), of k] by (simp add: x ys)
  have "map_of xs = map_of ys2"
  proof
    fix j
    show "map_of xs j = map_of ys2 j"
    proof (cases "j = k")
      case True
      have "k \<notin> fst ` set xs" "k \<notin> fst ` set ys2"
        using above above2 k by auto
      then show ?thesis
        using True by (simp add: map_of_eq_None_iff [symmetric])
    next
      case False
      then show ?thesis
        using fun_cong [OF Cons.prems(3), of j] k by (simp add: x ys)
    qed
  qed
  with Cons.IH [of ys2] Cons.prems(1,2) show ?case
    by (simp add: x ys k v)
qed

section \<open>The interface\<close>

locale key_map =
  fixes empty :: "'m"
    and lookup :: "'m \<Rightarrow> 'k::linorder \<Rightarrow> 'v option"
    and put :: "'k \<Rightarrow> 'v \<Rightarrow> 'm \<Rightarrow> 'm"
    and remove :: "'k \<Rightarrow> 'm \<Rightarrow> 'm"
    and entries :: "'m \<Rightarrow> ('k \<times> 'v) list"
    and invar :: "'m \<Rightarrow> bool"
  assumes lookup_empty: "lookup empty k = None"
    and lookup_put: "invar m \<Longrightarrow> lookup (put k v m) k' = (if k' = k then Some v else lookup m k')"
    and lookup_remove: "invar m \<Longrightarrow> lookup (remove k m) k' = (if k' = k then None else lookup m k')"
    and invar_empty: "invar empty"
    and invar_put: "invar m \<Longrightarrow> invar (put k v m)"
    and invar_remove: "invar m \<Longrightarrow> invar (remove k m)"
    and lookup_entries: "invar m \<Longrightarrow> lookup m k = map_of (entries m) k"
    and entries_sorted: "invar m \<Longrightarrow> sorted_wrt (<) (map fst (entries m))"
    and entries_inj: "entries m = entries m' \<Longrightarrow> m = m'"
begin

lemma put_get_same: "invar m \<Longrightarrow> lookup (put k v m) k = Some v"
  by (simp add: lookup_put)

lemma put_frame: "invar m \<Longrightarrow> k' \<noteq> k \<Longrightarrow> lookup (put k v m) k' = lookup m k'"
  by (simp add: lookup_put)

lemma remove_absent: "invar m \<Longrightarrow> lookup (remove k m) k = None"
  by (simp add: lookup_remove)

lemma entries_distinct: "invar m \<Longrightarrow> distinct (map fst (entries m))"
  using entries_sorted strict_sorted_iff by blast

lemma entries_unique:
  assumes "invar m" and "invar m'" and "\<And>k. lookup m k = lookup m' k"
  shows "m = m'"
proof (rule entries_inj, rule sorted_entries_unique)
  show "map_of (entries m) = map_of (entries m')"
    using assms by (auto simp: lookup_entries [symmetric])
qed (use assms entries_sorted in auto)

text \<open>Inserting the entries of a sorted list, in order, gives the map with those entries.\<close>

lemma invar_fold_put: "invar m \<Longrightarrow> invar (fold (\<lambda>(k, v). put k v) es m)"
  by (induction es arbitrary: m) (auto simp: invar_put)

lemma lookup_fold_put:
  "invar m \<Longrightarrow> distinct (map fst es) \<Longrightarrow>
     lookup (fold (\<lambda>(k, v). put k v) es m) k =
       (case map_of es k of Some v \<Rightarrow> Some v | None \<Rightarrow> lookup m k)"
proof (induction es arbitrary: m)
  case Nil
  then show ?case by simp
next
  case (Cons e es)
  obtain k' v' where e: "e = (k', v')"
    by (cases e)
  with Cons.prems have "map_of es k' = None"
    by (auto simp: map_of_eq_None_iff)
  with Cons e show ?case
    by (simp add: invar_put lookup_put split: option.splits)
qed

lemma fold_put_entries:
  assumes "invar m"
  shows "fold (\<lambda>(k, v). put k v) (entries m) empty = m"
proof (rule entries_unique)
  show "invar (fold (\<lambda>(k, v). put k v) (entries m) empty)"
    by (rule invar_fold_put [OF invar_empty])
  show "lookup (fold (\<lambda>(k, v). put k v) (entries m) empty) k = lookup m k" for k
    using assms by (simp add: lookup_fold_put invar_empty entries_distinct lookup_empty
        lookup_entries split: option.splits)
qed (rule assms)

end

section \<open>The list implementation provides it\<close>

lemma omap_find_set: "omap_find (omap_set k v m) k' = (if k' = k then Some v else omap_find m k')"
  by (induction k v m rule: omap_set.induct) (auto simp: omap_find_def)

lemma omap_find_nil [simp]: "omap_find [] k = None"
  by (simp add: omap_find_def)

lemma omap_find_Cons [simp]: "omap_find ((k, v) # m) k' = (if k' = k then Some v else omap_find m k')"
  by (simp add: omap_find_def)

lemma set_omap_set: "fst ` set (omap_set k v m) = insert k (fst ` set m)"
  by (induction k v m rule: omap_set.induct) auto

lemma set_omap_set_subset: "set (omap_set k v m) \<subseteq> insert (k, v) (set m)"
  by (induction k v m rule: omap_set.induct) auto

lemma set_omap_erase_subset: "set (omap_erase k m) \<subseteq> set m"
  by (induction k m rule: omap_erase.induct) auto

lemma omap_wf_nil [simp, wf_intros]: "omap_wf []"
  by (simp add: omap_wf_def)

lemma omap_wf_Cons:
  "omap_wf ((k, v) # m) \<longleftrightarrow> (\<forall>k' \<in> fst ` set m. k < k') \<and> omap_wf m"
  by (auto simp: omap_wf_def)

lemma omap_wf_set [wf_intros]: "omap_wf m \<Longrightarrow> omap_wf (omap_set k v m)"
  by (induction k v m rule: omap_set.induct)
    (auto simp: omap_wf_Cons set_omap_set simp del: set_map)

lemma omap_wf_erase [wf_intros]: "omap_wf m \<Longrightarrow> omap_wf (omap_erase k m)"
  by (induction k m rule: omap_erase.induct)
    (auto simp: omap_wf_Cons dest: set_omap_erase_subset [THEN subsetD])

lemma omap_find_erase:
  "omap_wf m \<Longrightarrow> omap_find (omap_erase k m) k' = (if k' = k then None else omap_find m k')"
proof (induction k m rule: omap_erase.induct)
  case (1 k)
  then show ?case by (simp add: omap_find_def)
next
  case (2 k k'' v m)
  have "map_of m k'' = None"
    using "2.prems" by (auto simp: omap_wf_Cons map_of_eq_None_iff)
  with 2 show ?case
    by (auto simp: omap_find_def omap_wf_Cons)
qed

lemma omap_find_mem: "omap_find m k = Some v \<Longrightarrow> (k, v) \<in> set m"
  by (simp add: omap_find_def map_of_SomeD)

interpretation omap: key_map "[]" omap_find omap_set omap_erase "\<lambda>m. m" omap_wf
proof
  show "omap_find m k = map_of m k" for m :: "('k \<times> 'v) list" and k
    by (simp add: omap_find_def)
  show "sorted_wrt (<) (map fst m)" if "omap_wf m" for m :: "('k::linorder \<times> 'v) list"
    using that by (simp add: omap_wf_def)
qed (simp_all add: omap_find_set omap_find_erase omap_wf_set omap_wf_erase omap_find_def [of "[]"])

end
