(* ===== verification/Json_Value.thy ===== *)
theory Json_Value
  imports Ordered_Map
begin

text \<open>
  JSON values: the class \<open>Json\<close> of \<open>include/xtils/utils/json.h\<close> and the value operations of
  \<open>src/utils/json.cc\<close>.

  A value is the tagged union as a datatype. \<open>integer_t\<close> is 64 bits wide and read by \<open>sint\<close>;
  a \<open>double\<close> is its bit pattern; an object is a \<open>std::map\<close>. The union owns its heap data
  exclusively, so copying is the identity on values and a moved-from value is null. A method
  that throws is \<open>Inl\<close>; a method that returns a reference to an element is the pair of the
  value after the call and the element, and assigning through it is a \<open>put\<close>.
\<close>

datatype json =
    JNull
  | JBool bool
  | JInt u64
  | JFloat f64
  | JString string
  | JArray "json list"
  | JObject "(string \<times> json) list"

datatype json_type = NUL | BOOLEAN | INTEGER | FLOAT | STRING | ARRAY | OBJECT

datatype json_error =
    Not_bool | Not_integer | Not_float | Not_number | Not_string | Not_array | Not_object
  | Cannot_index | Cannot_push | Key_not_found string | Index_out_of_bounds nat nat

section \<open>Type checks and typed access\<close>

fun type_of :: "json \<Rightarrow> json_type" where
  "type_of JNull = NUL"
| "type_of (JBool b) = BOOLEAN"
| "type_of (JInt i) = INTEGER"
| "type_of (JFloat f) = FLOAT"
| "type_of (JString s) = STRING"
| "type_of (JArray a) = ARRAY"
| "type_of (JObject m) = OBJECT"

definition is_null :: "json \<Rightarrow> bool" where "is_null j \<longleftrightarrow> type_of j = NUL"
definition is_bool :: "json \<Rightarrow> bool" where "is_bool j \<longleftrightarrow> type_of j = BOOLEAN"
definition is_integer :: "json \<Rightarrow> bool" where "is_integer j \<longleftrightarrow> type_of j = INTEGER"
definition is_float :: "json \<Rightarrow> bool" where "is_float j \<longleftrightarrow> type_of j = FLOAT"
definition is_number :: "json \<Rightarrow> bool" where "is_number j \<longleftrightarrow> is_integer j \<or> is_float j"
definition is_string :: "json \<Rightarrow> bool" where "is_string j \<longleftrightarrow> type_of j = STRING"
definition is_array :: "json \<Rightarrow> bool" where "is_array j \<longleftrightarrow> type_of j = ARRAY"
definition is_object :: "json \<Rightarrow> bool" where "is_object j \<longleftrightarrow> type_of j = OBJECT"

lemmas is_type_defs = is_null_def is_bool_def is_integer_def is_float_def is_number_def
  is_string_def is_array_def is_object_def

fun as_bool :: "json \<Rightarrow> json_error + bool" where
  "as_bool (JBool b) = Inr b"
| "as_bool _ = Inl Not_bool"

fun as_integer :: "json \<Rightarrow> json_error + u64" where
  "as_integer (JInt i) = Inr i"
| "as_integer _ = Inl Not_integer"

fun as_float :: "json \<Rightarrow> json_error + f64" where
  "as_float (JFloat f) = Inr f"
| "as_float _ = Inl Not_float"

text \<open>The conversion of an \<open>int64_t\<close> to \<open>double\<close> is the parameter \<open>i2d\<close>.\<close>

fun as_number :: "(u64 \<Rightarrow> f64) \<Rightarrow> json \<Rightarrow> json_error + f64" where
  "as_number i2d (JInt i) = Inr (i2d i)"
| "as_number i2d (JFloat f) = Inr f"
| "as_number i2d _ = Inl Not_number"

fun as_string :: "json \<Rightarrow> json_error + string" where
  "as_string (JString s) = Inr s"
| "as_string _ = Inl Not_string"

fun as_array :: "json \<Rightarrow> json_error + json list" where
  "as_array (JArray a) = Inr a"
| "as_array _ = Inl Not_array"

fun as_object :: "json \<Rightarrow> json_error + (string, json) omap" where
  "as_object (JObject m) = Inr m"
| "as_object _ = Inl Not_object"

section \<open>Construction, copy and move\<close>

definition json_object :: json where
  "json_object = JObject []"

definition json_array :: json where
  "json_array = JArray []"

text \<open>The template constructor for integers casts to \<open>int64_t\<close>.\<close>

definition json_of_int :: "int \<Rightarrow> json" where
  "json_of_int i = JInt (word_of_int i)"

text \<open>\<open>copy_from\<close> allocates a copy of the pointee, so the two values share nothing.\<close>

fun copy_from :: "json \<Rightarrow> json" where
  "copy_from JNull = JNull"
| "copy_from (JBool b) = JBool b"
| "copy_from (JInt i) = JInt i"
| "copy_from (JFloat f) = JFloat f"
| "copy_from (JString s) = JString s"
| "copy_from (JArray a) = JArray (map copy_from a)"
| "copy_from (JObject m) = JObject (map (\<lambda>(k, v). (k, copy_from v)) m)"

text \<open>Move construction and assignment between distinct values: (this, other).\<close>

definition move_from :: "json \<Rightarrow> json \<times> json" where
  "move_from other = (other, JNull)"

section \<open>Element access\<close>

text \<open>The non-const \<open>operator[](key)\<close> promotes null and creates the element.\<close>

definition index_key :: "json \<Rightarrow> string \<Rightarrow> json_error + (json \<times> json)" where
  "index_key j key =
     (let at = (\<lambda>m. case omap_find m key of
                 Some v \<Rightarrow> (JObject m, v)
               | None \<Rightarrow> (JObject (omap_set key JNull m), JNull))
      in case j of
           JObject m \<Rightarrow> Inr (at m)
         | JNull \<Rightarrow> Inr (at [])
         | _ \<Rightarrow> Inl Cannot_index)"

text \<open>\<open>j[key] = v\<close>.\<close>

definition assign_key :: "json \<Rightarrow> string \<Rightarrow> json \<Rightarrow> json_error + json" where
  "assign_key j key v =
     (case index_key j key of
        Inl e \<Rightarrow> Inl e
      | Inr (JObject m, _) \<Rightarrow> Inr (JObject (omap_set key v m))
      | Inr (j', _) \<Rightarrow> Inr j')"

definition at_key :: "json \<Rightarrow> string \<Rightarrow> json_error + json" where
  "at_key j key =
     (case j of
        JObject m \<Rightarrow> (case omap_find m key of None \<Rightarrow> Inl (Key_not_found key) | Some v \<Rightarrow> Inr v)
      | _ \<Rightarrow> Inl Not_object)"

text \<open>\<open>operator[](size_t)\<close>: the const and the non-const overload have the same checks.\<close>

definition at_index :: "json \<Rightarrow> nat \<Rightarrow> json_error + json" where
  "at_index j i =
     (case j of
        JArray a \<Rightarrow>
          if i \<ge> length a then Inl (Index_out_of_bounds i (length a)) else Inr (a ! i)
      | _ \<Rightarrow> Inl Not_array)"

definition assign_index :: "json \<Rightarrow> nat \<Rightarrow> json \<Rightarrow> json_error + json" where
  "assign_index j i v =
     (case j of
        JArray a \<Rightarrow>
          if i \<ge> length a then Inl (Index_out_of_bounds i (length a)) else Inr (JArray (a[i := v]))
      | _ \<Rightarrow> Inl Not_array)"

definition push_back :: "json \<Rightarrow> json \<Rightarrow> json_error + json" where
  "push_back j v =
     (case j of
        JArray a \<Rightarrow> Inr (JArray (a @ [v]))
      | JNull \<Rightarrow> Inr (JArray [v])
      | _ \<Rightarrow> Inl Cannot_push)"

definition json_clear :: "json \<Rightarrow> json" where
  "json_clear j = JNull"

definition erase_key :: "json \<Rightarrow> string \<Rightarrow> json_error + json" where
  "erase_key j key =
     (case j of JObject m \<Rightarrow> Inr (JObject (omap_erase key m)) | _ \<Rightarrow> Inl Not_object)"

definition erase_index :: "json \<Rightarrow> nat \<Rightarrow> json_error + json" where
  "erase_index j i =
     (case j of
        JArray a \<Rightarrow>
          if i \<ge> length a then Inl (Index_out_of_bounds i (length a))
          else Inr (JArray (take i a @ drop (Suc i) a))
      | _ \<Rightarrow> Inl Not_array)"

section \<open>Optional access\<close>

definition get_key :: "json \<Rightarrow> string \<Rightarrow> json option" where
  "get_key j key = (case j of JObject m \<Rightarrow> omap_find m key | _ \<Rightarrow> None)"

definition get_index :: "json \<Rightarrow> nat \<Rightarrow> json option" where
  "get_index j i = (case j of JArray a \<Rightarrow> if i < length a then Some (a ! i) else None | _ \<Rightarrow> None)"

text \<open>\<open>find\<close> returns a pointer to the element that \<open>get\<close> copies.\<close>

definition find_key :: "json \<Rightarrow> string \<Rightarrow> json option" where
  "find_key j key = (case j of JObject m \<Rightarrow> omap_find m key | _ \<Rightarrow> None)"

definition find_index :: "json \<Rightarrow> nat \<Rightarrow> json option" where
  "find_index j i = (case j of JArray a \<Rightarrow> if i < length a then Some (a ! i) else None | _ \<Rightarrow> None)"

definition has_key :: "json \<Rightarrow> string \<Rightarrow> bool" where
  "has_key j key = (case j of JObject m \<Rightarrow> omap_find m key \<noteq> None | _ \<Rightarrow> False)"

definition has_index :: "json \<Rightarrow> nat \<Rightarrow> bool" where
  "has_index j i = (case j of JArray a \<Rightarrow> i < length a | _ \<Rightarrow> False)"

definition json_contains :: "json \<Rightarrow> string \<Rightarrow> bool" where
  "json_contains j key = has_key j key"

text \<open>The pattern of the typed getters: the element if there is one and it has the type.\<close>

definition typed :: "(json \<Rightarrow> json_error + 'a) \<Rightarrow> json option \<Rightarrow> 'a option" where
  "typed as v = (case v of None \<Rightarrow> None | Some x \<Rightarrow> (case as x of Inl e \<Rightarrow> None | Inr a \<Rightarrow> Some a))"

definition get_bool :: "json \<Rightarrow> string \<Rightarrow> bool option" where
  "get_bool j key = typed as_bool (get_key j key)"
definition get_integer :: "json \<Rightarrow> string \<Rightarrow> u64 option" where
  "get_integer j key = typed as_integer (get_key j key)"
definition get_float :: "json \<Rightarrow> string \<Rightarrow> f64 option" where
  "get_float j key = typed as_float (get_key j key)"
definition get_number :: "(u64 \<Rightarrow> f64) \<Rightarrow> json \<Rightarrow> string \<Rightarrow> f64 option" where
  "get_number i2d j key = typed (as_number i2d) (get_key j key)"
definition get_string :: "json \<Rightarrow> string \<Rightarrow> string option" where
  "get_string j key = typed as_string (get_key j key)"
definition get_array :: "json \<Rightarrow> string \<Rightarrow> json list option" where
  "get_array j key = typed as_array (get_key j key)"
definition get_object :: "json \<Rightarrow> string \<Rightarrow> (string, json) omap option" where
  "get_object j key = typed as_object (get_key j key)"

definition get_bool_at :: "json \<Rightarrow> nat \<Rightarrow> bool option" where
  "get_bool_at j i = typed as_bool (get_index j i)"
definition get_integer_at :: "json \<Rightarrow> nat \<Rightarrow> u64 option" where
  "get_integer_at j i = typed as_integer (get_index j i)"
definition get_float_at :: "json \<Rightarrow> nat \<Rightarrow> f64 option" where
  "get_float_at j i = typed as_float (get_index j i)"
definition get_number_at :: "(u64 \<Rightarrow> f64) \<Rightarrow> json \<Rightarrow> nat \<Rightarrow> f64 option" where
  "get_number_at i2d j i = typed (as_number i2d) (get_index j i)"
definition get_string_at :: "json \<Rightarrow> nat \<Rightarrow> string option" where
  "get_string_at j i = typed as_string (get_index j i)"
definition get_array_at :: "json \<Rightarrow> nat \<Rightarrow> json list option" where
  "get_array_at j i = typed as_array (get_index j i)"
definition get_object_at :: "json \<Rightarrow> nat \<Rightarrow> (string, json) omap option" where
  "get_object_at j i = typed as_object (get_index j i)"

definition json_size :: "json \<Rightarrow> nat" where
  "json_size j = (case j of JArray a \<Rightarrow> length a | JObject m \<Rightarrow> length m | _ \<Rightarrow> 0)"

definition json_empty :: "json \<Rightarrow> bool" where
  "json_empty j =
     (case j of
        JArray a \<Rightarrow> a = []
      | JObject m \<Rightarrow> m = []
      | JString s \<Rightarrow> s = []
      | _ \<Rightarrow> is_null j)"


section \<open>The invariant\<close>

text \<open>Every object, at any depth, has strictly increasing keys.\<close>

fun json_wf :: "json \<Rightarrow> bool" where
  "json_wf (JArray a) = list_all json_wf a"
| "json_wf (JObject m) = (omap_wf m \<and> list_all json_wf (map snd m))"
| "json_wf _ = True"

lemma json_wf_find: "json_wf (JObject m) \<Longrightarrow> omap_find m k = Some v \<Longrightarrow> json_wf v"
  by (auto simp: list_all_iff dest!: omap_find_mem)

lemma json_wf_set [wf_intros]: "json_wf (JObject m) \<Longrightarrow> json_wf v \<Longrightarrow> json_wf (JObject (omap_set k v m))"
  using set_omap_set_subset [of k v m] by (auto simp: list_all_iff omap_wf_set)

lemma json_wf_erase [wf_intros]: "json_wf (JObject m) \<Longrightarrow> json_wf (JObject (omap_erase k m))"
  using set_omap_erase_subset [of k m] by (auto simp: list_all_iff omap_wf_erase)

lemma copy_from_id [simp]: "copy_from j = j"
proof (induction j)
  case (JObject m)
  then have "(\<lambda>(k, v). (k, copy_from v)) kv = kv" if "kv \<in> set m" for kv
    using that by (cases kv) (auto intro: JObject [of kv])
  then show ?case
    by (simp add: map_idI)
qed (auto intro: map_idI)

lemma omap_set_idem: "omap_wf m \<Longrightarrow> omap_set k v (omap_set k w m) = omap_set k v m"
  by (rule omap.entries_unique) (simp_all add: omap_wf_set omap_find_set)

lemma assign_key_eq:
  assumes "json_wf j"
  shows "assign_key j key v =
    (case j of JObject m \<Rightarrow> Inr (JObject (omap_set key v m))
     | JNull \<Rightarrow> Inr (JObject [(key, v)]) | _ \<Rightarrow> Inl Cannot_index)"
  using assms
  by (auto simp: assign_key_def index_key_def omap_set_idem omap_find_def Let_def
      split: json.splits option.splits)

section \<open>Properties\<close>

inductive json_update :: "json \<Rightarrow> json \<Rightarrow> bool" where
  "json_wf v \<Longrightarrow> assign_key j key v = Inr j' \<Longrightarrow> json_update j j'"
| "index_key j key = Inr (j', v) \<Longrightarrow> json_update j j'"
| "json_wf v \<Longrightarrow> assign_index j i v = Inr j' \<Longrightarrow> json_update j j'"
| "json_wf v \<Longrightarrow> push_back j v = Inr j' \<Longrightarrow> json_update j j'"
| "erase_key j key = Inr j' \<Longrightarrow> json_update j j'"
| "erase_index j i = Inr j' \<Longrightarrow> json_update j j'"
| "json_update j (json_clear j)"
| "move_from other = (j', other') \<Longrightarrow> json_wf other \<Longrightarrow> json_update j j'"

lemma json_update_wf:
  assumes "json_update j j'" and "json_wf j"
  shows "json_wf j'"
  using assms
proof (induction rule: json_update.induct)
  case (1 v j key j')
  then show ?case
    by (auto simp: assign_key_eq json_wf_set simp del: json_wf.simps(2) split: json.splits)
      (simp add: omap_wf_Cons)
next
  case (2 j key j' v)
  then show ?case
    using json_wf_set [of _ JNull key]
    by (auto simp: index_key_def Let_def simp del: json_wf.simps(2)
        split: json.splits option.splits) (simp add: omap_wf_Cons)
next
  case (3 v j i j')
  then show ?case
    using set_update_subset_insert
    by (fastforce simp: assign_index_def list_all_iff split: json.splits if_splits)
next
  case (5 j key j')
  then show ?case
    by (auto simp: erase_key_def json_wf_erase simp del: json_wf.simps(2) split: json.splits)
next
  case (6 j i j')
  then show ?case
    by (auto simp: erase_index_def list_all_iff split: json.splits if_splits
        dest!: in_set_takeD in_set_dropD)
qed (auto simp: push_back_def json_clear_def move_from_def split: json.splits)

text \<open>Property C9. Every operation that changes a \<open>Json\<close> value (assignment through \<open>operator[]\<close> by key or index,
  implicit creation of a member, \<open>push_back\<close>, both \<open>erase\<close>, \<open>clear\<close>, move), in any sequence,
  keeps all nested objects keyed by strictly increasing keys.\<close>

theorem json_updates_keep_wf:
  assumes "json_update\<^sup>*\<^sup>* j j'" and "json_wf j"
  shows "json_wf j'"
  using assms by (induction rule: rtranclp_induct) (auto intro: json_update_wf)

theorem json_updates_keep_wf_witness:
  "json_wf (JObject [(''a'', JNull), (''b'', JArray [JInt 1])])"
proof -
  have "json_update JNull (JObject [(''b'', JArray [JInt 1])])"
    by (rule json_update.intros(1) [of "JArray [JInt 1]" _ "''b''"]) (simp, code_simp)
  moreover have "json_update (JObject [(''b'', JArray [JInt 1])])
      (JObject [(''a'', JNull), (''b'', JArray [JInt 1])])"
    by (rule json_update.intros(2) [of _ "''a''" _ JNull]) code_simp
  ultimately have "json_update\<^sup>*\<^sup>* JNull (JObject [(''a'', JNull), (''b'', JArray [JInt 1])])"
    by (meson converse_rtranclp_into_rtranclp r_into_rtranclp)
  then show ?thesis
    by (rule json_updates_keep_wf) simp
qed

text \<open>Member access obeys the map laws: after \<open>j[key] = v\<close> on an object or null, every reader
  (\<open>get\<close>, \<open>find\<close>, \<open>has_key\<close>, the const \<open>operator[]\<close>) sees \<open>v\<close> under \<open>key\<close> and the old value
  under every other key; after \<open>erase(key)\<close> the key is gone and the others are kept; and on any
  other type both throw.\<close>

theorem json_member_laws:
  assumes "json_wf j"
  shows "(is_object j \<or> is_null j \<longrightarrow>
      (\<exists>j'. assign_key j key v = Inr j' \<and> at_key j' key = Inr v \<and> has_key j' key \<and>
         (\<forall>k. get_key j' k = (if k = key then Some v else get_key j k) \<and>
              find_key j' k = get_key j' k)))
    \<and> (\<not> is_object j \<and> \<not> is_null j \<longrightarrow> assign_key j key v = Inl Cannot_index)
    \<and> (is_object j \<longrightarrow>
      (\<exists>j'. erase_key j key = Inr j' \<and> at_key j' key = Inl (Key_not_found key) \<and>
         (\<forall>k. get_key j' k = (if k = key then None else get_key j k))))
    \<and> (\<not> is_object j \<longrightarrow> erase_key j key = Inl Not_object)"
  using assms
  by (cases j)
    (auto simp: is_type_defs assign_key_eq at_key_def has_key_def get_key_def find_key_def
      erase_key_def omap_find_set omap_find_erase)

theorem json_member_laws_witness:
  "\<exists>j'. assign_key JNull ''k'' (JBool True) = Inr j' \<and> at_key j' ''k'' = Inr (JBool True)"
  using json_member_laws [of JNull "''k''" "JBool True"] by (auto simp: is_type_defs)

end
