(* ===== verification/Bt_Nodes.thy ===== *)
theory Bt_Nodes
  imports Effects Json_Value Decimal
begin

text \<open>
  Behaviour trees, first part: the data of nodes and trees (\<open>fsm/behavior_tree.h\<close>).

  \<^item> A node is an object behind a \<open>shared_ptr\<close>: its address names it in the store, and \<open>nstate\<close>
    holds the members of \<open>Node\<close> and of its subclasses. What never changes after the tree is built
    (the class, the children, the tree inside a \<open>SubTree\<close>) is the \<open>shape\<close>.
  \<^item> \<open>tree\<close> holds the members of \<open>BtTree\<close>; blackboards have addresses because trees share them.
  \<^item> \<open>env\<close> is what the code cannot determine: the readings of the steady clock, the permutations
    \<open>std::shuffle\<close> draws, the functions behind \<open>SimpleAction\<close> and the conversion of an
    \<open>int64_t\<close> to \<open>double\<close>.
\<close>

section \<open>Values of ports and blackboards\<close>

text \<open>\<open>AnyData\<close>: the type name decides the constructor; the words are the bits of the value.\<close>

datatype any =
    AnyInt i32 | AnyI64 u64 | AnyU64 u64 | AnyU32 u32 | AnyU16 u16 | AnyU8 byte | AnyI16 u16
  | AnyI8 byte | AnyFloat u32 | AnyDouble f64 | AnyBool bool | AnyString string

fun any_int :: "any \<Rightarrow> i32 option" where
  "any_int (AnyInt i) = Some i"
| "any_int _ = None"

fun any_double :: "any \<Rightarrow> f64 option" where
  "any_double (AnyDouble d) = Some d"
| "any_double _ = None"

fun any_string :: "any \<Rightarrow> string option" where
  "any_string (AnyString s) = Some s"
| "any_string _ = None"

type_synonym any_map = "(string, any) omap"

definition any_set :: "string \<Rightarrow> any \<Rightarrow> any_map \<Rightarrow> any_map" where
  "any_set name v m = omap_set name v m"

definition any_get :: "(any \<Rightarrow> 'b option) \<Rightarrow> any_map \<Rightarrow> string \<Rightarrow> 'b option" where
  "any_get as m name = (case omap_find m name of None \<Rightarrow> None | Some v \<Rightarrow> as v)"

definition any_has :: "any_map \<Rightarrow> string \<Rightarrow> bool" where
  "any_has m name \<longleftrightarrow> omap_find m name \<noteq> None"

definition try_str :: "any_map \<Rightarrow> string \<Rightarrow> string option" where
  "try_str m name = (case omap_find m name of Some (AnyString s) \<Rightarrow> Some s | _ \<Rightarrow> None)"

definition any_keys :: "any_map \<Rightarrow> string list" where
  "any_keys m = map fst m"

section \<open>Doubles as milliseconds\<close>

text \<open>The value truncated towards zero; \<open>None\<close> for infinities and NaN.\<close>

definition f64_trunc :: "f64 \<Rightarrow> int option" where
  "f64_trunc d =
     (let e = unat (take_bit 11 (drop_bit 52 d));
          frac = int (unat (take_bit 52 d));
          mant = (if e = 0 then frac else frac + 2 ^ 52);
          ex = max e 1;
          mag = (if ex \<ge> 1075 then mant * 2 ^ (ex - 1075) else mant div 2 ^ (1075 - ex))
      in if e = 2047 then None else Some (if bit d 63 then - mag else mag))"

text \<open>
  The conversions of a \<open>double\<close> to \<open>int\<close> and \<open>uint64_t\<close>. A value that does not fit is undefined
  behaviour; the model takes what x86-64 computes, the smallest \<open>int\<close> and \<open>2^63\<close>.
\<close>

definition f64_to_i32 :: "f64 \<Rightarrow> i32" where
  "f64_to_i32 d =
     (case f64_trunc d of
        Some i \<Rightarrow> if - (2 ^ 31) \<le> i \<and> i < 2 ^ 31 then word_of_int i else 0x80000000
      | None \<Rightarrow> 0x80000000)"

definition f64_to_u64 :: "f64 \<Rightarrow> u64" where
  "f64_to_u64 d =
     (case f64_trunc d of
        Some i \<Rightarrow> if 0 \<le> i \<and> i < 2 ^ 64 then word_of_int i else 0x8000000000000000
      | None \<Rightarrow> 0x8000000000000000)"

text \<open>\<open>d >= 0\<close>: not a NaN, and positive or a zero of either sign.\<close>

definition f64_nonneg :: "f64 \<Rightarrow> bool" where
  "f64_nonneg d \<longleftrightarrow>
     (let mag = take_bit 63 d
      in mag \<le> 0x7FF0000000000000 \<and> (\<not> bit d 63 \<or> mag = 0))"

text \<open>An \<open>int\<close> in arithmetic with a \<open>uint64_t\<close> is sign-extended and taken modulo \<open>2^64\<close>.\<close>

definition widen :: "i32 \<Rightarrow> u64" where
  "widen i = scast i"

section \<open>Nodes\<close>

datatype status = Success | Failure | Running | Idle

fun status_code :: "status \<Rightarrow> nat" where
  "status_code Success = 0"
| "status_code Failure = 1"
| "status_code Running = 2"
| "status_code Idle = 3"

lemma status_code_inj: "status_code a = status_code b \<longleftrightarrow> a = b"
  by (cases a; cases b) simp_all

instantiation status :: linorder
begin

definition less_eq_status :: "status \<Rightarrow> status \<Rightarrow> bool" where
  "less_eq_status a b \<longleftrightarrow> status_code a \<le> status_code b"

definition less_status :: "status \<Rightarrow> status \<Rightarrow> bool" where
  "less_status a b \<longleftrightarrow> status_code a < status_code b"

instance
  by standard (auto simp: less_eq_status_def less_status_def status_code_inj)

end

datatype node_type = Composite | Action | Decorator

fun type_code :: "node_type \<Rightarrow> nat" where
  "type_code Composite = 0"
| "type_code Action = 1"
| "type_code Decorator = 2"

type_synonym addr = nat

text \<open>The class of a node; \<open>SimpleAction\<close> carries the handle of its function.\<close>

datatype 'a kind =
    K_Sequence | K_Selector | K_RandomSelector | K_Fallback
  | K_Delay | K_Timeout | K_Inverter | K_Retry | K_Repeater | K_SubTree | K_EventGuard
  | K_AlwaysSuccess | K_AlwaysFailure | K_Wait | K_WaitForEvent | K_SimpleAction 'a

fun kind_type :: "'a kind \<Rightarrow> node_type" where
  "kind_type K_Sequence = Composite"
| "kind_type K_Selector = Composite"
| "kind_type K_RandomSelector = Composite"
| "kind_type K_Fallback = Composite"
| "kind_type K_Delay = Decorator"
| "kind_type K_Timeout = Decorator"
| "kind_type K_Inverter = Decorator"
| "kind_type K_Retry = Decorator"
| "kind_type K_Repeater = Decorator"
| "kind_type K_SubTree = Decorator"
| "kind_type K_EventGuard = Decorator"
| "kind_type K_AlwaysSuccess = Action"
| "kind_type K_AlwaysFailure = Action"
| "kind_type K_Wait = Action"
| "kind_type K_WaitForEvent = Action"
| "kind_type (K_SimpleAction f) = Action"

text \<open>
  A node's address, class and children; for a \<open>SubTree\<close> with a tree inside, that tree's address
  and root.
\<close>

datatype 'a shape = Node addr "'a kind" "'a shape list" "(addr \<times> 'a shape) option"

fun node_addr :: "'a shape \<Rightarrow> addr" where
  "node_addr (Node a k cs sub) = a"

record nstate =
  n_name :: string
  n_type :: node_type
  n_id :: int
  n_started :: bool
  n_status :: status
  n_data :: any_map
  n_tree :: "addr option"
  n_board :: "addr option"
  n_record :: bool
  current :: nat
  indices :: "nat list"
  start_time :: u64
  delay_start :: i32
  limit_ms :: i32
  timeout :: f64
  limit :: i32
  count :: i32
  event_type :: i32
  immediate :: bool
  interrupt_status :: status
  interrupted :: bool

definition new_node :: "string \<Rightarrow> node_type \<Rightarrow> nstate" where
  "new_node name ty =
     \<lparr>n_name = name, n_type = ty, n_id = 0, n_started = False, n_status = Idle, n_data = [],
      n_tree = None, n_board = None, n_record = False, current = 0, indices = [], start_time = 0,
      delay_start = 0, limit_ms = 0, timeout = 0xBFF0000000000000, limit = 0, count = 0,
      event_type = 0, immediate = False, interrupt_status = Failure, interrupted = False\<rparr>"

section \<open>Trees, events, the store\<close>

record bt_event =
  e_type :: i32
  e_data :: "any option"
  e_time :: u64

datatype log_item =
    Record addr status status | Tick_begin u64 | Tick_end u64 status | Update json

record tree =
  t_name :: string
  t_board :: addr
  t_logger :: bool
  t_ticks :: u64
  t_paused :: bool
  t_events :: "bt_event list"
  t_ids :: int
  t_nodes :: "addr list"

record 'w bt =
  nodes :: "addr \<Rightarrow> nstate"
  trees :: "addr \<Rightarrow> tree"
  boards :: "addr \<Rightarrow> any_map"
  fresh :: addr
  n_reads :: nat
  n_draws :: nat
  bt_log :: "log_item list"
  user :: 'w

datatype bt_error =
    Requires_input string | Missing_root | Node_not_object | No_id_or_name | Unknown_node string
  | No_children | Not_one_child | Tree_not_found string | Bad_json json_error | Action_threw nat
  | Too_deep

type_synonym ('w, 'r) bt_op = "(bt_error, 'w bt, 'r) eff"

record ('a, 'w) env =
  clock :: "nat \<Rightarrow> u64"
  shuffled :: "nat \<Rightarrow> nat list \<Rightarrow> nat list"
  run_action :: "'a \<Rightarrow> ('w, status) bt_op"
  int_to_double :: "u64 \<Rightarrow> f64"

definition node :: "addr \<Rightarrow> ('w, nstate) bt_op" where
  "node a = look (\<lambda>s. nodes s a)"

definition put_node :: "addr \<Rightarrow> (nstate \<Rightarrow> nstate) \<Rightarrow> 'w bt \<Rightarrow> 'w bt" where
  "put_node a f s = s\<lparr>nodes := (nodes s)(a := f (nodes s a))\<rparr>"

definition update_node :: "addr \<Rightarrow> (nstate \<Rightarrow> nstate) \<Rightarrow> ('w, unit) bt_op" where
  "update_node a f = change (put_node a f)"

definition put_tree :: "addr \<Rightarrow> (tree \<Rightarrow> tree) \<Rightarrow> 'w bt \<Rightarrow> 'w bt" where
  "put_tree t f s = s\<lparr>trees := (trees s)(t := f (trees s t))\<rparr>"

definition update_tree :: "addr \<Rightarrow> (tree \<Rightarrow> tree) \<Rightarrow> ('w, unit) bt_op" where
  "update_tree t f = change (put_tree t f)"

text \<open>\<open>steady::GetCurrentMs()\<close>: the next reading.\<close>

definition read_ms :: "('a, 'w) env \<Rightarrow> ('w, u64) bt_op" where
  "read_ms env = (\<lambda>s. (Inr (clock env (n_reads s)), s\<lparr>n_reads := Suc (n_reads s)\<rparr>))"

section \<open>Ports\<close>

text \<open>
  \<open>getInput<T>\<close>: \<open>as\<close> reads a stored value as a \<open>T\<close>, and \<open>text\<close> what a literal string is as a
  \<open>T\<close> (itself for strings). A text \<open>&name\<close> refers to the blackboard if it has \<open>name\<close>.
\<close>

definition get_input ::
    "(any \<Rightarrow> 'b option) \<Rightarrow> (string \<Rightarrow> 'b option) \<Rightarrow> nstate \<Rightarrow> (addr \<Rightarrow> any_map) \<Rightarrow> string \<Rightarrow> 'b option"
where
  "get_input as text n bs name =
     (let stored = any_get as (n_data n) name in
      case try_str (n_data n) name of
        None \<Rightarrow> stored
      | Some str \<Rightarrow>
          (case (str, n_board n) of
             (c # key, Some b) \<Rightarrow>
               if c = CHR 0x26 \<and> any_has (bs b) key then any_get as (bs b) key
               else (case text str of Some v \<Rightarrow> Some v | None \<Rightarrow> stored)
           | _ \<Rightarrow> (case text str of Some v \<Rightarrow> Some v | None \<Rightarrow> stored)))"

definition input_double :: "addr \<Rightarrow> string \<Rightarrow> ('w, f64 option) bt_op" where
  "input_double a name = look (\<lambda>s. get_input any_double (\<lambda>_. None) (nodes s a) (boards s) name)"

definition input_int :: "addr \<Rightarrow> string \<Rightarrow> ('w, i32 option) bt_op" where
  "input_int a name = look (\<lambda>s. get_input any_int (\<lambda>_. None) (nodes s a) (boards s) name)"

definition input_string :: "addr \<Rightarrow> string \<Rightarrow> ('w, string option) bt_op" where
  "input_string a name = look (\<lambda>s. get_input any_string Some (nodes s a) (boards s) name)"

definition set_output :: "addr \<Rightarrow> string \<Rightarrow> any \<Rightarrow> ('w, unit) bt_op" where
  "set_output a name v = change (\<lambda>s.
     case (try_str (n_data (nodes s a)) name, n_board (nodes s a)) of
       (Some (c # key), Some b) \<Rightarrow>
         if c = CHR 0x26 then s\<lparr>boards := (boards s)(b := any_set key v (boards s b))\<rparr>
         else put_node a (\<lambda>n. n\<lparr>n_data := any_set name v (n_data n)\<rparr>) s
     | _ \<Rightarrow> put_node a (\<lambda>n. n\<lparr>n_data := any_set name v (n_data n)\<rparr>) s)"

section \<open>The event queue\<close>

definition send_event :: "('a, 'w) env \<Rightarrow> addr \<Rightarrow> i32 \<Rightarrow> any option \<Rightarrow> ('w, unit) bt_op" where
  "send_event env t ty data =
     then_with (read_ms env) (\<lambda>now.
       update_tree t (\<lambda>tr. tr\<lparr>t_events := t_events tr @ [\<lparr>e_type = ty, e_data = data, e_time = now\<rparr>]\<rparr>))"

definition peek_event :: "tree \<Rightarrow> i32 \<Rightarrow> bt_event option" where
  "peek_event tr ty = List.find (\<lambda>e. e_type e = ty) (t_events tr)"

fun take_event :: "i32 \<Rightarrow> bt_event list \<Rightarrow> bt_event option \<times> bt_event list" where
  "take_event ty [] = (None, [])"
| "take_event ty (e # es) =
     (if e_type e = ty then (Some e, es)
      else (let (r, es') = take_event ty es in (r, e # es')))"

definition consume_event :: "addr \<Rightarrow> i32 \<Rightarrow> ('w, bt_event option) bt_op" where
  "consume_event t ty = (\<lambda>s.
     let (r, es) = take_event ty (t_events (trees s t))
     in (Inr r, put_tree t (\<lambda>tr. tr\<lparr>t_events := es\<rparr>) s))"

definition has_event :: "tree \<Rightarrow> i32 \<Rightarrow> bool" where
  "has_event tr ty \<longleftrightarrow> list_ex (\<lambda>e. e_type e = ty) (t_events tr)"

definition clear_events :: "addr \<Rightarrow> ('w, unit) bt_op" where
  "clear_events t = update_tree t (\<lambda>tr. tr\<lparr>t_events := []\<rparr>)"

text \<open>Events are queued in order: \<open>consumeEvent\<close> returns the oldest event of its type, the one
  \<open>peekEvent\<close> shows, removes just that one and keeps the order of the rest; there is one if and
  only if \<open>hasEvent\<close> says so.\<close>

theorem consume_event_is_fifo:
  "\<exists>r s'. consume_event t ty s = (Inr r, s') \<and> r = peek_event (trees s t) ty \<and>
     (r \<noteq> None \<longleftrightarrow> has_event (trees s t) ty) \<and>
     t_events (trees s' t) =
       takeWhile (\<lambda>e. e_type e \<noteq> ty) (t_events (trees s t)) @
       tl (dropWhile (\<lambda>e. e_type e \<noteq> ty) (t_events (trees s t)))"
proof -
  have "take_event ty es = (List.find (\<lambda>e. e_type e = ty) es,
      takeWhile (\<lambda>e. e_type e \<noteq> ty) es @ tl (dropWhile (\<lambda>e. e_type e \<noteq> ty) es))" for es
    by (induction es) (simp_all add: Let_def)
  moreover have "List.find (\<lambda>e. e_type e = ty) es \<noteq> None \<longleftrightarrow> list_ex (\<lambda>e. e_type e = ty) es"
    for es :: "bt_event list"
    by (auto simp: find_None_iff list_ex_iff)
  ultimately show ?thesis
    by (simp add: consume_event_def peek_event_def has_event_def put_tree_def)
qed

end
