(* ===== verification/Bt_Tree.thy ===== *)
theory Bt_Tree
  imports Bt_Nodes
begin

text \<open>
  Behaviour trees, second part: ticking and resetting nodes (\<open>fsm/behavior_tree.cc\<close>,
  \<open>fsm/nodes.h\<close>), and \<open>BtTree\<close>.

  \<open>on_start\<close>, \<open>on_tick\<close> and \<open>on_stop\<close> are the virtual methods, by class. A parent does not see its
  children's state: it gets their \<open>tick\<close> and \<open>reset\<close> as operations, so \<open>tick\<close> is a structural
  recursion over the shape although \<open>Retry\<close> and \<open>Repeater\<close> tick the same child many times. A
  parent's position among its children is private to it, so the loops carry it along.
\<close>

section \<open>Starting and stopping\<close>

definition required :: "string \<Rightarrow> ('w, 'b option) bt_op \<Rightarrow> ('b \<Rightarrow> ('w, 'c) bt_op) \<Rightarrow> ('w, 'c) bt_op" where
  "required name input f =
     then_with input (\<lambda>v. case v of None \<Rightarrow> throw (Requires_input name) | Some x \<Rightarrow> f x)"

definition shuffle_children :: "('a, 'w) env \<Rightarrow> addr \<Rightarrow> nat \<Rightarrow> ('w, unit) bt_op" where
  "shuffle_children env a n = change (\<lambda>s.
     put_node a (\<lambda>nd. nd\<lparr>indices := shuffled env (n_draws s) [0..<n], current := 0\<rparr>)
       (s\<lparr>n_draws := Suc (n_draws s)\<rparr>))"

definition random_start :: "('a, 'w) env \<Rightarrow> addr \<Rightarrow> nat \<Rightarrow> ('w, status) bt_op" where
  "random_start env a n =
     (if n = 0 then give Failure else then_do (shuffle_children env a n) (give Running))"

definition fallback_start :: "addr \<Rightarrow> ('w, status) bt_op" where
  "fallback_start a =
     then_do (update_node a (\<lambda>nd. nd\<lparr>current := 0\<rparr>)) (give Running)"

definition delay_on_start :: "('a, 'w) env \<Rightarrow> addr \<Rightarrow> ('w, status) bt_op" where
  "delay_on_start env a =
     required ''delay_ms'' (input_double a ''delay_ms'') (\<lambda>d.
       then_do (update_node a (\<lambda>nd. nd\<lparr>limit_ms := f64_to_i32 d\<rparr>))
         (then_with (read_ms env) (\<lambda>now.
           then_do (update_node a (\<lambda>nd. nd\<lparr>delay_start := ucast now\<rparr>)) (give Running))))"

definition timeout_start :: "('a, 'w) env \<Rightarrow> addr \<Rightarrow> ('w, status) bt_op" where
  "timeout_start env a =
     then_with (read_ms env) (\<lambda>now.
       then_do (update_node a (\<lambda>nd. nd\<lparr>start_time := now\<rparr>))
         (required ''timeout_ms'' (input_double a ''timeout_ms'') (\<lambda>d.
           then_do (update_node a (\<lambda>nd. nd\<lparr>limit_ms := f64_to_i32 d\<rparr>)) (give Running))))"

definition retry_start :: "addr \<Rightarrow> ('w, status) bt_op" where
  "retry_start a =
     then_do (update_node a (\<lambda>nd. nd\<lparr>count := 0\<rparr>))
       (required ''max_retries'' (input_int a ''max_retries'') (\<lambda>k.
         then_do (update_node a (\<lambda>nd. nd\<lparr>limit := k\<rparr>)) (give Running)))"

definition repeat_start :: "addr \<Rightarrow> ('w, status) bt_op" where
  "repeat_start a =
     then_do (update_node a (\<lambda>nd. nd\<lparr>count := 0\<rparr>))
       (required ''repeat_count'' (input_int a ''repeat_count'') (\<lambda>k.
         then_do (update_node a (\<lambda>nd. nd\<lparr>limit := k\<rparr>)) (give Running)))"

definition subtree_start :: "bool \<Rightarrow> ('w, status) bt_op" where
  "subtree_start has_sub =
     give (if has_sub then Running else Failure)"

definition wait_start :: "('a, 'w) env \<Rightarrow> addr \<Rightarrow> ('w, status) bt_op" where
  "wait_start env a =
     required ''wait_ms'' (input_double a ''wait_ms'') (\<lambda>d.
       then_do (update_node a (\<lambda>nd. nd\<lparr>limit_ms := f64_to_i32 d\<rparr>))
         (then_with (read_ms env) (\<lambda>now.
           then_do (update_node a (\<lambda>nd. nd\<lparr>start_time := now\<rparr>)) (give Running))))"

definition wait_event_start :: "('a, 'w) env \<Rightarrow> addr \<Rightarrow> ('w, status) bt_op" where
  "wait_event_start env a =
     required ''event_type'' (input_int a ''event_type'') (\<lambda>ty.
       then_do (update_node a (\<lambda>nd. nd\<lparr>event_type := ty\<rparr>))
         (then_with (input_double a ''timeout_ms'') (\<lambda>d.
           then_do (update_node a (\<lambda>nd. nd\<lparr>timeout := (case d of None \<Rightarrow> 0xBFF0000000000000 | Some x \<Rightarrow> x)\<rparr>))
             (then_with (read_ms env) (\<lambda>now.
               then_do (update_node a (\<lambda>nd. nd\<lparr>start_time := now\<rparr>)) (give Running))))))"

definition guard_start :: "addr \<Rightarrow> ('w, status) bt_op" where
  "guard_start a =
     required ''event_type'' (input_int a ''event_type'') (\<lambda>ty.
       then_do (update_node a (\<lambda>nd. nd\<lparr>event_type := ty\<rparr>))
         (then_with (input_int a ''interrupt_mode'') (\<lambda>mode.
           then_do (update_node a (\<lambda>nd. nd\<lparr>immediate := (mode = Some 1)\<rparr>))
             (then_with (input_int a ''return_status'') (\<lambda>st.
               then_do (update_node a (\<lambda>nd. nd\<lparr>
                   interrupt_status := (if st = Some 0 then Success else Failure), interrupted := False\<rparr>))
                 (give Running))))))"

text \<open>\<open>OnStart\<close>, by class.\<close>

fun on_start :: "('a, 'w) env \<Rightarrow> addr \<Rightarrow> 'a kind \<Rightarrow> nat \<Rightarrow> bool \<Rightarrow> ('w, status) bt_op" where
  "on_start env a K_RandomSelector n has_sub = random_start env a n"
| "on_start env a K_Fallback n has_sub = fallback_start a"
| "on_start env a K_Delay n has_sub = delay_on_start env a"
| "on_start env a K_Timeout n has_sub = timeout_start env a"
| "on_start env a K_Retry n has_sub = retry_start a"
| "on_start env a K_Repeater n has_sub = repeat_start a"
| "on_start env a K_SubTree n has_sub = subtree_start has_sub"
| "on_start env a K_Wait n has_sub = wait_start env a"
| "on_start env a K_WaitForEvent n has_sub = wait_event_start env a"
| "on_start env a K_EventGuard n has_sub = guard_start a"
| "on_start env a k n has_sub = give Running"

lemmas start_defs = random_start_def fallback_start_def delay_on_start_def timeout_start_def retry_start_def
  repeat_start_def subtree_start_def wait_start_def wait_event_start_def guard_start_def

text \<open>\<open>OnStop\<close>; \<open>reset_sub\<close> resets the root inside a \<open>SubTree\<close>.\<close>

fun on_stop :: "addr \<Rightarrow> 'a kind \<Rightarrow> ('w, unit) bt_op option \<Rightarrow> ('w, unit) bt_op" where
  "on_stop a K_SubTree reset_sub = (case reset_sub of None \<Rightarrow> give () | Some r \<Rightarrow> r)"
| "on_stop a K_EventGuard reset_sub = update_node a (\<lambda>nd. nd\<lparr>interrupted := False\<rparr>)"
| "on_stop a k reset_sub = give ()"

section \<open>The loops of the composites\<close>

definition set_current :: "addr \<Rightarrow> nat \<Rightarrow> ('w, unit) bt_op" where
  "set_current a i = update_node a (\<lambda>nd. nd\<lparr>current := i\<rparr>)"

fun sequence_loop :: "addr \<Rightarrow> ('w, status) bt_op list \<Rightarrow> nat \<Rightarrow> ('w, status) bt_op" where
  "sequence_loop a [] i = then_do (set_current a 0) (give Success)"
| "sequence_loop a (t # ts) i =
     then_with t (\<lambda>s.
       if s = Running then give Running
       else if s = Failure then then_do (set_current a 0) (give Failure)
       else then_do (set_current a (Suc i)) (sequence_loop a ts (Suc i)))"

fun selector_loop :: "addr \<Rightarrow> ('w, status) bt_op list \<Rightarrow> nat \<Rightarrow> ('w, status) bt_op" where
  "selector_loop a [] i = then_do (set_current a 0) (give Failure)"
| "selector_loop a (t # ts) i =
     then_with t (\<lambda>s.
       if s = Running then give Running
       else if s = Success then then_do (set_current a 0) (give Success)
       else then_do (set_current a (Suc i)) (selector_loop a ts (Suc i)))"

fun random_loop :: "addr \<Rightarrow> ('w, status) bt_op list \<Rightarrow> nat list \<Rightarrow> nat \<Rightarrow> ('w, status) bt_op" where
  "random_loop a ticks [] i = then_do (set_current a 0) (give Failure)"
| "random_loop a ticks (idx # idxs) i =
     then_with (ticks ! idx) (\<lambda>s.
       if s = Running then give Running
       else if s = Success then then_do (set_current a 0) (give Success)
       else then_do (set_current a (Suc i)) (random_loop a ticks idxs (Suc i)))"

fun fallback_loop :: "addr \<Rightarrow> ('w, status) bt_op list \<Rightarrow> nat \<Rightarrow> ('w, status) bt_op" where
  "fallback_loop a [] i = then_do (set_current a 0) (give Failure)"
| "fallback_loop a (t # ts) i =
     then_with t (\<lambda>s.
       if s = Running then give Running
       else if s = Failure then then_do (set_current a (Suc i)) (fallback_loop a ts (Suc i))
       else then_do (set_current a 0) (give Success))"

text \<open>
  The loops of \<open>Retry\<close> and \<open>Repeater\<close>; \<open>n\<close> is how often the loop test can still hold, from the
  limit and the count the node has on entry.
\<close>

definition increment :: "addr \<Rightarrow> ('w, unit) bt_op" where
  "increment a = update_node a (\<lambda>nd. nd\<lparr>count := count nd + 1\<rparr>)"

fun retry_loop :: "addr \<Rightarrow> ('w, status) bt_op \<Rightarrow> ('w, unit) bt_op \<Rightarrow> nat \<Rightarrow> ('w, status) bt_op" where
  "retry_loop a t r 0 = give Failure"
| "retry_loop a t r (Suc n) =
     then_with t (\<lambda>s.
       if s = Success then give Success
       else if s = Running then give Running
       else then_do (increment a) (then_do r (retry_loop a t r n)))"

fun repeat_loop :: "addr \<Rightarrow> ('w, status) bt_op \<Rightarrow> ('w, unit) bt_op \<Rightarrow> nat \<Rightarrow> ('w, status) bt_op" where
  "repeat_loop a t r 0 = give Success"
| "repeat_loop a t r (Suc n) =
     then_with t (\<lambda>s.
       if s = Running then give Running
       else if s = Failure then give Failure
       else then_do (increment a) (then_do r (repeat_loop a t r n)))"

definition rounds_left :: "nstate \<Rightarrow> nat" where
  "rounds_left nd = nat (sint (limit nd) - sint (count nd))"

section \<open>One tick of a node, by class\<close>

text \<open>\<open>ticks\<close> and \<open>resets\<close> are the children's operations, \<open>sub_tick\<close> ticks the tree in a \<open>SubTree\<close>.\<close>

definition delay_tick :: "('a, 'w) env \<Rightarrow> addr \<Rightarrow> ('w, status) bt_op \<Rightarrow> ('w, status) bt_op" where
  "delay_tick env a t =
     then_with (read_ms env) (\<lambda>now.
       then_with (node a) (\<lambda>nd.
         if now - widen (delay_start nd) < widen (limit_ms nd) then give Running else t))"

definition timeout_tick :: "('a, 'w) env \<Rightarrow> addr \<Rightarrow> ('w, status) bt_op \<Rightarrow> ('w, status) bt_op" where
  "timeout_tick env a t =
     then_with (read_ms env) (\<lambda>now.
       then_with (node a) (\<lambda>nd.
         if now - start_time nd \<ge> widen (limit_ms nd)
         then then_do (update_node a (\<lambda>nd. nd\<lparr>start_time := 0\<rparr>)) (give Failure)
         else then_with t (\<lambda>s.
           then_do (only_if (s \<noteq> Running) (update_node a (\<lambda>nd. nd\<lparr>start_time := 0\<rparr>))) (give s))))"

definition wait_tick :: "('a, 'w) env \<Rightarrow> addr \<Rightarrow> ('w, status) bt_op" where
  "wait_tick env a =
     then_with (read_ms env) (\<lambda>now.
       then_with (node a) (\<lambda>nd.
         give (if now - start_time nd \<ge> widen (limit_ms nd) then Success else Running)))"

definition wait_event_tick :: "('a, 'w) env \<Rightarrow> addr \<Rightarrow> ('w, status) bt_op" where
  "wait_event_tick env a =
     then_with (node a) (\<lambda>nd.
       case n_tree nd of
         None \<Rightarrow> give Failure
       | Some t \<Rightarrow>
           then_with (consume_event t (event_type nd)) (\<lambda>e.
             if e \<noteq> None then give Success
             else if f64_nonneg (timeout nd) then
               then_with (read_ms env) (\<lambda>now.
                 give (if now - start_time nd \<ge> f64_to_u64 (timeout nd) then Failure else Running))
             else give Running))"

definition guard_tick :: "addr \<Rightarrow> ('w, status) bt_op \<Rightarrow> ('w, unit) bt_op \<Rightarrow> ('w, status) bt_op" where
  "guard_tick a t r =
     then_with (node a) (\<lambda>nd.
       case n_tree nd of
         None \<Rightarrow> give Failure
       | Some tr \<Rightarrow>
           then_with (look (\<lambda>s. has_event (trees s tr) (event_type nd))) (\<lambda>seen.
             then_do
               (only_if seen
                 (then_with (consume_event tr (event_type nd)) (\<lambda>_.
                    update_node a (\<lambda>nd. nd\<lparr>interrupted := True\<rparr>))))
               (if seen \<and> immediate nd
                then then_do r (give (interrupt_status nd))
                else then_with (node a) (\<lambda>nd.
                  if interrupted nd \<and> \<not> immediate nd
                  then then_do r (give (interrupt_status nd))
                  else t))))"

definition inverter_tick :: "('w, status) bt_op \<Rightarrow> ('w, status) bt_op" where
  "inverter_tick t =
     then_with t (\<lambda>s. give (if s = Running then Running else if s = Success then Failure else Success))"

definition subtree_tick :: "('w, status) bt_op option \<Rightarrow> ('w, status) bt_op" where
  "subtree_tick sub = (case sub of None \<Rightarrow> give Failure | Some t \<Rightarrow> t)"

definition sequence_tick :: "addr \<Rightarrow> ('w, status) bt_op list \<Rightarrow> ('w, status) bt_op" where
  "sequence_tick a ts =
     then_with (node a) (\<lambda>nd. sequence_loop a (drop (current nd) ts) (current nd))"

definition selector_tick :: "addr \<Rightarrow> ('w, status) bt_op list \<Rightarrow> ('w, status) bt_op" where
  "selector_tick a ts =
     then_with (node a) (\<lambda>nd. selector_loop a (drop (current nd) ts) (current nd))"

definition random_tick :: "addr \<Rightarrow> ('w, status) bt_op list \<Rightarrow> ('w, status) bt_op" where
  "random_tick a ts =
     then_with (node a) (\<lambda>nd. random_loop a ts (drop (current nd) (indices nd)) (current nd))"

definition fallback_tick :: "addr \<Rightarrow> ('w, status) bt_op list \<Rightarrow> ('w, status) bt_op" where
  "fallback_tick a ts =
     then_with (node a) (\<lambda>nd. fallback_loop a (drop (current nd) ts) (current nd))"

definition retry_tick :: "addr \<Rightarrow> ('w, status) bt_op \<Rightarrow> ('w, unit) bt_op \<Rightarrow> ('w, status) bt_op" where
  "retry_tick a t r = then_with (node a) (\<lambda>nd. retry_loop a t r (rounds_left nd))"

definition repeat_tick :: "addr \<Rightarrow> ('w, status) bt_op \<Rightarrow> ('w, unit) bt_op \<Rightarrow> ('w, status) bt_op" where
  "repeat_tick a t r = then_with (node a) (\<lambda>nd. repeat_loop a t r (rounds_left nd))"

text \<open>A decorator without a child fails.\<close>

definition with_child :: "'b list \<Rightarrow> ('b \<Rightarrow> ('w, status) bt_op) \<Rightarrow> ('w, status) bt_op" where
  "with_child cs f = (case cs of [] \<Rightarrow> give Failure | c # _ \<Rightarrow> f c)"

fun on_tick ::
    "('a, 'w) env \<Rightarrow> addr \<Rightarrow> 'a kind \<Rightarrow> (('w, status) bt_op \<times> ('w, unit) bt_op) list \<Rightarrow>
     ('w, status) bt_op option \<Rightarrow> ('w, status) bt_op"
where
  "on_tick env a K_Sequence cs sub = sequence_tick a (map fst cs)"
| "on_tick env a K_Selector cs sub = selector_tick a (map fst cs)"
| "on_tick env a K_RandomSelector cs sub = random_tick a (map fst cs)"
| "on_tick env a K_Fallback cs sub = fallback_tick a (map fst cs)"
| "on_tick env a K_Delay cs sub = with_child cs (\<lambda>(t, r). delay_tick env a t)"
| "on_tick env a K_Timeout cs sub = with_child cs (\<lambda>(t, r). timeout_tick env a t)"
| "on_tick env a K_Inverter cs sub = with_child cs (\<lambda>(t, r). inverter_tick t)"
| "on_tick env a K_Retry cs sub = with_child cs (\<lambda>(t, r). retry_tick a t r)"
| "on_tick env a K_Repeater cs sub = with_child cs (\<lambda>(t, r). repeat_tick a t r)"
| "on_tick env a K_SubTree cs sub = subtree_tick sub"
| "on_tick env a K_EventGuard cs sub = with_child cs (\<lambda>(t, r). guard_tick a t r)"
| "on_tick env a K_AlwaysSuccess cs sub = give Success"
| "on_tick env a K_AlwaysFailure cs sub = give Failure"
| "on_tick env a K_Wait cs sub = wait_tick env a"
| "on_tick env a K_WaitForEvent cs sub = wait_event_tick env a"
| "on_tick env a (K_SimpleAction f) cs sub = run_action env f"

section \<open>Node::tick and reset\<close>

definition set_status :: "addr \<Rightarrow> status \<Rightarrow> ('w, unit) bt_op" where
  "set_status a st = update_node a (\<lambda>nd. nd\<lparr>n_status := st\<rparr>)"

definition log_change :: "addr \<Rightarrow> status \<Rightarrow> ('w, unit) bt_op" where
  "log_change a pre = change (\<lambda>s.
     if n_record (nodes s a) then s\<lparr>bt_log := bt_log s @ [Record a pre (n_status (nodes s a))]\<rparr> else s)"

definition node_tick ::
    "addr \<Rightarrow> ('w, status) bt_op \<Rightarrow> ('w, status) bt_op \<Rightarrow> ('w, unit) bt_op \<Rightarrow> ('w, status) bt_op"
where
  "node_tick a start run stop =
     then_with (node a) (\<lambda>before.
       then_do
         (only_if (\<not> n_started before)
           (then_do (update_node a (\<lambda>nd. nd\<lparr>n_started := True\<rparr>)) (then_with start (set_status a))))
         (then_with (node a) (\<lambda>nd.
           then_do (only_if (n_status nd = Running) (then_with run (set_status a)))
             (then_with (node a) (\<lambda>nd.
               then_do
                 (only_if (n_status nd = Success \<or> n_status nd = Failure)
                   (then_do (update_node a (\<lambda>nd. nd\<lparr>n_started := False\<rparr>)) stop))
                 (then_do (log_change a (n_status before))
                   (then_with (node a) (\<lambda>nd. give (n_status nd)))))))))"

text \<open>\<open>Node::reset\<close> resets the children, and \<open>Composite::reset\<close> does so twice.\<close>

definition base_reset :: "addr \<Rightarrow> ('w, unit) bt_op list \<Rightarrow> ('w, unit) bt_op" where
  "base_reset a resets =
     then_do (update_node a (\<lambda>nd. nd\<lparr>n_started := False, n_status := Idle\<rparr>)) (in_order resets)"

definition node_reset :: "addr \<Rightarrow> node_type \<Rightarrow> ('w, unit) bt_op list \<Rightarrow> ('w, unit) bt_op" where
  "node_reset a ty resets =
     (if ty = Composite
      then then_do (in_order resets) (then_do (base_reset a resets) (set_current a 0))
      else base_reset a resets)"

fun reset :: "'a shape \<Rightarrow> ('w, unit) bt_op" where
  "reset (Node a k cs sub) = node_reset a (kind_type k) (map reset cs)"

section \<open>BtTree\<close>

definition tree_tick :: "addr \<Rightarrow> ('w, status) bt_op \<Rightarrow> ('w, status) bt_op" where
  "tree_tick t root =
     then_with (look (\<lambda>s. trees s t)) (\<lambda>tr.
       if t_paused tr then give Running
       else
         then_do (update_tree t (\<lambda>tr. tr\<lparr>t_ticks := t_ticks tr + 1\<rparr>))
           (then_do (only_if (t_logger tr)
               (change (\<lambda>s. s\<lparr>bt_log := bt_log s @ [Tick_begin (t_ticks (trees s t))]\<rparr>)))
             (then_with root (\<lambda>result.
               then_do (only_if (t_logger tr)
                   (change (\<lambda>s. s\<lparr>bt_log := bt_log s @ [Tick_end (t_ticks (trees s t)) result]\<rparr>)))
                 (give result)))))"

fun tick :: "('a, 'w) env \<Rightarrow> 'a shape \<Rightarrow> ('w, status) bt_op" where
  "tick env (Node a k cs sub) =
     node_tick a
       (on_start env a k (length cs) (sub \<noteq> None))
       (on_tick env a k (map (\<lambda>c. (tick env c, reset c)) cs)
         (case sub of None \<Rightarrow> None | Some tr \<Rightarrow> Some (tree_tick (fst tr) (tick env (snd tr)))))
       (on_stop a k (case sub of None \<Rightarrow> None | Some tr \<Rightarrow> Some (reset (snd tr))))"

definition bt_tick :: "('a, 'w) env \<Rightarrow> addr \<Rightarrow> 'a shape \<Rightarrow> ('w, status) bt_op" where
  "bt_tick env t root = tree_tick t (tick env root)"

definition bt_reset :: "'a shape \<Rightarrow> ('w, unit) bt_op" where
  "bt_reset root = reset root"

definition pause :: "addr \<Rightarrow> ('w, unit) bt_op" where
  "pause t = update_tree t (\<lambda>tr. tr\<lparr>t_paused := True\<rparr>)"

definition resume :: "addr \<Rightarrow> ('w, unit) bt_op" where
  "resume t = update_tree t (\<lambda>tr. tr\<lparr>t_paused := False\<rparr>)"

definition is_paused :: "tree \<Rightarrow> bool" where
  "is_paused tr = t_paused tr"

end
