(* ===== verification/Json_Text.thy ===== *)
theory Json_Text
  imports Json_Value Decimal
begin

text \<open>
  JSON text: \<open>dump\<close> and \<open>parse\<close> of \<open>src/utils/json.cc\<close>.

  The input stream is its unread characters. \<open>good()\<close> is false only after a \<open>peek\<close> or \<open>get\<close>
  has met the end, so "not good or \<open>peek\<close> is not \<open>c\<close>" is "the input does not start with \<open>c\<close>";
  where the two differ at the end of the input the model has the error the code throws. Every
  \<open>throw\<close> is a constructor of \<open>parse_error\<close>. The loops over elements and members carry fuel,
  which the length of the input always covers (\<open>parse_never_out_of_fuel\<close>).

  \<open>std::stod\<close> and \<open>snprintf\<close> with \<open>%.17g\<close> are the parameters \<open>stod\<close> and \<open>fmt\<close>: text to
  \<open>double\<close> (\<open>None\<close> where it throws \<open>out_of_range\<close>) and back.
\<close>

section \<open>Serialisation\<close>

fun join_with :: "'a list \<Rightarrow> 'a list list \<Rightarrow> 'a list" where
  "join_with sep [] = []"
| "join_with sep [x] = x"
| "join_with sep (x # y # xs) = x @ sep @ join_with sep (y # xs)"

definition hex4 :: "nat \<Rightarrow> string" where
  "hex4 n = [xdigit_char (n div 4096 mod 16), xdigit_char (n div 256 mod 16),
             xdigit_char (n div 16 mod 16), xdigit_char (n mod 16)]"

definition dump_char :: "char \<Rightarrow> string" where
  "dump_char c =
     (if c = CHR 0x22 then [CHR 0x5C, CHR 0x22]
      else if c = CHR 0x5C then [CHR 0x5C, CHR 0x5C]
      else if c = CHR 0x0A then [CHR 0x5C, CHR ''n'']
      else if c = CHR 0x0D then [CHR 0x5C, CHR ''r'']
      else if c = CHR 0x09 then [CHR 0x5C, CHR ''t'']
      else if c = CHR 0x08 then [CHR 0x5C, CHR ''b'']
      else if c = CHR 0x0C then [CHR 0x5C, CHR ''f'']
      else if (of_char c :: nat) < 0x20 then CHR 0x5C # CHR ''u'' # hex4 (of_char c)
      else [c])"

definition dump_string :: "string \<Rightarrow> string" where
  "dump_string s = [CHR 0x22] @ concat (map dump_char s) @ [CHR 0x22]"

definition spaces :: "nat \<Rightarrow> string" where
  "spaces n = replicate n CHR '' ''"

text \<open>The layout shared by the array and the object branch of \<open>dump_value\<close>.\<close>

definition dump_items :: "char \<Rightarrow> char \<Rightarrow> nat \<Rightarrow> nat \<Rightarrow> string list \<Rightarrow> string" where
  "dump_items open_c close_c depth indent items =
     [open_c] @
     (if items \<noteq> [] \<and> indent > 0
      then [CHR 0x0A] @ join_with (CHR '','' # [CHR 0x0A])
             (map (\<lambda>x. spaces (indent * (depth + 1)) @ x) items) @
           [CHR 0x0A] @ spaces (indent * depth)
      else if items \<noteq> [] then join_with [CHR '',''] items
      else []) @ [close_c]"

fun dump_value :: "(f64 \<Rightarrow> string) \<Rightarrow> nat \<Rightarrow> nat \<Rightarrow> json \<Rightarrow> string" where
  "dump_value fmt depth indent JNull = ''null''"
| "dump_value fmt depth indent (JBool b) = (if b then ''true'' else ''false'')"
| "dump_value fmt depth indent (JInt i) = show_int (sint i)"
| "dump_value fmt depth indent (JFloat f) = fmt f"
| "dump_value fmt depth indent (JString s) = dump_string s"
| "dump_value fmt depth indent (JArray arr) =
     dump_items CHR ''['' CHR '']'' depth indent
       (map (\<lambda>v. dump_value fmt (Suc depth) indent v) arr)"
| "dump_value fmt depth indent (JObject obj) =
     dump_items CHR ''{'' CHR ''}'' depth indent
       (map (\<lambda>(k, v). dump_string k @ (if indent > 0 then '': '' else '':'') @
                       dump_value fmt (Suc depth) indent v) obj)"

text \<open>A negative \<open>indent\<close> is treated as zero, as the tests \<open>indent > 0\<close> do.\<close>

definition json_dump :: "(f64 \<Rightarrow> string) \<Rightarrow> json \<Rightarrow> int \<Rightarrow> string" where
  "json_dump fmt j indent = dump_value fmt 0 (nat indent) j"

section \<open>Parsing: strings\<close>

datatype parse_error =
    Max_depth | Expected_quote | Invalid_control | Invalid_unicode
  | Expected_low_surrogate | Expected_u_after_high | Invalid_low_hex | Invalid_low_surrogate
  | Unexpected_low_surrogate | Invalid_escape char | Unterminated_string
  | Expected_bracket | Eof_in_array | Trailing_comma_array | Expected_comma_array | Unterminated_array
  | Expected_brace | Expected_key | Expected_colon | Duplicate_key string
  | Eof_in_object | Trailing_comma_object | Expected_comma_object | Unterminated_object
  | Leading_zero | Missing_int_part | Expected_digit | Missing_frac_digits | Missing_exp_digits
  | Number_out_of_range | Invalid_literal string | Eof_in_value | Invalid_value char
  | Out_of_fuel

definition max_parse_depth :: nat where
  "max_parse_depth = 100"

fun skip_ws :: "string \<Rightarrow> string" where
  "skip_ws [] = []"
| "skip_ws (c # s) = (if is_space c then skip_ws s else c # s)"

text \<open>The four hexadecimal digits after \<open>\u\<close>, and their value.\<close>

fun take_hex4 :: "parse_error \<Rightarrow> string \<Rightarrow> parse_error + (nat \<times> string)" where
  "take_hex4 e (a # b # c # d # s) =
     (if is_xdigit a \<and> is_xdigit b \<and> is_xdigit c \<and> is_xdigit d
      then Inr (hex_value [a, b, c, d], s) else Inl e)"
| "take_hex4 e _ = Inl e"

definition utf8_encode :: "nat \<Rightarrow> string" where
  "utf8_encode code =
     (if code \<le> 0x7F then [char_of code]
      else if code \<le> 0x7FF then
        [char_of (0xC0 OR (drop_bit 6 code AND 0x1F)), char_of (0x80 OR (code AND 0x3F))]
      else if code \<le> 0xFFFF then
        [char_of (0xE0 OR (drop_bit 12 code AND 0x0F)),
         char_of (0x80 OR (drop_bit 6 code AND 0x3F)), char_of (0x80 OR (code AND 0x3F))]
      else if code \<le> 0x10FFFF then
        [char_of (0xF0 OR (drop_bit 18 code AND 0x07)),
         char_of (0x80 OR (drop_bit 12 code AND 0x3F)),
         char_of (0x80 OR (drop_bit 6 code AND 0x3F)), char_of (0x80 OR (code AND 0x3F))]
      else [])"

text \<open>The \<open>\u\<close> escape, with the input after the \<open>u\<close>: the UTF-8 bytes and the rest.\<close>

definition parse_unicode :: "string \<Rightarrow> parse_error + (string \<times> string)" where
  "parse_unicode s =
     (case take_hex4 Invalid_unicode s of
        Inl e \<Rightarrow> Inl e
      | Inr (code, s1) \<Rightarrow>
          if 0xD800 \<le> code \<and> code \<le> 0xDBFF then
            (case s1 of
               [] \<Rightarrow> Inl Expected_low_surrogate
             | c # s2 \<Rightarrow>
                 if c \<noteq> CHR 0x5C then Inl Expected_low_surrogate
                 else (case s2 of
                    [] \<Rightarrow> Inl Expected_u_after_high
                  | c2 # s3 \<Rightarrow>
                      if c2 \<noteq> CHR ''u'' then Inl Expected_u_after_high
                      else (case take_hex4 Invalid_low_hex s3 of
                         Inl e \<Rightarrow> Inl e
                       | Inr (low, s4) \<Rightarrow>
                           if low < 0xDC00 \<or> low > 0xDFFF then Inl Invalid_low_surrogate
                           else Inr (utf8_encode
                             (0x10000 + push_bit 10 (code - 0xD800) + (low - 0xDC00)), s4))))
          else if 0xDC00 \<le> code \<and> code \<le> 0xDFFF then Inl Unexpected_low_surrogate
          else Inr (utf8_encode code, s1))"

text \<open>A one-character escape.\<close>

definition simple_escape :: "char \<Rightarrow> char option" where
  "simple_escape c =
     (if c = CHR 0x22 then Some (CHR 0x22)
      else if c = CHR ''n'' then Some (CHR 0x0A)
      else if c = CHR ''t'' then Some (CHR 0x09)
      else if c = CHR ''r'' then Some (CHR 0x0D)
      else if c = CHR 0x5C then Some (CHR 0x5C)
      else if c = CHR ''/'' then Some (CHR ''/'')
      else if c = CHR ''b'' then Some (CHR 0x08)
      else if c = CHR ''f'' then Some (CHR 0x0C)
      else None)"

text \<open>
  The loop of \<open>parse_string\<close>, after the opening quote. At the end of the input after a
  backslash, \<open>peek\<close> returns \<open>EOF\<close>, which as a \<open>char\<close> is 0xFF.
\<close>

fun string_loop :: "nat \<Rightarrow> string \<Rightarrow> string \<Rightarrow> parse_error + (string \<times> string)" where
  "string_loop 0 res s = Inl Out_of_fuel"
| "string_loop (Suc n) res [] = Inl Unterminated_string"
| "string_loop (Suc n) res (c # s) =
     (if c = CHR 0x22 then Inr (res, s)
      else if (of_char c :: nat) < 0x20 then Inl Invalid_control
      else if c = CHR 0x5C then
        (case s of
           [] \<Rightarrow> Inl (Invalid_escape CHR 0xFF)
         | e # s1 \<Rightarrow>
             (case simple_escape e of
                Some x \<Rightarrow> string_loop n (res @ [x]) s1
              | None \<Rightarrow>
                  if e = CHR ''u'' then
                    (case parse_unicode s1 of
                       Inl err \<Rightarrow> Inl err
                     | Inr (u, s2) \<Rightarrow> string_loop n (res @ u) s2)
                  else Inl (Invalid_escape e)))
      else string_loop n (res @ [c]) s)"

definition parse_string :: "nat \<Rightarrow> string \<Rightarrow> parse_error + (string \<times> string)" where
  "parse_string depth s =
     (if depth > max_parse_depth then Inl Max_depth
      else case s of
        [] \<Rightarrow> Inl Expected_quote
      | c # s1 \<Rightarrow>
          if c \<noteq> CHR 0x22 then Inl Expected_quote
          else string_loop (Suc (length s1)) [] s1)"


section \<open>Parsing: numbers\<close>

text \<open>
  The integer a \<open>double\<close> holds exactly, if it is one that fits \<open>int64_t\<close>: the test
  \<open>d == (double)(int64_t)d\<close> with the range checks. Out of range the cast itself is undefined
  behaviour; on x86-64 it yields \<open>INT64_MIN\<close> and the test fails, which is the model.
\<close>

definition f64_whole :: "f64 \<Rightarrow> int option" where
  "f64_whole d =
     (let neg = bit d 63;
          e = unat (take_bit 11 (drop_bit 52 d));
          frac = int (unat (take_bit 52 d));
          mant = (if e = 0 then frac else frac + 2 ^ 52);
          ex = max e 1
      in if e = 2047 then None
         else
           let mag = (if ex \<ge> 1075 then Some (mant * 2 ^ (ex - 1075))
                      else if mant mod 2 ^ (1075 - ex) = 0 then Some (mant div 2 ^ (1075 - ex))
                      else None)
           in case mag of
                None \<Rightarrow> None
              | Some m \<Rightarrow>
                  let v = (if neg then - m else m)
                  in if - (2 ^ 63) \<le> v \<and> v < 2 ^ 63 then Some v else None)"

text \<open>\<open>std::stoll\<close> on an optional minus sign and digits: throws when out of range.\<close>

definition stoll :: "string \<Rightarrow> int option" where
  "stoll s =
     (let v = (case s of
                 [] \<Rightarrow> 0
               | c # r \<Rightarrow> if c = CHR ''-'' then - int (digits_value r) else int (digits_value s))
      in if - (2 ^ 63) \<le> v \<and> v < 2 ^ 63 then Some v else None)"

definition starts_digit :: "string \<Rightarrow> bool" where
  "starts_digit s = (case s of [] \<Rightarrow> False | c # _ \<Rightarrow> is_digit c)"

text \<open>The integer part: the digits consumed and the rest.\<close>

definition scan_int :: "string \<Rightarrow> parse_error + (string \<times> string)" where
  "scan_int s =
     (case s of
        [] \<Rightarrow> Inl Expected_digit
      | c # r \<Rightarrow>
          if is_digit c then
            (if c = CHR ''0''
             then (if starts_digit r then Inl Leading_zero else Inr ([c], r))
             else Inr (takeWhile is_digit s, dropWhile is_digit s))
          else if c = CHR ''.'' then Inl Missing_int_part
          else Inl Expected_digit)"

text \<open>The fraction and the exponent: the text consumed (empty if the part is absent).\<close>

definition scan_frac :: "string \<Rightarrow> parse_error + (string \<times> string)" where
  "scan_frac s =
     (case s of
        [] \<Rightarrow> Inr ([], s)
      | c # r \<Rightarrow>
          if c = CHR ''.'' then
            (if starts_digit r then Inr (c # takeWhile is_digit r, dropWhile is_digit r)
             else Inl Missing_frac_digits)
          else Inr ([], s))"

definition scan_exp :: "string \<Rightarrow> parse_error + (string \<times> string)" where
  "scan_exp s =
     (case s of
        [] \<Rightarrow> Inr ([], s)
      | c # r \<Rightarrow>
          if c = CHR ''e'' \<or> c = CHR ''E'' then
            (let (sign, r1) = (case r of
                 [] \<Rightarrow> ([], r)
               | d # r' \<Rightarrow> if d = CHR ''+'' \<or> d = CHR ''-'' then ([d], r') else ([], r))
             in if starts_digit r1
                then Inr (c # sign @ takeWhile is_digit r1, dropWhile is_digit r1)
                else Inl Missing_exp_digits)
          else Inr ([], s))"

definition parse_number :: "(string \<Rightarrow> f64 option) \<Rightarrow> string \<Rightarrow> parse_error + (json \<times> string)" where
  "parse_number stod s =
     (let (sign, s1) = (case s of
            [] \<Rightarrow> ([], s)
          | c # r \<Rightarrow> if c = CHR ''-'' then ([c], r) else ([], s))
      in case scan_int s1 of
           Inl e \<Rightarrow> Inl e
         | Inr (ip, s2) \<Rightarrow>
        (case scan_frac s2 of
           Inl e \<Rightarrow> Inl e
         | Inr (fp, s3) \<Rightarrow>
        (case scan_exp s3 of
           Inl e \<Rightarrow> Inl e
         | Inr (ep, s4) \<Rightarrow>
             let number_str = sign @ ip @ fp @ ep in
             if fp \<noteq> [] then
               (case stod number_str of
                  None \<Rightarrow> Inl Number_out_of_range
                | Some d \<Rightarrow> Inr (JFloat d, s4))
             else if ep \<noteq> [] then
               (case stod number_str of
                  None \<Rightarrow> Inl Number_out_of_range
                | Some d \<Rightarrow>
                    (case f64_whole d of
                       Some i \<Rightarrow> Inr (JInt (word_of_int i), s4)
                     | None \<Rightarrow> Inr (JFloat d, s4)))
             else
               (case stoll number_str of
                  None \<Rightarrow> Inl Number_out_of_range
                | Some i \<Rightarrow> Inr (JInt (word_of_int i), s4)))))"

section \<open>Parsing: arrays, objects and values\<close>

text \<open>
  The element parser \<open>pv\<close> is \<open>parse_value\<close> one level deeper; \<open>array_loop\<close> and \<open>object_loop\<close>
  are the \<open>while\<close> loops, entered at the loop test.
\<close>

fun array_loop ::
    "(string \<Rightarrow> parse_error + (json \<times> string)) \<Rightarrow> nat \<Rightarrow> json list \<Rightarrow> string \<Rightarrow>
     parse_error + (json list \<times> string)" where
  "array_loop pv 0 arr s = Inl Out_of_fuel"
| "array_loop pv (Suc n) arr [] = Inl Unterminated_array"
| "array_loop pv (Suc n) arr (c # s) =
     (if c = CHR '']'' then Inr (arr, s)
      else case pv (c # s) of
        Inl e \<Rightarrow> Inl e
      | Inr (v, s1) \<Rightarrow>
          (case skip_ws s1 of
             [] \<Rightarrow> Inl Eof_in_array
           | d # s2 \<Rightarrow>
               if d = CHR '','' then
                 (case skip_ws s2 of
                    [] \<Rightarrow> Inl Trailing_comma_array
                  | f # s3 \<Rightarrow>
                      if f = CHR '']'' then Inl Trailing_comma_array
                      else array_loop pv n (arr @ [v]) (f # s3))
               else if d = CHR '']'' then array_loop pv n (arr @ [v]) (d # s2)
               else Inl Expected_comma_array))"

definition parse_array ::
    "(string \<Rightarrow> parse_error + (json \<times> string)) \<Rightarrow> nat \<Rightarrow> string \<Rightarrow> parse_error + (json \<times> string)"
where
  "parse_array pv depth s =
     (if depth > max_parse_depth then Inl Max_depth
      else case s of
        [] \<Rightarrow> Inl Expected_bracket
      | c # s1 \<Rightarrow>
          if c \<noteq> CHR ''['' then Inl Expected_bracket
          else (case array_loop pv (Suc (length s1)) [] (skip_ws s1) of
                  Inl e \<Rightarrow> Inl e
                | Inr (arr, s2) \<Rightarrow> Inr (JArray arr, s2)))"

fun object_loop ::
    "(string \<Rightarrow> parse_error + (json \<times> string)) \<Rightarrow> nat \<Rightarrow> nat \<Rightarrow> (string, json) omap \<Rightarrow> string \<Rightarrow>
     parse_error + ((string, json) omap \<times> string)" where
  "object_loop pv depth 0 obj s = Inl Out_of_fuel"
| "object_loop pv depth (Suc n) obj [] = Inl Unterminated_object"
| "object_loop pv depth (Suc n) obj (c # s) =
     (if c = CHR ''}'' then Inr (obj, s)
      else if c \<noteq> CHR 0x22 then Inl Expected_key
      else case parse_string (Suc depth) (c # s) of
        Inl e \<Rightarrow> Inl e
      | Inr (key, s1) \<Rightarrow>
          (case skip_ws s1 of
             [] \<Rightarrow> Inl Expected_colon
           | d # s2 \<Rightarrow>
               if d \<noteq> CHR '':'' then Inl Expected_colon
               else if omap_find obj key \<noteq> None then Inl (Duplicate_key key)
               else (case pv (skip_ws s2) of
                  Inl e \<Rightarrow> Inl e
                | Inr (v, s3) \<Rightarrow>
                    (case skip_ws s3 of
                       [] \<Rightarrow> Inl Eof_in_object
                     | f # s4 \<Rightarrow>
                         if f = CHR '','' then
                           (case skip_ws s4 of
                              [] \<Rightarrow> Inl Trailing_comma_object
                            | g # s5 \<Rightarrow>
                                if g = CHR ''}'' then Inl Trailing_comma_object
                                else object_loop pv depth n (omap_set key v obj) (g # s5))
                         else if f = CHR ''}'' then
                           object_loop pv depth n (omap_set key v obj) (f # s4)
                         else Inl Expected_comma_object))))"

definition parse_object ::
    "(string \<Rightarrow> parse_error + (json \<times> string)) \<Rightarrow> nat \<Rightarrow> string \<Rightarrow> parse_error + (json \<times> string)"
where
  "parse_object pv depth s =
     (if depth > max_parse_depth then Inl Max_depth
      else case s of
        [] \<Rightarrow> Inl Expected_brace
      | c # s1 \<Rightarrow>
          if c \<noteq> CHR ''{'' then Inl Expected_brace
          else (case object_loop pv depth (Suc (length s1)) [] (skip_ws s1) of
                  Inl e \<Rightarrow> Inl e
                | Inr (obj, s2) \<Rightarrow> Inr (JObject obj, s2)))"

fun strip_prefix :: "string \<Rightarrow> string \<Rightarrow> string option" where
  "strip_prefix [] s = Some s"
| "strip_prefix (c # cs) [] = None"
| "strip_prefix (c # cs) (d # s) = (if c = d then strip_prefix cs s else None)"

definition parse_literal :: "string \<Rightarrow> string \<Rightarrow> json \<Rightarrow> parse_error + (json \<times> string)" where
  "parse_literal s literal v =
     (case strip_prefix literal s of
        None \<Rightarrow> Inl (Invalid_literal literal)
      | Some rest \<Rightarrow> Inr (v, rest))"

function parse_value ::
    "(string \<Rightarrow> f64 option) \<Rightarrow> nat \<Rightarrow> string \<Rightarrow> parse_error + (json \<times> string)" where
  "parse_value stod depth s =
     (if depth > max_parse_depth then Inl Max_depth
      else case skip_ws s of
        [] \<Rightarrow> Inl Eof_in_value
      | c # s1 \<Rightarrow>
          if c = CHR 0x22 then
            (case parse_string depth (c # s1) of
               Inl e \<Rightarrow> Inl e
             | Inr (str, s2) \<Rightarrow> Inr (JString str, s2))
          else if c = CHR ''{'' then
            parse_object (\<lambda>t. parse_value stod (Suc depth) t) depth (c # s1)
          else if c = CHR ''['' then
            parse_array (\<lambda>t. parse_value stod (Suc depth) t) depth (c # s1)
          else if is_digit c \<or> c = CHR ''-'' then parse_number stod (c # s1)
          else if c = CHR ''t'' then parse_literal (c # s1) ''true'' (JBool True)
          else if c = CHR ''f'' then parse_literal (c # s1) ''false'' (JBool False)
          else if c = CHR ''n'' then parse_literal (c # s1) ''null'' JNull
          else Inl (Invalid_value c))"
  by pat_completeness auto
termination
  by (relation "measure (\<lambda>(stod, depth, s). Suc max_parse_depth - depth)") auto

declare parse_value.simps [simp del]

text \<open>\<open>Json::parse\<close>: exceptions are caught, and anything but white space after the value is refused.\<close>

definition json_parse :: "(string \<Rightarrow> f64 option) \<Rightarrow> string \<Rightarrow> json option" where
  "json_parse stod text =
     (if text = [] then None
      else case parse_value stod 0 text of
        Inl e \<Rightarrow> None
      | Inr (result, rest) \<Rightarrow> if skip_ws rest \<noteq> [] then None else Some result)"

text \<open>The overload with an error code: the code is \<open>True\<close> for \<open>errc::invalid_argument\<close>.\<close>

definition json_parse_ec :: "(string \<Rightarrow> f64 option) \<Rightarrow> string \<Rightarrow> json \<times> bool" where
  "json_parse_ec stod text =
     (if text = [] then (JNull, True)
      else case parse_value stod 0 text of
        Inl e \<Rightarrow> (JNull, True)
      | Inr (result, rest) \<Rightarrow> if skip_ws rest \<noteq> [] then (JNull, True) else (result, False))"

end
