(* ===== verification/Bt_Factory.thy ===== *)
theory Bt_Factory
  imports Bt_Tree Json_Text
begin

text \<open>
  Behaviour trees, third part: constructing trees. \<open>BtTree\<close>'s constructor numbers the nodes and
  hands them the tree's context; \<open>BtFactory\<close> builds nodes from JSON.

  A tree may name registered trees, which may name others, so building is not a recursion over
  the JSON; it carries fuel, and \<open>Too_deep\<close> stands for the stack the C++ recursion exhausts.
  The nodes a program registers itself are the functions behind \<open>SimpleAction\<close>.
\<close>

section \<open>The constructor of BtTree\<close>

definition set_context :: "addr \<Rightarrow> addr \<Rightarrow> addr \<Rightarrow> bool \<Rightarrow> ('w, unit) bt_op" where
  "set_context a t b rec =
     update_node a (\<lambda>nd. nd\<lparr>n_tree := Some t, n_board := Some b, n_record := rec\<rparr>)"

text \<open>\<open>inheritRuntimeContext\<close>: every node of the inner tree, and of the trees inside it.\<close>

fun inherit_nodes :: "addr \<Rightarrow> addr \<Rightarrow> bool \<Rightarrow> 'a shape \<Rightarrow> ('w, unit) bt_op" where
  "inherit_nodes t b rec (Node a k cs sub) =
     then_do (set_context a t b rec)
       (then_do
         (case sub of
            None \<Rightarrow> give ()
          | Some tr \<Rightarrow> then_do (update_tree (fst tr) (\<lambda>x. x\<lparr>t_board := b\<rparr>)) (inherit_nodes t b rec (snd tr)))
         (in_order (map (inherit_nodes t b rec) cs)))"

definition number_node :: "addr \<Rightarrow> addr \<Rightarrow> ('w, unit) bt_op" where
  "number_node t a = change (\<lambda>s. put_node a (\<lambda>nd. nd\<lparr>n_id := t_ids (trees s t)\<rparr>)
     (put_tree t (\<lambda>tr. tr\<lparr>t_nodes := t_nodes tr @ [a], t_ids := t_ids tr + 1\<rparr>) s))"

fun visit_nodes :: "addr \<Rightarrow> addr \<Rightarrow> bool \<Rightarrow> 'a shape \<Rightarrow> ('w, unit) bt_op" where
  "visit_nodes t b rec (Node a k cs sub) =
     then_do (number_node t a)
       (then_do (set_context a t b rec)
         (then_do
           (case sub of
              None \<Rightarrow> give ()
            | Some tr \<Rightarrow> then_do (update_tree (fst tr) (\<lambda>x. x\<lparr>t_board := b\<rparr>)) (inherit_nodes t b rec (snd tr)))
           (in_order (map (visit_nodes t b rec) cs))))"

section \<open>Dumps\<close>

definition set_member :: "string \<Rightarrow> json \<Rightarrow> json \<Rightarrow> json" where
  "set_member k v j = (case assign_key j k v of Inl e \<Rightarrow> j | Inr j' \<Rightarrow> j')"

fun any_to_json :: "(u32 \<Rightarrow> f64) \<Rightarrow> any \<Rightarrow> json" where
  "any_to_json f2d (AnyInt i) = JInt (scast i)"
| "any_to_json f2d (AnyI64 i) = JInt i"
| "any_to_json f2d (AnyU64 i) = JInt i"
| "any_to_json f2d (AnyU32 i) = JInt (ucast i)"
| "any_to_json f2d (AnyU16 i) = JInt (ucast i)"
| "any_to_json f2d (AnyU8 i) = JInt (ucast i)"
| "any_to_json f2d (AnyI16 i) = JInt (scast i)"
| "any_to_json f2d (AnyI8 i) = JInt (scast i)"
| "any_to_json f2d (AnyFloat x) = JFloat (f2d x)"
| "any_to_json f2d (AnyDouble d) = JFloat d"
| "any_to_json f2d (AnyBool b) = JBool b"
| "any_to_json f2d (AnyString s) = JString s"

fun dump_tree_node :: "(u32 \<Rightarrow> f64) \<Rightarrow> (addr \<Rightarrow> nstate) \<Rightarrow> 'a shape \<Rightarrow> json" where
  "dump_tree_node f2d ns (Node a k cs sub) =
     (let base = set_member ''type'' (json_of_int (int (type_code (n_type (ns a)))))
                   (set_member ''name'' (JString (n_name (ns a))) JNull);
          ports = foldl (\<lambda>p (name, v). set_member name (any_to_json f2d v) p) JNull (n_data (ns a));
          with_ports = (if n_data (ns a) = [] then base else set_member ''ports'' ports base)
      in if cs = [] then with_ports
         else set_member ''children'' (JArray (map (dump_tree_node f2d ns) cs)) with_ports)"

definition dump_tree :: "(u32 \<Rightarrow> f64) \<Rightarrow> (addr \<Rightarrow> nstate) \<Rightarrow> string \<Rightarrow> 'a shape \<Rightarrow> json" where
  "dump_tree f2d ns name root =
     set_member ''version'' (JString ''1.0'')
       (set_member ''name'' (JString name) (set_member ''root'' (dump_tree_node f2d ns root) JNull))"

fun dump_node :: "(addr \<Rightarrow> nstate) \<Rightarrow> 'a shape \<Rightarrow> string" where
  "dump_node ns (Node a k cs sub) =
     concat (map (\<lambda>c. show_int (n_id (ns a)) @ ''->'' @ show_int (n_id (ns (node_addr c))) @ '';'' @
       [CHR 0x0A] @ dump_node ns c) cs)"

definition tree_dump :: "'w bt \<Rightarrow> addr \<Rightarrow> 'a shape \<Rightarrow> string" where
  "tree_dump s t root =
     ''digraph '' @ t_name (trees s t) @ '' {'' @ [CHR 0x0A] @
     concat (map (\<lambda>a. show_int (n_id (nodes s a)) @ ''[label='' @ n_name (nodes s a) @ ''];'' @ [CHR 0x0A])
       (t_nodes (trees s t))) @
     dump_node (nodes s) root @ ''}'' @ [CHR 0x0A]"

section \<open>Making objects\<close>

definition make_node :: "string \<Rightarrow> node_type \<Rightarrow> ('w, addr) bt_op" where
  "make_node name ty = (\<lambda>s.
     (Inr (fresh s), s\<lparr>nodes := (nodes s)(fresh s := new_node name ty), fresh := Suc (fresh s)\<rparr>))"

definition make_board :: "('w, addr) bt_op" where
  "make_board = (\<lambda>s. (Inr (fresh s), s\<lparr>boards := (boards s)(fresh s := []), fresh := Suc (fresh s)\<rparr>))"

definition new_tree :: "string \<Rightarrow> addr \<Rightarrow> bool \<Rightarrow> tree" where
  "new_tree name b logger =
     \<lparr>t_name = name, t_board = b, t_logger = logger, t_ticks = 0, t_paused = False, t_events = [],
      t_ids = 0, t_nodes = []\<rparr>"

definition make_tree_object :: "tree \<Rightarrow> ('w, addr) bt_op" where
  "make_tree_object tr = (\<lambda>s.
     (Inr (fresh s), s\<lparr>trees := (trees s)(fresh s := tr), fresh := Suc (fresh s)\<rparr>))"

definition make_tree ::
    "(u32 \<Rightarrow> f64) \<Rightarrow> 'a shape \<Rightarrow> string \<Rightarrow> addr option \<Rightarrow> bool \<Rightarrow> ('w, addr) bt_op" where
  "make_tree f2d root name board logger =
     then_with (case board of Some b \<Rightarrow> give b | None \<Rightarrow> make_board) (\<lambda>b.
       then_with (make_tree_object (new_tree name b logger)) (\<lambda>t.
         then_do (visit_nodes t b logger root)
           (then_do (only_if logger
               (change (\<lambda>s. s\<lparr>bt_log := bt_log s @ [Update (dump_tree f2d (nodes s) name root)]\<rparr>)))
             (give t))))"

section \<open>The factory\<close>

datatype port_type = P_int | P_double | P_string

record 'a registration =
  r_kind :: "'a kind"
  r_ports :: "(string \<times> port_type) list"

record 'a factory =
  f_nodes :: "(string, 'a registration) omap"
  f_trees :: "(string, json) omap"

definition register :: "string \<Rightarrow> 'a kind \<Rightarrow> (string \<times> port_type) list \<Rightarrow> 'a factory \<Rightarrow> 'a factory" where
  "register name k ports f = f\<lparr>f_nodes := omap_set name \<lparr>r_kind = k, r_ports = ports\<rparr> (f_nodes f)\<rparr>"

definition new_factory :: "'a factory" where
  "new_factory = fold (\<lambda>(name, k, ports). register name k ports)
     [(''Selector'', K_Selector, []), (''RandomSelector'', K_RandomSelector, []),
      (''Sequence'', K_Sequence, []), (''Fallback'', K_Fallback, []),
      (''Delay'', K_Delay, [(''delay_ms'', P_double)]),
      (''Timeout'', K_Timeout, [(''timeout_ms'', P_double)]),
      (''Inverter'', K_Inverter, []), (''Retry'', K_Retry, [(''max_retries'', P_int)]),
      (''Repeater'', K_Repeater, [(''repeat_count'', P_int)]),
      (''SubTree'', K_SubTree, [(''tree_name'', P_string)]),
      (''EventGuard'', K_EventGuard,
         [(''event_type'', P_int), (''interrupt_mode'', P_int), (''return_status'', P_int)]),
      (''AlwaysSuccess'', K_AlwaysSuccess, []), (''AlwaysFailure'', K_AlwaysFailure, []),
      (''Wait'', K_Wait, [(''wait_ms'', P_double)]),
      (''WaitForEvent'', K_WaitForEvent, [(''event_type'', P_int), (''timeout_ms'', P_double)])]
     \<lparr>f_nodes = [], f_trees = []\<rparr>"

definition register_simple_action :: "'a \<Rightarrow> string \<Rightarrow> 'a factory \<Rightarrow> 'a factory" where
  "register_simple_action f name fac = register name (K_SimpleAction f) [] fac"

definition or_empty :: "string option \<Rightarrow> string" where
  "or_empty s = (case s of None \<Rightarrow> [] | Some x \<Rightarrow> x)"

definition register_tree :: "string \<Rightarrow> json \<Rightarrow> 'a factory \<Rightarrow> 'a factory" where
  "register_tree name j fac =
     (let trees1 = omap_set name j (f_trees fac);
          tree_name = or_empty (get_string j ''name'')
      in fac\<lparr>f_trees := (if tree_name \<noteq> [] then omap_set tree_name j trees1 else trees1)\<rparr>)"

definition get_registered_tree :: "'a factory \<Rightarrow> string \<Rightarrow> json option" where
  "get_registered_tree fac name = omap_find (f_trees fac) name"

definition of_json :: "json_error + 'b \<Rightarrow> ('w, 'b) bt_op" where
  "of_json r = (case r of Inl e \<Rightarrow> throw (Bad_json e) | Inr v \<Rightarrow> give v)"

text \<open>One entry of \<open>ports\<close>: ports the node does not declare, and values of other types, are only logged.\<close>

definition set_port :: "('a, 'w) env \<Rightarrow> addr \<Rightarrow> (string \<times> port_type) list \<Rightarrow> string \<times> json \<Rightarrow> ('w, unit) bt_op" where
  "set_port env a ports = (\<lambda>(name, v).
     let store = (\<lambda>x. update_node a (\<lambda>nd. nd\<lparr>n_data := any_set name x (n_data nd)\<rparr>)) in
     case map_of ports name of
       None \<Rightarrow> give ()
     | Some ty \<Rightarrow>
         (case v of
            JInt i \<Rightarrow> (case ty of P_int \<Rightarrow> store (AnyInt (ucast i))
                       | P_double \<Rightarrow> store (AnyDouble (int_to_double env i))
                       | P_string \<Rightarrow> give ())
          | JFloat d \<Rightarrow> (case ty of P_int \<Rightarrow> throw (Bad_json Not_integer)
                       | P_double \<Rightarrow> store (AnyDouble d)
                       | P_string \<Rightarrow> give ())
          | JBool b \<Rightarrow> store (AnyBool b)
          | JString s \<Rightarrow> store (AnyString s)
          | _ \<Rightarrow> give ()))"

text \<open>\<open>inner\<close> builds the tree of a \<open>SubTree\<close>, \<open>build\<close> builds a child.\<close>

definition node_parts ::
    "(json \<Rightarrow> ('w, 'a shape) bt_op) \<Rightarrow> (json \<Rightarrow> ('w, addr \<times> 'a shape) bt_op) \<Rightarrow>
     string \<Rightarrow> node_type \<Rightarrow> json \<Rightarrow> ('w, 'a shape list \<times> (addr \<times> 'a shape) option) bt_op"
where
  "node_parts build inner name ty j =
     (case ty of
        Composite \<Rightarrow>
          if \<not> has_key j ''children'' then throw No_children
          else then_with (of_json (at_key j ''children'')) (\<lambda>cj.
            then_with (of_json (as_array cj)) (\<lambda>arr.
              then_with (all_results (map build arr)) (\<lambda>cs. give (cs, None))))
      | Decorator \<Rightarrow>
          if name = ''SubTree'' then
            (if has_key j ''subtree'' then
               then_with (of_json (at_key j ''subtree'')) (\<lambda>sj.
                 then_with (inner sj) (\<lambda>tr. give ([], Some tr)))
             else give ([], None))
          else if \<not> has_key j ''children'' then throw Not_one_child
          else then_with (of_json (at_key j ''children'')) (\<lambda>cj.
            then_with (of_json (as_array cj)) (\<lambda>arr.
              case arr of
                [c] \<Rightarrow> then_with (build c) (\<lambda>s. give ([s], None))
              | _ \<Rightarrow> throw Not_one_child))
      | Action \<Rightarrow> give ([], None))"

definition registered_sub ::
    "'a factory \<Rightarrow> (json \<Rightarrow> ('w, addr \<times> 'a shape) bt_op) \<Rightarrow> string \<Rightarrow> addr \<Rightarrow>
     (addr \<times> 'a shape) option \<Rightarrow> ('w, (addr \<times> 'a shape) option) bt_op"
where
  "registered_sub fac inner name a sub =
     (if name = ''SubTree'' \<and> sub = None then
        then_with (input_string a ''tree_name'') (\<lambda>tn.
          case tn of
            None \<Rightarrow> give None
          | Some tree_name \<Rightarrow>
              if tree_name = [] then give None
              else (case get_registered_tree fac tree_name of
                 None \<Rightarrow> throw (Tree_not_found tree_name)
               | Some tj \<Rightarrow> then_with (inner tj) (\<lambda>tr. give (Some tr))))
      else give sub)"

fun build_node :: "nat \<Rightarrow> (u32 \<Rightarrow> f64) \<Rightarrow> ('a, 'w) env \<Rightarrow> 'a factory \<Rightarrow> json \<Rightarrow> ('w, 'a shape) bt_op"
  and build_tree ::
    "nat \<Rightarrow> (u32 \<Rightarrow> f64) \<Rightarrow> ('a, 'w) env \<Rightarrow> 'a factory \<Rightarrow> addr option \<Rightarrow> bool \<Rightarrow> json \<Rightarrow>
     ('w, addr \<times> 'a shape) bt_op"
where
  "build_node 0 f2d env fac j = throw Too_deep"
| "build_node (Suc n) f2d env fac j =
     (if \<not> is_object j then throw Node_not_object
      else let id = or_empty (get_string j ''id''); given = or_empty (get_string j ''name'')
      in if id = [] \<and> given = [] then throw No_id_or_name
      else let name = (if given = [] then id else given)
      in case omap_find (f_nodes fac) name of
        None \<Rightarrow> throw (Unknown_node name)
      | Some r \<Rightarrow>
          then_with (make_node name (kind_type (r_kind r))) (\<lambda>a.
            then_with (node_parts (build_node n f2d env fac) (build_tree n f2d env fac None False)
                         name (kind_type (r_kind r)) j) (\<lambda>(cs, sub).
              then_do (case get_object j ''ports'' of
                         None \<Rightarrow> give ()
                       | Some m \<Rightarrow> for_each m (set_port env a (r_ports r)))
                (then_with (registered_sub fac (build_tree n f2d env fac None False) name a sub) (\<lambda>sub'.
                   give (Node a (r_kind r) cs sub'))))))"
| "build_tree 0 f2d env fac board logger j = throw Too_deep"
| "build_tree (Suc n) f2d env fac board logger j =
     (if \<not> has_key j ''root'' then throw Missing_root
      else then_with (of_json (at_key j ''root'')) (\<lambda>rj.
        let name = (case get_string j ''name'' of None \<Rightarrow> ''BehaviorTree'' | Some x \<Rightarrow> x)
        in then_with (build_node n f2d env fac rj) (\<lambda>root.
             then_with (make_tree f2d root name board logger) (\<lambda>t. give (t, root)))))"

definition build_from_registered_tree ::
    "nat \<Rightarrow> (u32 \<Rightarrow> f64) \<Rightarrow> ('a, 'w) env \<Rightarrow> 'a factory \<Rightarrow> string \<Rightarrow> addr option \<Rightarrow> bool \<Rightarrow>
     ('w, addr \<times> 'a shape) bt_op" where
  "build_from_registered_tree n f2d env fac name board logger =
     (case get_registered_tree fac name of
        None \<Rightarrow> throw (Tree_not_found name)
      | Some tj \<Rightarrow> build_tree n f2d env fac board logger tj)"

text \<open>Tree files: the stem of the path and its content (\<open>None\<close> if it cannot be read).\<close>

datatype load_error = Read_failed | Invalid_tree

definition load_tree_file ::
    "(string \<Rightarrow> f64 option) \<Rightarrow> string \<times> string option \<Rightarrow> 'a factory \<Rightarrow> load_error + 'a factory" where
  "load_tree_file stod = (\<lambda>(stem, content) fac.
     case content of
       None \<Rightarrow> Inl Read_failed
     | Some text \<Rightarrow>
         if text = [] then Inl Read_failed
         else (case json_parse stod text of
            None \<Rightarrow> Inl Invalid_tree
          | Some j \<Rightarrow> if \<not> has_key j ''root'' then Inl Invalid_tree else Inr (register_tree stem j fac)))"

end
