(* ===== verification/Bt_Life.thy ===== *)
theory Bt_Life
  imports Bt_Tree
begin

text \<open>
  The life cycle of nodes: what ticking and resetting may change, and the invariant that a node is
  started exactly while its last status is \<open>Running\<close>.

  Only the fields \<open>n_started\<close> and \<open>n_status\<close> matter here (\<open>life\<close>). \<open>sound ar C Q m\<close> says of an
  operation \<open>m\<close> that it touches the lives of no nodes outside \<open>C\<close>, and that when it returns it has
  kept \<open>C\<close> steady and its result satisfies \<open>Q\<close>; the rules in \<open>sound_intros\<close> follow the constructs
  of \<open>Effects\<close>.
\<close>

named_theorems sound_intros "soundness of operations on nodes"

definition life :: "nstate \<Rightarrow> bool \<times> status" where
  "life nd = (n_started nd, n_status nd)"

definition steady_node :: "nstate \<Rightarrow> bool" where
  "steady_node nd \<longleftrightarrow> (n_started nd \<longleftrightarrow> n_status nd = Running)"

text \<open>
  What an \<open>EventGuard\<close> returns when it is interrupted, and the positions a \<open>RandomSelector\<close> has
  shuffled; \<open>ar\<close> is the number of children of each node of the tree at hand.
\<close>

definition tidy :: "(addr \<Rightarrow> nat option) \<Rightarrow> addr \<Rightarrow> nstate \<Rightarrow> bool" where
  "tidy ar x nd \<longleftrightarrow>
     (\<forall>n. ar x = Some n \<longrightarrow>
        (interrupt_status nd = Success \<or> interrupt_status nd = Failure) \<and>
        (\<forall>i \<in> set (indices nd). i < n))"

definition steady :: "(addr \<Rightarrow> nat option) \<Rightarrow> addr set \<Rightarrow> 'w bt \<Rightarrow> bool" where
  "steady ar C s \<longleftrightarrow> (\<forall>x \<in> C. steady_node (nodes s x)) \<and> (\<forall>x. tidy ar x (nodes s x))"

definition frame :: "addr set \<Rightarrow> 'w bt \<Rightarrow> 'w bt \<Rightarrow> bool" where
  "frame C s t \<longleftrightarrow> (\<forall>x. x \<notin> C \<longrightarrow> life (nodes t x) = life (nodes s x))"

lemma frame_reflp [simp]: "reflp (frame C)"
  by (simp add: reflp_def frame_def)

lemma frame_transp [simp]: "transp (frame C)"
  by (simp add: transp_def frame_def)

lemma frame_mono: "frame B s t \<Longrightarrow> B \<subseteq> C \<Longrightarrow> frame C s t"
  by (auto simp: frame_def)

lemma steady_life: "life nd = life nd' \<Longrightarrow> steady_node nd = steady_node nd'"
  by (simp add: life_def steady_node_def)

lemma steady_frame: "frame B s t \<Longrightarrow> steady ar B t \<Longrightarrow> steady ar C s \<Longrightarrow> steady ar C t"
  unfolding steady_def frame_def using steady_life by metis

definition sound :: "(addr \<Rightarrow> nat option) \<Rightarrow> addr set \<Rightarrow> ('r \<Rightarrow> bool) \<Rightarrow> ('w, 'r) bt_op \<Rightarrow> bool" where
  "sound ar C Q m \<longleftrightarrow>
     (\<forall>s. steady ar C s \<longrightarrow> frame C s (snd (m s)) \<and>
        (\<forall>r t. m s = (Inr r, t) \<longrightarrow> steady ar C t \<and> Q r))"

lemma soundD:
  assumes "sound ar C Q m" and "steady ar C s" and "m s = (r, t)"
  shows "frame C s t" and "\<And>v. r = Inr v \<Longrightarrow> steady ar C t \<and> Q v"
  using assms by (auto simp: sound_def)

lemma soundI:
  assumes "\<And>s r t. steady ar C s \<Longrightarrow> m s = (r, t) \<Longrightarrow>
    frame C s t \<and> (\<forall>v. r = Inr v \<longrightarrow> steady ar C t \<and> Q v)"
  shows "sound ar C Q m"
  unfolding sound_def using assms by (metis prod.collapse)

lemma sound_mono:
  assumes "sound ar B Q m" and "B \<subseteq> C"
  shows "sound ar C Q m"
proof (rule soundI)
  fix s r t
  assume s: "steady ar C s" and m: "m s = (r, t)"
  have B: "steady ar B s"
    using s assms(2) by (auto simp: steady_def)
  show "frame C s t \<and> (\<forall>v. r = Inr v \<longrightarrow> steady ar C t \<and> Q v)"
    using soundD [OF assms(1) B m] frame_mono [OF _ assms(2)] steady_frame [OF _ _ s] by blast
qed

lemma sound_weaken: "sound ar C P m \<Longrightarrow> (\<And>r. P r \<Longrightarrow> Q r) \<Longrightarrow> sound ar C Q m"
  by (auto simp: sound_def)

lemma frame_refl [simp]: "frame C s s"
  by (simp add: frame_def)

lemma frame_trans: "frame C s t \<Longrightarrow> frame C t u \<Longrightarrow> frame C s u"
  by (simp add: frame_def)

lemma sound_give [sound_intros]: "Q r \<Longrightarrow> sound ar C Q (give r)"
  by (simp add: sound_def)

lemma sound_throw [sound_intros]: "sound ar C Q (throw e)"
  by (simp add: sound_def)

lemma sound_look [sound_intros]: "(\<And>s. Q (f s)) \<Longrightarrow> sound ar C Q (look f)"
  by (auto simp: sound_def)

lemma sound_then_with:
  assumes m: "sound ar C P m" and f: "\<And>r. P r \<Longrightarrow> sound ar C Q (f r)"
  shows "sound ar C Q (then_with m f)"
proof (rule soundI)
  fix s r u
  assume s: "steady ar C s" and run: "then_with m f s = (r, u)"
  obtain x t where mt: "m s = (x, t)"
    by (cases "m s")
  note m' = soundD [OF m s mt]
  show "frame C s u \<and> (\<forall>v. r = Inr v \<longrightarrow> steady ar C u \<and> Q v)"
  proof (cases x)
    case (Inl e)
    then have "r = Inl e" "u = t"
      using run mt by (simp_all add: run_then_with)
    then show ?thesis
      using m'(1) by simp
  next
    case (Inr v)
    then have "f v t = (r, u)"
      using run mt by (simp add: run_then_with)
    with m'(2) [OF Inr] show ?thesis
      using soundD [OF f, of v t r u] frame_trans [OF m'(1)] by blast
  qed
qed

text \<open>When nothing is known of the intermediate result.\<close>

lemma sound_then [sound_intros]:
  "sound ar C (\<lambda>_. True) m \<Longrightarrow> (\<And>r. sound ar C Q (f r)) \<Longrightarrow> sound ar C Q (then_with m f)"
  by (rule sound_then_with)

lemma sound_then_do [sound_intros]:
  "sound ar C (\<lambda>_. True) m \<Longrightarrow> sound ar C Q k \<Longrightarrow> sound ar C Q (then_do m k)"
  unfolding then_do_def by (rule sound_then_with)

lemma sound_only_if [sound_intros]: "(b \<Longrightarrow> sound ar C (\<lambda>_. True) m) \<Longrightarrow> sound ar C (\<lambda>_. True) (only_if b m)"
  by (simp add: only_if_def sound_give)

lemma sound_in_order [sound_intros]:
  "(\<And>m. m \<in> set ms \<Longrightarrow> sound ar C (\<lambda>_. True) m) \<Longrightarrow> sound ar C (\<lambda>_. True) (in_order ms)"
  by (induction ms) (simp_all add: sound_intros)

text \<open>Changes of other fields.\<close>

lemma sound_change:
  assumes "\<And>s x. life (nodes (f s) x) = life (nodes s x)"
    and "\<And>s x. tidy ar x (nodes s x) \<Longrightarrow> tidy ar x (nodes (f s) x)"
  shows "sound ar C (\<lambda>_. True) (change f)"
proof (rule soundI)
  fix s r t
  assume "steady ar C s" and "change f s = (r, t)"
  then have t: "t = f s" by simp
  have "steady ar C t"
    using \<open>steady ar C s\<close> assms steady_life unfolding t steady_def by blast
  then show "frame C s t \<and> (\<forall>v. r = Inr v \<longrightarrow> steady ar C t \<and> True)"
    by (simp add: t frame_def assms)
qed

lemma sound_update_node [sound_intros]:
  "(\<And>nd. life (f nd) = life nd) \<Longrightarrow> (\<And>nd. tidy ar a nd \<Longrightarrow> tidy ar a (f nd)) \<Longrightarrow>
   sound ar C (\<lambda>_. True) (update_node a f)"
  unfolding update_node_def by (rule sound_change) (auto simp: put_node_def)

lemma sound_update_tree [sound_intros]: "sound ar C (\<lambda>_. True) (update_tree t f)"
  unfolding update_tree_def by (rule sound_change) (simp_all add: put_tree_def)

lemma sound_fields [sound_intros]:
  "sound ar C (\<lambda>_. True) (read_ms env)" "sound ar C (\<lambda>_. True) (node a)"
  "sound ar C (\<lambda>_. True) (input_double a name)" "sound ar C (\<lambda>_. True) (input_int a name)"
  "sound ar C (\<lambda>_. True) (consume_event t ty)"
  by (auto simp: sound_def read_ms_def node_def input_double_def input_int_def consume_event_def
      put_tree_def frame_def steady_def split: prod.splits)

section \<open>The environment\<close>

text \<open>
  What the tree relies on of the functions behind \<open>SimpleAction\<close>: they do not reach into the nodes,
  and they report an outcome.
\<close>

locale quiet_env =
  fixes env :: "('a, 'w) env" and ar :: "addr \<Rightarrow> nat option"
  assumes action_sound: "sound ar {} (\<lambda>st. st \<noteq> Idle) (run_action env f)"
    and shuffled_set: "set (shuffled env i xs) = set xs"
begin

lemma on_start_sound:
  "ar a = Some n \<Longrightarrow> sound ar C (\<lambda>st. st \<noteq> Idle) (on_start env a k n has_sub)"
  by (cases "(env, a, k, n, has_sub)" rule: on_start.cases)
    (auto simp: start_defs required_def shuffle_children_def put_node_def life_def tidy_def
      shuffled_set split: option.split intro!: sound_intros sound_change)

lemma leaf_ticks_sound:
  "sound ar C (\<lambda>st. st \<noteq> Idle) (wait_tick env a)"
  "sound ar C (\<lambda>st. st \<noteq> Idle) (wait_event_tick env a)"
  by (auto simp: wait_tick_def wait_event_tick_def split: option.split if_splits intro!: sound_intros)

end

section \<open>The loops\<close>

abbreviation ticks_sound :: "(addr \<Rightarrow> nat option) \<Rightarrow> addr set \<Rightarrow> ('w, status) bt_op \<Rightarrow> bool" where
  "ticks_sound ar C t \<equiv> sound ar C (\<lambda>st. st \<noteq> Idle) t"

lemma sound_set_current [sound_intros]: "sound ar C (\<lambda>_. True) (set_current a i)"
  unfolding set_current_def by (intro sound_intros) (simp_all add: life_def tidy_def)

lemma sound_increment [sound_intros]: "sound ar C (\<lambda>_. True) (increment a)"
  unfolding increment_def by (intro sound_intros) (simp_all add: life_def tidy_def)

lemma sequence_loop_sound:
  "(\<And>t. t \<in> set ts \<Longrightarrow> ticks_sound ar C t) \<Longrightarrow> ticks_sound ar C (sequence_loop a ts i)"
  by (induction ts arbitrary: i) (auto intro!: sound_intros sound_then_with)

lemma selector_loop_sound:
  "(\<And>t. t \<in> set ts \<Longrightarrow> ticks_sound ar C t) \<Longrightarrow> ticks_sound ar C (selector_loop a ts i)"
  by (induction ts arbitrary: i) (auto intro!: sound_intros sound_then_with)

lemma fallback_loop_sound:
  "(\<And>t. t \<in> set ts \<Longrightarrow> ticks_sound ar C t) \<Longrightarrow> ticks_sound ar C (fallback_loop a ts i)"
  by (induction ts arbitrary: i) (auto intro!: sound_intros sound_then_with)

lemma random_loop_sound:
  assumes "\<And>t. t \<in> set ts \<Longrightarrow> ticks_sound ar C t"
  shows "\<forall>j \<in> set js. j < length ts \<Longrightarrow> ticks_sound ar C (random_loop a ts js i)"
  using assms
  by (induction js arbitrary: i)
    (auto intro!: sound_intros sound_then_with [where P = "\<lambda>st. st \<noteq> Idle"])

lemma retry_loop_sound:
  "ticks_sound ar C t \<Longrightarrow> sound ar C (\<lambda>_. True) r \<Longrightarrow> ticks_sound ar C (retry_loop a t r n)"
  by (induction n) (auto intro!: sound_intros sound_then_with)

lemma repeat_loop_sound:
  "ticks_sound ar C t \<Longrightarrow> sound ar C (\<lambda>_. True) r \<Longrightarrow> ticks_sound ar C (repeat_loop a t r n)"
  by (induction n) (auto intro!: sound_intros sound_then_with)

section \<open>Ticks by class\<close>

text \<open>What is read from a node while the tree is tidy.\<close>

lemma sound_node_tidy: "sound ar C (tidy ar a) (node a)"
  by (simp add: sound_def node_def steady_def)

lemma sound_then_node:
  "(\<And>nd. tidy ar a nd \<Longrightarrow> sound ar C Q (f nd)) \<Longrightarrow> sound ar C Q (then_with (node a) f)"
  by (rule sound_then_with [OF sound_node_tidy])

lemma delay_tick_sound: "ticks_sound ar C t \<Longrightarrow> ticks_sound ar C (delay_tick env a t)"
  unfolding delay_tick_def by (auto intro!: sound_intros)

lemma timeout_tick_sound: "ticks_sound ar C t \<Longrightarrow> ticks_sound ar C (timeout_tick env a t)"
  unfolding timeout_tick_def
  by (auto intro!: sound_intros sound_then_with [where P = "\<lambda>st. st \<noteq> Idle" and m = t]
      simp: life_def tidy_def)

lemma guard_tick_sound:
  assumes "ticks_sound ar C t" and "sound ar C (\<lambda>_. True) r" and "ar a = Some n"
  shows "ticks_sound ar C (guard_tick a t r)"
proof -
  have stop: "ticks_sound ar C (then_do r (give (interrupt_status nd)))" if "tidy ar a nd" for nd
    using that assms(2,3) by (intro sound_then_do) (auto simp: tidy_def intro!: sound_intros)
  have note_it: "sound ar C (\<lambda>_. True) (update_node a (\<lambda>nd. nd\<lparr>interrupted := True\<rparr>))"
    by (intro sound_intros) (simp_all add: life_def tidy_def)
  show ?thesis
    unfolding guard_tick_def using assms(1) stop note_it
    by (auto intro!: sound_then_node sound_then sound_then_do sound_only_if sound_give
        sound_look sound_fields split: option.split)
qed

lemma with_child_sound:
  "(\<And>c. c \<in> set cs \<Longrightarrow> ticks_sound ar C (f c)) \<Longrightarrow> ticks_sound ar C (with_child cs f)"
  by (cases cs) (auto simp: with_child_def intro!: sound_intros)

lemma inverter_tick_sound: "ticks_sound ar C t \<Longrightarrow> ticks_sound ar C (inverter_tick t)"
  unfolding inverter_tick_def
  by (rule sound_then_with [where P = "\<lambda>st. st \<noteq> Idle"]) (auto intro!: sound_intros)

lemma random_tick_sound:
  "(\<And>t. t \<in> set ts \<Longrightarrow> ticks_sound ar C t) \<Longrightarrow> ar a = Some (length ts) \<Longrightarrow>
   ticks_sound ar C (random_tick a ts)"
  unfolding random_tick_def
  by (rule sound_then_node, rule random_loop_sound) (auto simp: tidy_def dest: in_set_dropD)

lemma list_ticks_sound:
  assumes "\<And>t. t \<in> set ts \<Longrightarrow> ticks_sound ar C t"
  shows "ticks_sound ar C (sequence_tick a ts)" "ticks_sound ar C (selector_tick a ts)"
    "ticks_sound ar C (fallback_tick a ts)"
  using assms unfolding sequence_tick_def selector_tick_def fallback_tick_def
  by (auto intro!: sound_then_node sequence_loop_sound selector_loop_sound fallback_loop_sound
      dest: in_set_dropD)

lemma round_ticks_sound:
  assumes "ticks_sound ar C t" and "sound ar C (\<lambda>_. True) r"
  shows "ticks_sound ar C (retry_tick a t r)" "ticks_sound ar C (repeat_tick a t r)"
  using assms unfolding retry_tick_def repeat_tick_def
  by (auto intro!: sound_then_node retry_loop_sound repeat_loop_sound)

lemmas tick_sounds = delay_tick_sound timeout_tick_sound guard_tick_sound inverter_tick_sound
  random_tick_sound list_ticks_sound round_ticks_sound with_child_sound

context quiet_env begin

lemma on_tick_sound:
  assumes cs: "\<And>t r. (t, r) \<in> set cs \<Longrightarrow> ticks_sound ar C t \<and> sound ar C (\<lambda>_. True) r"
    and sub: "\<And>t. sub = Some t \<Longrightarrow> ticks_sound ar C t"
    and ar: "ar a = Some (length cs)"
  shows "ticks_sound ar C (on_tick env a k cs sub)"
proof (cases k)
  case (K_SimpleAction f)
  then show ?thesis
    using sound_mono [OF action_sound] by simp
next
  case K_SubTree
  then show ?thesis
    using sub by (cases sub) (auto simp: subtree_tick_def intro!: sound_intros)
qed (use cs ar in \<open>auto simp: leaf_ticks_sound intro!: tick_sounds sound_give\<close>)

end

section \<open>Resetting\<close>

fun addrs :: "'a shape \<Rightarrow> addr list" where
  "addrs (Node a k cs sub) =
     a # concat (map addrs cs) @ (case sub of None \<Rightarrow> [] | Some tr \<Rightarrow> addrs (snd tr))"

text \<open>The nodes of a tree, without the trees in its \<open>SubTree\<close>s.\<close>

fun own :: "'a shape \<Rightarrow> addr list" where
  "own (Node a k cs sub) = a # concat (map own cs)"

lemma sound_stop_node:
  "sound ar {a} (\<lambda>_. True) (update_node a (\<lambda>nd. nd\<lparr>n_started := False, n_status := Idle\<rparr>))"
  by (auto simp: sound_def update_node_def put_node_def frame_def steady_def steady_node_def tidy_def)

lemma base_reset_sound:
  assumes "\<And>r. r \<in> set rs \<Longrightarrow> sound ar C (\<lambda>_. True) r" and "a \<in> C"
  shows "sound ar C (\<lambda>_. True) (base_reset a rs)"
proof -
  have "{a} \<subseteq> C"
    using assms(2) by simp
  then show ?thesis
    unfolding base_reset_def using assms(1)
    by (intro sound_then_do sound_in_order sound_mono [OF sound_stop_node])
qed

lemma reset_sound: "sound ar (set (addrs root)) (\<lambda>_. True) (reset root :: ('w, unit) bt_op)"
proof (induction root)
  case (Node a k cs sub)
  have "sound ar (set (addrs (Node a k cs sub))) (\<lambda>_. True) r" if "r \<in> set (map reset cs)"
    for r :: "('w, unit) bt_op"
  proof -
    obtain c where c: "c \<in> set cs" "r = reset c"
      using \<open>r \<in> set (map reset cs)\<close> by auto
    have "set (addrs c) \<subseteq> set (addrs (Node a k cs sub))"
      using c(1) by auto
    then show ?thesis
      unfolding c(2) by (rule sound_mono [OF Node.IH(1) [OF c(1)]])
  qed
  note kids = this
  have base: "sound ar (set (addrs (Node a k cs sub))) (\<lambda>_. True) (base_reset a (map reset cs :: ('w, unit) bt_op list))"
    by (rule base_reset_sound) (use kids in simp_all)
  show ?case
    unfolding reset.simps node_reset_def using base kids
    by (auto intro!: sound_then_do sound_in_order sound_set_current simp del: addrs.simps)
qed

section \<open>Node::tick\<close>

lemma sound_log_change: "sound ar C (\<lambda>_. True) (log_change a st)"
  unfolding log_change_def by (rule sound_change) simp_all

lemma sound_of_triple:
  assumes "\<And>s0. steady ar C s0 \<Longrightarrow>
    triple (\<lambda>s. s = s0) m (\<lambda>r t. frame C s0 t \<and> steady ar C t \<and> Q r) (frame C s0)"
  shows "sound ar C Q m"
proof (rule soundI)
  fix s r t
  assume "steady ar C s" and m: "m s = (r, t)"
  then have "triple (\<lambda>u. u = s) m (\<lambda>r t. frame C s t \<and> steady ar C t \<and> Q r) (frame C s)"
    using assms by blast
  then show "frame C s t \<and> (\<forall>v. r = Inr v \<longrightarrow> steady ar C t \<and> Q v)"
    using m by (cases r) (auto simp: triple_def)
qed

text \<open>
  \<open>stage C a s0 P t\<close>: on the way from \<open>s0\<close>, the nodes below are steady, nothing else has been
  touched, and the flag and status of \<open>a\<close> satisfy \<open>P\<close>.
\<close>

definition stage ::
    "(addr \<Rightarrow> nat option) \<Rightarrow> addr set \<Rightarrow> addr \<Rightarrow> 'w bt \<Rightarrow> (bool \<Rightarrow> status \<Rightarrow> bool) \<Rightarrow> 'w bt \<Rightarrow> bool" where
  "stage ar C a s0 P t \<longleftrightarrow>
     steady ar C t \<and> frame (insert a C) s0 t \<and> P (n_started (nodes t a)) (n_status (nodes t a))"

lemma stage_sound:
  assumes "sound ar C Q m" and "a \<notin> C"
  shows "triple (stage ar C a s0 P) m (\<lambda>r t. stage ar C a s0 P t \<and> Q r) (frame (insert a C) s0)"
proof (rule tripleI)
  fix s r t
  assume s: "stage ar C a s0 P s" and m: "m s = (Inr r, t)"
  have "frame C s t" "steady ar C t \<and> Q r"
    using soundD [OF assms(1) _ m] s by (auto simp: stage_def)
  then show "stage ar C a s0 P t \<and> Q r"
    using s assms(2) by (auto simp: stage_def frame_def life_def)
next
  fix s e t
  assume s: "stage ar C a s0 P s" and m: "m s = (Inl e, t)"
  then show "frame (insert a C) s0 t"
    using soundD(1) [OF assms(1) _ m] s by (auto simp: stage_def frame_def)
qed

lemma stage_update:
  assumes "\<And>nd. tidy ar a nd \<Longrightarrow> tidy ar a (f nd)" and "a \<notin> C"
    and "\<And>nd. P (n_started nd) (n_status nd) \<Longrightarrow> P' (n_started (f nd)) (n_status (f nd))"
  shows "triple (stage ar C a s0 P) (update_node a f) (\<lambda>_. stage ar C a s0 P') (frame (insert a C) s0)"
  unfolding update_node_def
  using assms by (intro triple_change) (auto simp: stage_def put_node_def frame_def steady_def)

lemma stage_set_status:
  assumes "a \<notin> C" and "\<And>b st'. P b st' \<Longrightarrow> P' b st"
  shows "triple (stage ar C a s0 P) (set_status a st) (\<lambda>_. stage ar C a s0 P') (frame (insert a C) s0)"
  unfolding set_status_def using assms by (intro stage_update) (auto simp: tidy_def)

lemma node_tick_sound:
  fixes start :: "('w, status) bt_op"
  assumes a: "a \<notin> C" and start: "ticks_sound ar C start" and run: "ticks_sound ar C run"
    and stop: "sound ar C (\<lambda>_. True) stop"
  shows "ticks_sound ar (insert a C) (node_tick a start run stop)"
proof (rule sound_of_triple)
  fix s0 :: "'w bt"
  assume s0: "steady ar (insert a C) s0"
  let ?E = "frame (insert a C) s0"
  let ?st = "stage ar C a s0"
  have assign: "triple (?st P) (then_with m (set_status a)) (\<lambda>_. ?st P') ?E"
    if m: "ticks_sound ar C m" and P: "\<And>b st st'. P b st \<Longrightarrow> st' \<noteq> Idle \<Longrightarrow> P' b st'"
    for m :: "('w, status) bt_op" and P P'
  proof (rule triple_then_with [OF stage_sound [OF m a]])
    fix r
    show "triple (\<lambda>t. ?st P t \<and> r \<noteq> Idle) (set_status a r) (\<lambda>_. ?st P') ?E"
      by (rule triple_weaken [OF stage_set_status [OF a, where P = "\<lambda>b st. P b st \<and> r \<noteq> Idle" and P' = P']])
        (use P in \<open>auto simp: stage_def\<close>)
  qed
  have first: "triple (?st (\<lambda>b st. (b \<longleftrightarrow> st = Running) \<and> b = b0))
      (only_if (\<not> b0) (then_do (update_node a (\<lambda>nd. nd\<lparr>n_started := True\<rparr>)) (then_with start (set_status a))))
      (\<lambda>_. ?st (\<lambda>b st. b \<and> st \<noteq> Idle)) ?E" for b0
  proof (rule triple_only_if)
    show "triple (?st (\<lambda>b st. (b \<longleftrightarrow> st = Running) \<and> b = b0))
      (then_do (update_node a (\<lambda>nd. nd\<lparr>n_started := True\<rparr>)) (then_with start (set_status a)))
      (\<lambda>_. ?st (\<lambda>b st. b \<and> st \<noteq> Idle)) ?E"
      by (rule triple_then_do [where R = "?st (\<lambda>b st. b)"])
        (auto intro!: stage_update [OF _ a] assign [OF start] simp: tidy_def)
  qed (auto simp: stage_def)
  have second: "triple (?st (\<lambda>b st. b \<and> st \<noteq> Idle)) (only_if c (then_with run (set_status a)))
      (\<lambda>_. ?st (\<lambda>b st. b \<and> st \<noteq> Idle)) ?E" for c
    by (rule triple_only_if) (auto intro!: assign [OF run])
  have third: "triple (?st (\<lambda>b st. b \<and> st \<noteq> Idle \<and> (st = Success \<or> st = Failure \<longleftrightarrow> c)))
      (only_if c (then_do (update_node a (\<lambda>nd. nd\<lparr>n_started := False\<rparr>)) stop))
      (\<lambda>_. ?st (\<lambda>b st. (b \<longleftrightarrow> st = Running) \<and> st \<noteq> Idle)) ?E" for c
  proof (rule triple_only_if)
    assume c
    then show "triple (?st (\<lambda>b st. b \<and> st \<noteq> Idle \<and> (st = Success \<or> st = Failure \<longleftrightarrow> c)))
      (then_do (update_node a (\<lambda>nd. nd\<lparr>n_started := False\<rparr>)) stop)
      (\<lambda>_. ?st (\<lambda>b st. (b \<longleftrightarrow> st = Running) \<and> st \<noteq> Idle)) ?E"
      by (intro triple_then_do [where R = "?st (\<lambda>b st. (b \<longleftrightarrow> st = Running) \<and> st \<noteq> Idle)"]
          triple_weaken [OF stage_sound [OF stop a]] stage_update [OF _ a])
        (auto simp: tidy_def)
  next
    fix s
    show "\<not> c \<Longrightarrow> ?st (\<lambda>b st. b \<and> st \<noteq> Idle \<and> (st = Success \<or> st = Failure \<longleftrightarrow> c)) s \<Longrightarrow>
      ?st (\<lambda>b st. (b \<longleftrightarrow> st = Running) \<and> st \<noteq> Idle) s"
      by (cases "n_status (nodes s a)") (auto simp: stage_def)
  qed
  show "triple (\<lambda>s. s = s0) (node_tick a start run stop)
      (\<lambda>r t. frame (insert a C) s0 t \<and> steady ar (insert a C) t \<and> r \<noteq> Idle) ?E"
    unfolding node_tick_def node_def
    apply (rule triple_then_with [where R = "\<lambda>nd. ?st (\<lambda>b st. (b \<longleftrightarrow> st = Running) \<and> b = n_started nd)"])
     apply (rule triple_look)
    subgoal using s0 by (auto simp: stage_def steady_def steady_node_def)
    apply (rule triple_then_do [OF first])
    apply (rule triple_then_with [where R = "\<lambda>nd. ?st (\<lambda>b st. b \<and> st \<noteq> Idle)"], rule triple_look, assumption)
    apply (rule triple_then_do [OF second])
    apply (rule triple_then_with [where R = "\<lambda>nd. ?st (\<lambda>b st. b \<and> st \<noteq> Idle \<and>
        (st = Success \<or> st = Failure \<longleftrightarrow> (n_status nd = Success \<or> n_status nd = Failure)))"])
     apply (rule triple_look)
    subgoal by (auto simp: stage_def)
    apply (rule triple_then_do [OF third])
    apply (rule triple_then_do [OF stage_sound [OF sound_log_change a]])
    apply (rule triple_then_with [where R = "\<lambda>nd t. ?st (\<lambda>b st. (b \<longleftrightarrow> st = Running) \<and> st \<noteq> Idle) t \<and>
        nd = nodes t a"])
     apply (rule triple_look)
    subgoal by simp
    subgoal by (auto simp: triple_def stage_def steady_def steady_node_def)
    done
qed

text \<open>A tick returns the status it leaves in the node.\<close>

lemma tick_returns_status:
  fixes env :: "('a, 'w) env"
  assumes "tick env root s = (Inr st, t)"
  shows "n_status (nodes t (node_addr root)) = st"
proof (cases root)
  case (Node a k cs sub)
  have last: "triple (\<lambda>_. True) (then_with (node a) (\<lambda>nd. give (n_status nd)))
      (\<lambda>r u. n_status (nodes u a) = r) (\<lambda>_. True)"
    by (simp add: triple_def node_def)
  have tail: "triple (\<lambda>_. True) (then_do m k) Q (\<lambda>_. True)" if "triple (\<lambda>_. True) k Q (\<lambda>_. True)"
    for m and k :: "('w, status) bt_op" and Q :: "status \<Rightarrow> 'w bt \<Rightarrow> bool"
    by (rule triple_then_do [OF _ that]) (simp add: triple_def split: prod.splits sum.splits)
  have tail': "triple (\<lambda>_. True) (then_with m f) Q (\<lambda>_. True)"
    if "\<And>nd. triple (\<lambda>_. True) (f nd) Q (\<lambda>_. True)"
    for m :: "('w, 'x) bt_op" and f and Q :: "status \<Rightarrow> 'w bt \<Rightarrow> bool"
    by (rule triple_then_with [OF _ that]) (simp add: triple_def split: prod.splits sum.splits)
  have "triple (\<lambda>_. True) (tick env root) (\<lambda>r u. n_status (nodes u a) = r) (\<lambda>_. True)"
    unfolding Node tick.simps node_tick_def by (intro tail' tail last)
  from this TrueI assms have "n_status (nodes t a) = st"
    by (rule tripleD(1))
  then show ?thesis
    using Node by simp
qed

section \<open>Ticking a tree\<close>

lemma sound_log [sound_intros]: "sound ar C (\<lambda>_. True) (change (\<lambda>s. s\<lparr>bt_log := f s\<rparr>))"
  by (rule sound_change) simp_all

lemma tree_tick_sound: "ticks_sound ar C root \<Longrightarrow> ticks_sound ar C (tree_tick t root)"
  unfolding tree_tick_def
  by (auto intro!: sound_intros sound_then_with [where P = "\<lambda>st. st \<noteq> Idle" and m = root])

fun arities :: "(addr \<Rightarrow> nat option) \<Rightarrow> 'a shape \<Rightarrow> bool" where
  "arities ar (Node a k cs sub) \<longleftrightarrow>
     ar a = Some (length cs) \<and> list_all (arities ar) cs \<and>
     (case sub of None \<Rightarrow> True | Some tr \<Rightarrow> arities ar (snd tr))"

lemma on_stop_sound:
  assumes "\<And>r. sub = Some r \<Longrightarrow> sound ar C (\<lambda>_. True) r"
  shows "sound ar C (\<lambda>_. True) (on_stop a k sub)"
  using assms
  by (cases k) (auto simp: life_def tidy_def split: option.split intro!: sound_intros)

context quiet_env begin

lemma tick_sound:
  "distinct (addrs root) \<Longrightarrow> arities ar root \<Longrightarrow> ticks_sound ar (set (addrs root)) (tick env root)"
proof (induction root)
  case (Node a k cs sub)
  let ?C = "set (concat (map addrs cs) @ (case sub of None \<Rightarrow> [] | Some tr \<Rightarrow> addrs (snd tr)))"
  have below: "ticks_sound ar ?C (tick env c)" "sound ar ?C (\<lambda>_. True) (reset c :: ('b, unit) bt_op)"
    if c: "c \<in> set cs" for c
  proof -
    have sub: "set (addrs c) \<subseteq> ?C"
      using c by auto
    have "distinct (addrs c)" "arities ar c"
      using Node.prems c by (auto simp: distinct_concat_iff list_all_iff)
    then show "ticks_sound ar ?C (tick env c)"
      by (rule sound_mono [OF Node.IH(1) [OF c] sub])
    show "sound ar ?C (\<lambda>_. True) (reset c :: ('b, unit) bt_op)"
      by (rule sound_mono [OF reset_sound sub])
  qed
  have inside: "ticks_sound ar ?C (tree_tick t' (tick env r))"
    "sound ar ?C (\<lambda>_. True) (reset r :: ('b, unit) bt_op)" if r: "sub = Some (t', r)" for t' r
  proof -
    have sub: "set (addrs r) \<subseteq> ?C"
      using r by auto
    have "distinct (addrs r)" "arities ar r"
      using Node.prems r by auto
    then show "ticks_sound ar ?C (tree_tick t' (tick env r))"
      using r by (intro tree_tick_sound sound_mono [OF Node.IH(2) sub]) auto
    show "sound ar ?C (\<lambda>_. True) (reset r :: ('b, unit) bt_op)"
      by (rule sound_mono [OF reset_sound sub])
  qed
  have "a \<notin> ?C" "ar a = Some (length cs)"
    using Node.prems by auto
  then have "ticks_sound ar (insert a ?C) (tick env (Node a k cs sub))"
    unfolding tick.simps using below inside
    by (intro node_tick_sound on_start_sound on_tick_sound on_stop_sound)
      (auto split: option.splits)
  then show ?case
    by simp
qed

end

lemmas bt_run = bt_tick_def tree_tick_def node_tick_def eff_run update_node_def put_node_def update_tree_def
  put_tree_def set_status_def log_change_def set_current_def node_def read_ms_def

section \<open>Actions on the program's own state\<close>

text \<open>
  Functions behind \<open>SimpleAction\<close>, given by a script, that work on the program's state and report success, failure
  (\<open>Some\<close>) or that they are not done yet, and shuffles that rotate.
\<close>

definition user_action :: "('w \<Rightarrow> bool option \<times> 'w) \<Rightarrow> ('w, status) bt_op" where
  "user_action f = (\<lambda>s.
     let (r, u) = f (user s)
     in (Inr (case r of None \<Rightarrow> Running | Some b \<Rightarrow> if b then Success else Failure), s\<lparr>user := u\<rparr>))"

definition user_env ::
    "('a \<Rightarrow> 'w \<Rightarrow> bool option \<times> 'w) \<Rightarrow> (nat \<Rightarrow> u64) \<Rightarrow> (nat \<Rightarrow> nat) \<Rightarrow> (u64 \<Rightarrow> f64) \<Rightarrow> ('a, 'w) env" where
  "user_env script clk turns conv =
     \<lparr>clock = clk, shuffled = (\<lambda>i. rotate (turns i)), run_action = (\<lambda>f. user_action (script f)), int_to_double = conv\<rparr>"

interpretation user_actions: quiet_env "user_env script clk turns conv" ar for script clk turns conv ar
  by unfold_locales
    (auto simp: user_env_def user_action_def sound_def frame_def steady_def
      split: prod.splits option.splits)

text \<open>Property C11. If the functions behind \<open>SimpleAction\<close> leave the nodes alone and report an outcome, a
  tick of a tree keeps the life cycle of its nodes: when it returns, a node is started exactly if
  its last status was \<open>Running\<close>, an \<open>EventGuard\<close> is ready to report success or failure and the
  shuffled positions are those of children; the tick's result is never \<open>Idle\<close> and, unless the
  tree is paused, it is the root's status. Returning or throwing, it changes the flag and status of
  no other node.\<close>

theorem tick_keeps_lifecycle:
  assumes "quiet_env env ar" and "distinct (addrs root)" and "arities ar root"
    and "steady ar (set (addrs root)) s"
  shows "frame (set (addrs root)) s (snd (bt_tick env t root s)) \<and>
    (\<forall>st s'. bt_tick env t root s = (Inr st, s') \<longrightarrow>
       steady ar (set (addrs root)) s' \<and> st \<noteq> Idle \<and>
       (\<not> t_paused (trees s t) \<longrightarrow> n_status (nodes s' (node_addr root)) = st))"
proof -
  have sound: "ticks_sound ar (set (addrs root)) (bt_tick env t root)"
    unfolding bt_tick_def using assms by (intro tree_tick_sound quiet_env.tick_sound)
  have status: "n_status (nodes s' (node_addr root)) = st"
    if "bt_tick env t root s = (Inr st, s')" "\<not> t_paused (trees s t)" for st s'
    using that by (auto simp: bt_tick_def tree_tick_def eff_run update_tree_def put_tree_def
        split: prod.splits sum.splits if_splits dest!: tick_returns_status)
  show ?thesis
    using sound assms(4) status by (auto simp: sound_def)
qed

text \<open>A sequence of two actions, the second of which is not done yet.\<close>

definition two_actions :: "(nat \<Rightarrow> bool option \<times> nat) shape" where
  "two_actions = Node 0 K_Sequence
     [Node 1 (K_SimpleAction (\<lambda>n. (Some True, n + 1))) [] None,
      Node 2 (K_SimpleAction (\<lambda>n. (None, n))) [] None] None"

definition two_actions_state :: "nat bt" where
  "two_actions_state =
     \<lparr>nodes = (\<lambda>_. new_node ''n'' Action), trees = (\<lambda>_. \<lparr>t_name = ''t'', t_board = 0, t_logger = False,
        t_ticks = 0, t_paused = False, t_events = [], t_ids = 0, t_nodes = []\<rparr>),
      boards = (\<lambda>_. []), fresh = 3, n_reads = 0, n_draws = 0, bt_log = [], user = 0\<rparr>"

lemma tick_keeps_lifecycle_witness:
  "let r = bt_tick (user_env id (\<lambda>_. 0) (\<lambda>_. 0) id) 7 two_actions two_actions_state
   in fst r = Inr Running \<and> n_started (nodes (snd r) 0) \<and> \<not> n_started (nodes (snd r) 1) \<and>
      steady (\<lambda>x. if x = 0 then Some 2 else Some 0) {0, 1, 2} (snd r)"
proof -
  let ?env = "user_env id (\<lambda>_. 0) (\<lambda>_. 0) id :: (nat \<Rightarrow> bool option \<times> nat, nat) env"
  let ?ar = "\<lambda>x :: nat. if x = 0 then Some 2 else Some (0 :: nat)"
  have hyps: "distinct (addrs two_actions)" "arities ?ar two_actions"
    "steady ?ar (set (addrs two_actions)) two_actions_state"
    by (simp_all add: two_actions_def two_actions_state_def steady_def steady_node_def tidy_def new_node_def)
  note life = tick_keeps_lifecycle [OF user_actions.quiet_env_axioms hyps, of id "\<lambda>_. 0" "\<lambda>_. 0" id 7]
  have run: "fst (bt_tick ?env 7 two_actions two_actions_state) = Inr Running \<and>
      n_started (nodes (snd (bt_tick ?env 7 two_actions two_actions_state)) 0) \<and>
      \<not> n_started (nodes (snd (bt_tick ?env 7 two_actions two_actions_state)) 1)"
    by (simp_all add: two_actions_def two_actions_state_def user_env_def user_action_def new_node_def sequence_tick_def bt_run)
  have "set (addrs two_actions) = {0, 1, 2}"
    by (auto simp: two_actions_def)
  then show ?thesis
    using run life by (cases "bt_tick ?env 7 two_actions two_actions_state") (auto simp: Let_def)
qed

end
