(* ===== verification/Bt_Build.thy ===== *)
theory Bt_Build
  imports Bt_Factory Bt_Life
begin

text \<open>
  What the factory builds: objects at fresh addresses, all of them idle, so that the life cycle of
  \<open>Bt_Life\<close> holds of every tree built from JSON; the context its nodes get; and trees that name
  themselves.

  \<open>grow\<close> is the change every operation of the factory makes: the store grows and the life of the nodes
  there is left alone.
\<close>

definition core :: "nstate \<Rightarrow> bool \<times> status \<times> status \<times> nat list" where
  "core nd = (n_started nd, n_status nd, interrupt_status nd, indices nd)"

definition pristine :: "nstate \<Rightarrow> bool" where
  "pristine nd \<longleftrightarrow> core nd = (False, Idle, Failure, [])"

definition grow :: "'w bt \<Rightarrow> 'w bt \<Rightarrow> bool" where
  "grow s t \<longleftrightarrow> fresh s \<le> fresh t \<and> (\<forall>x < fresh s. core (nodes t x) = core (nodes s x))"

lemma grow_reflp [simp]: "reflp grow"
  by (simp add: reflp_def grow_def)

lemma grow_transp [simp]: "transp grow"
  by (auto simp: transp_def grow_def)

lemma moves_grow_change:
  assumes "\<And>s. fresh (f s) = fresh s" and "\<And>s x. core (nodes (f s) x) = core (nodes s x)"
  shows "moves grow (change f)"
  using assms by (intro moves_change) (auto simp: grow_def)

named_theorems grow_intros "operations of the factory"

lemma grow_update_node [grow_intros]:
  "(\<And>nd. core (f nd) = core nd) \<Longrightarrow> moves grow (update_node a f)"
  unfolding update_node_def by (rule moves_grow_change) (auto simp: put_node_def)

lemma grow_update_tree [grow_intros]: "moves grow (update_tree t f)"
  unfolding update_tree_def by (rule moves_grow_change) (simp_all add: put_tree_def)

lemma grow_make [grow_intros]:
  "moves grow (make_node name ty)" "moves grow make_board" "moves grow (make_tree_object tr)"
  by (auto simp: moves_def make_node_def make_board_def make_tree_object_def grow_def)

lemmas grow_constructs = moves_basic [OF grow_reflp] moves_then_with [OF grow_transp]
  moves_then_do [OF grow_transp] moves_only_if [OF grow_reflp]
  moves_in_order [OF grow_reflp grow_transp] moves_for_each [OF grow_reflp grow_transp]

declare grow_constructs [grow_intros]

lemma grow_ended [simp]: "moves grow (Pair r)"
  by (simp add: moves_def grow_def)

lemma grow_all_results [grow_intros]:
  "(\<And>m. m \<in> set ms \<Longrightarrow> moves grow m) \<Longrightarrow> moves grow (all_results ms)"
  by (induction ms) (auto intro!: grow_intros)

lemma grow_set_context [grow_intros]: "moves grow (set_context a t b rec)"
  unfolding set_context_def by (intro grow_intros) (simp add: core_def)

lemma grow_number_node [grow_intros]: "moves grow (number_node t a)"
  unfolding number_node_def by (rule moves_grow_change) (auto simp: put_node_def put_tree_def core_def)

lemma grow_inherit_nodes [grow_intros]: "moves grow (inherit_nodes t b rec root)"
proof (induction root)
  case (Node a k cs sub)
  then show ?case
    by (cases sub) (auto intro!: grow_intros simp: fsts.simps)
qed

lemma grow_visit_nodes [grow_intros]: "moves grow (visit_nodes t b rec root)"
proof (induction root)
  case (Node a k cs sub)
  show ?case
    using Node.IH(1) by (cases sub) (auto intro!: grow_intros)
qed

lemma grow_make_tree [grow_intros]: "moves grow (make_tree f2d root name board logger)"
  unfolding make_tree_def
  by (auto intro!: grow_intros moves_grow_change split: option.split)

lemma grow_set_port [grow_intros]: "moves grow (set_port env a ports p)"
  by (auto simp: set_port_def core_def Let_def intro!: grow_intros
      split: prod.split option.split json.split port_type.split)

lemma grow_of_json [grow_intros]: "moves grow (of_json r)"
  by (auto simp: of_json_def intro!: grow_intros split: sum.split)

lemma grow_input_string [grow_intros]: "moves grow (input_string a name)"
  unfolding input_string_def by (intro grow_intros)

section \<open>Building\<close>

text \<open>\<open>builds f m\<close>: \<open>m\<close> returns objects whose nodes, \<open>f\<close> of the result, are distinct, new and pristine.\<close>

definition builds :: "('r \<Rightarrow> addr list) \<Rightarrow> ('w, 'r) bt_op \<Rightarrow> bool" where
  "builds f m \<longleftrightarrow> moves grow m \<and>
     (\<forall>s r t. m s = (Inr r, t) \<longrightarrow> distinct (f r) \<and> set (f r) \<subseteq> {fresh s..<fresh t} \<and>
        (\<forall>x \<in> set (f r). pristine (nodes t x)))"

lemma buildsD:
  assumes "builds f m" and "m s = (Inr r, t)"
  shows "grow s t" and "distinct (f r)" and "set (f r) \<subseteq> {fresh s..<fresh t}"
    and "\<And>x. x \<in> set (f r) \<Longrightarrow> pristine (nodes t x)"
  using assms unfolding builds_def moves_def by (metis snd_conv, blast+)

lemma builds_none: "moves grow m \<Longrightarrow> (\<And>s r t. m s = (Inr r, t) \<Longrightarrow> f r = []) \<Longrightarrow> builds f m"
  by (auto simp: builds_def)

text \<open>Two constructions one after the other.\<close>

lemma builds_then:
  assumes m: "builds f m" and k: "\<And>r. builds (g r) (k r)"
    and h: "\<And>r s v t. k r s = (Inr v, t) \<Longrightarrow> h v = f r @ g r v"
  shows "builds h (then_with m k)"
  unfolding builds_def
proof (intro conjI allI impI)
  show "moves grow (then_with m k)"
    using m k by (auto simp: builds_def intro!: grow_intros)
  fix s v u
  assume "then_with m k s = (Inr v, u)"
  then obtain r t where mr: "m s = (Inr r, t)" and kv: "k r t = (Inr v, u)"
    by (auto simp: run_then_with split: prod.splits sum.splits)
  note M = buildsD [OF m mr] and K = buildsD [OF k kv]
  have old: "core (nodes u x) = core (nodes t x)" if "x \<in> set (f r)" for x
    using that M(3) K(1) by (auto simp: grow_def)
  have disj: "set (f r) \<inter> set (g r v) = {}"
    using M(3) K(3) by fastforce
  show "distinct (h v)"
    using h [OF kv] M(2) K(2) disj by simp
  show "set (h v) \<subseteq> {fresh s..<fresh u}"
    using h [OF kv] M(1,3) K(1,3) by (fastforce simp: grow_def)
  show "\<forall>x \<in> set (h v). pristine (nodes u x)"
    using h [OF kv] M(4) K(4) old by (auto simp: pristine_def)
qed

text \<open>Steps that make no nodes before and after a construction.\<close>

lemma builds_after:
  assumes "moves grow m" and "\<And>r. builds h (k r)"
  shows "builds h (then_with m k)"
  by (rule builds_then [where f = "\<lambda>_. []" and g = "\<lambda>_. h"])
    (use assms in \<open>auto intro: builds_none\<close>)

lemma builds_before:
  assumes "builds f m" and "\<And>r. moves grow (k r)" and "\<And>r s v t. k r s = (Inr v, t) \<Longrightarrow> h v = f r"
  shows "builds h (then_with m k)"
  by (rule builds_then [where f = f and g = "\<lambda>_ _. []"])
    (use assms in \<open>auto intro: builds_none\<close>)

lemma builds_throw: "builds f (throw e)"
  by (rule builds_none) (auto intro: grow_intros)

lemma builds_ended [simp]: "builds f (Pair (Inl e))"
  by (rule builds_none) auto

lemma builds_json: "(\<And>r. builds h (k r)) \<Longrightarrow> builds h (then_with (of_json x) k)"
  by (rule builds_after [OF grow_of_json])

lemma builds_all_results:
  assumes "\<And>m. m \<in> set ms \<Longrightarrow> builds f m"
  shows "builds (\<lambda>rs. concat (map f rs)) (all_results ms)"
  using assms
proof (induction ms)
  case Nil
  show ?case
    by (rule builds_none) (auto intro: grow_intros)
next
  case (Cons m ms)
  have "builds (\<lambda>rs. concat (map f (tl rs))) (then_with (all_results ms) (\<lambda>as. give (a # as)))" for a
    by (rule builds_before [where f = "\<lambda>rs. concat (map f rs)"])
      (use Cons in \<open>auto intro: grow_intros\<close>)
  then show ?case
    unfolding all_results.simps
    by (intro builds_then [where f = f and g = "\<lambda>_ rs. concat (map f (tl rs))"])
      (use Cons.prems in \<open>auto simp: run_then_with split: prod.splits sum.splits\<close>)
qed

definition sub_addrs :: "(addr \<times> 'a shape) option \<Rightarrow> addr list" where
  "sub_addrs sub = (case sub of None \<Rightarrow> [] | Some tr \<Rightarrow> addrs (snd tr))"

definition parts_addrs :: "'a shape list \<times> (addr \<times> 'a shape) option \<Rightarrow> addr list" where
  "parts_addrs p = concat (map addrs (fst p)) @ sub_addrs (snd p)"

lemma builds_nothing: "builds parts_addrs (give ([], None))"
  by (rule builds_none) (auto intro: grow_intros simp: sub_addrs_def parts_addrs_def)

lemma builds_kids:
  "(\<And>j. builds addrs (build j)) \<Longrightarrow>
   builds parts_addrs (then_with (all_results (map build arr)) (\<lambda>cs. give (cs, None)))"
  by (rule builds_before [OF builds_all_results])
    (auto intro: grow_intros simp: sub_addrs_def parts_addrs_def)

lemma builds_kid:
  "(\<And>j. builds addrs (build j)) \<Longrightarrow>
   builds parts_addrs (then_with (build c) (\<lambda>s. give ([s], None)))"
  by (rule builds_before) (auto intro: grow_intros simp: sub_addrs_def parts_addrs_def)

lemma builds_inline:
  "(\<And>j. builds (\<lambda>tr. addrs (snd tr)) (inner j)) \<Longrightarrow>
   builds parts_addrs (then_with (inner sj) (\<lambda>tr. give ([], Some tr)))"
  by (rule builds_before) (auto intro: grow_intros simp: sub_addrs_def parts_addrs_def)

lemma builds_node_parts:
  assumes "\<And>j. builds addrs (build j)" and "\<And>j. builds (\<lambda>tr. addrs (snd tr)) (inner j)"
  shows "builds parts_addrs (node_parts build inner name ty j)"
  unfolding node_parts_def
  using builds_nothing builds_kids [OF assms(1)] builds_kid [OF assms(1)] builds_inline [OF assms(2)]
  by (auto intro!: builds_throw builds_json split: node_type.split list.split)

lemma builds_no_sub: "builds sub_addrs (give None)"
  by (rule builds_none) (auto intro: grow_intros simp: sub_addrs_def)

lemma builds_some_sub:
  "(\<And>j. builds (\<lambda>tr. addrs (snd tr)) (inner j)) \<Longrightarrow>
   builds sub_addrs (then_with (inner tj) (\<lambda>tr. give (Some tr)))"
  by (rule builds_before) (auto intro: grow_intros simp: sub_addrs_def)

lemma builds_registered_sub:
  assumes "\<And>j. builds (\<lambda>tr. addrs (snd tr)) (inner j)"
  shows "builds (\<lambda>sub'. if sub = None then sub_addrs sub' else []) (registered_sub fac inner name a sub)"
proof (cases "sub = None")
  case True
  then show ?thesis
    unfolding registered_sub_def using builds_no_sub builds_some_sub [OF assms]
    by (auto intro!: builds_throw builds_after [OF grow_input_string] split: option.split)
qed (auto intro!: builds_none grow_intros simp: registered_sub_def)

lemma registered_sub_given:
  "registered_sub fac inner name a (Some tr) s = (Inr sub', t) \<Longrightarrow> sub' = Some tr"
  by (simp add: registered_sub_def)

lemma builds_make_node: "builds (\<lambda>a. [a]) (make_node name ty)"
  using grow_make(1) [of name ty]
  by (auto simp: builds_def make_node_def pristine_def core_def new_node_def)

fun shape_sub :: "'a shape \<Rightarrow> (addr \<times> 'a shape) option" where
  "shape_sub (Node a k cs sub) = sub"

lemma build_finish:
  assumes "\<And>j. builds (\<lambda>tr. addrs (snd tr)) (inner j)" and "moves grow ports"
  shows "builds (\<lambda>root. if sub = None then sub_addrs (shape_sub root) else [])
    (then_do ports (then_with (registered_sub fac inner name a sub) (\<lambda>sub'. give (Node a k cs sub'))))"
  unfolding then_do_def
  by (intro builds_after builds_before [OF builds_registered_sub])
    (use assms in \<open>auto intro: grow_intros\<close>)

lemma finish_result:
  assumes "then_do ports (then_with (registered_sub fac inner name a sub) (\<lambda>sub'. give (Node a k cs sub'))) s =
    (Inr root, t)"
  shows "\<exists>sub'. root = Node a k cs sub' \<and> (sub \<noteq> None \<longrightarrow> sub' = sub)"
  using assms
  by (cases sub) (auto simp: eff_run dest: registered_sub_given split: prod.splits sum.splits)

lemma build_node_builds:
  assumes "\<And>j. builds addrs (build j)" and "\<And>j. builds (\<lambda>tr. addrs (snd tr)) (inner j)"
    and "moves grow (ports a)"
  shows "builds (\<lambda>root. tl (addrs root)) (then_with (node_parts build inner name ty j) (\<lambda>(cs, sub).
    then_do (ports a) (then_with (registered_sub fac inner name a sub) (\<lambda>sub'. give (Node a k cs sub')))))"
  by (rule builds_then [OF builds_node_parts [OF assms(1,2)],
        where g = "\<lambda>p root. if snd p = None then sub_addrs (shape_sub root) else []"])
    (auto intro!: build_finish assms dest!: finish_result simp: parts_addrs_def sub_addrs_def split: option.splits)

theorem build_builds:
  "(\<forall>j. builds addrs (build_node n f2d env fac j :: ('w, 'a shape) bt_op)) \<and>
   (\<forall>board logger j. builds (\<lambda>tr. addrs (snd tr))
      (build_tree n f2d env fac board logger j :: ('w, addr \<times> 'a shape) bt_op))"
proof (induction n)
  case 0
  then show ?case
    by simp
next
  case (Suc n)
  have node: "builds addrs (build_node (Suc n) f2d env fac j :: ('w, 'a shape) bt_op)" for j
  proof -
    have "builds addrs (then_with (make_node name ty) (\<lambda>a.
        then_with (node_parts (build_node n f2d env fac) (build_tree n f2d env fac None False) name ty j)
          (\<lambda>(cs, sub). then_do (ports a)
            (then_with (registered_sub fac (build_tree n f2d env fac None False) name a sub)
              (\<lambda>sub'. give (Node a k cs sub'))))) :: ('w, 'a shape) bt_op)"
      if "\<And>a. moves grow (ports a)" for name ty ports k
      by (rule builds_then [OF builds_make_node, where g = "\<lambda>a root. tl (addrs root)"])
        (use Suc that in \<open>auto intro!: build_node_builds dest!: finish_result
          simp: run_then_with split: prod.splits sum.splits\<close>)
    note step = this
    show ?thesis
      by (auto simp: Let_def intro!: builds_throw step grow_intros split: option.split)
  qed
  have "builds (\<lambda>tr. addrs (snd tr))
      (build_tree (Suc n) f2d env fac board logger j :: ('w, addr \<times> 'a shape) bt_op)" for board logger j
  proof -
    have "builds (\<lambda>tr. addrs (snd tr)) (then_with (build_node n f2d env fac rj) (\<lambda>root.
        then_with (make_tree f2d root name board logger) (\<lambda>t. give (t, root))) :: ('w, addr \<times> 'a shape) bt_op)"
      for rj name
      by (rule builds_before [where f = addrs])
        (use Suc in \<open>auto intro: grow_intros simp: run_then_with split: prod.splits sum.splits\<close>)
    then show ?thesis
      by (auto simp: Let_def intro!: builds_throw builds_json)
  qed
  with node show ?case
    by blast
qed

section \<open>Living trees\<close>

fun kid_counts :: "'a shape \<Rightarrow> (addr \<times> nat) list" where
  "kid_counts (Node a k cs sub) =
     (a, length cs) # concat (map kid_counts cs) @
     (case sub of None \<Rightarrow> [] | Some tr \<Rightarrow> kid_counts (snd tr))"

definition arity :: "'a shape \<Rightarrow> addr \<Rightarrow> nat option" where
  "arity root = map_of (kid_counts root)"

lemma kid_counts_addrs: "map fst (kid_counts root) = addrs root"
proof (induction root)
  case (Node a k cs sub)
  have "concat (map (map fst \<circ> kid_counts) cs) = concat (map addrs cs)"
    using Node.IH(1) by (intro arg_cong [where f = concat] map_cong) auto
  then show ?case
    using Node.IH(2) by (auto simp: map_concat split: option.split)
qed

lemma arities_of_counts:
  "distinct (map fst m) \<Longrightarrow> set (kid_counts root) \<subseteq> set m \<Longrightarrow> arities (map_of m) root"
proof (induction root)
  case (Node a k cs sub)
  have "list_all (arities (map_of m)) cs"
    using Node by (fastforce simp: list_all_iff)
  moreover have "arities (map_of m) (snd tr)" if "sub = Some tr" for tr
    using Node that by (cases tr) (auto simp: fsts.simps)
  ultimately show ?case
    using Node.prems by (auto split: option.split)
qed

lemma arities_arity: "distinct (addrs root) \<Longrightarrow> arities (arity root) root"
  unfolding arity_def by (rule arities_of_counts) (simp_all add: kid_counts_addrs)

text \<open>The calls a program makes on a tree.\<close>

datatype bt_call = C_tick | C_reset | C_send i32 "any option" | C_clear | C_pause | C_resume

fun do_call :: "('a, 'w) env \<Rightarrow> addr \<Rightarrow> 'a shape \<Rightarrow> bt_call \<Rightarrow> ('w, unit) bt_op" where
  "do_call env t root C_tick = then_with (bt_tick env t root) (\<lambda>_. give ())"
| "do_call env t root C_reset = bt_reset root"
| "do_call env t root (C_send ty d) = send_event env t ty d"
| "do_call env t root C_clear = clear_events t"
| "do_call env t root C_pause = pause t"
| "do_call env t root C_resume = resume t"

lemma do_call_sound:
  assumes "quiet_env env ar" and "distinct (addrs root)" and "arities ar root"
  shows "sound ar (set (addrs root)) (\<lambda>_. True) (do_call env t root c)"
proof (cases c)
  case C_tick
  have "ticks_sound ar (set (addrs root)) (bt_tick env t root)"
    unfolding bt_tick_def using assms by (intro tree_tick_sound quiet_env.tick_sound)
  then show ?thesis
    using C_tick by (auto intro!: sound_then_with sound_give)
next
  case C_reset
  then show ?thesis
    by (simp add: bt_reset_def reset_sound)
qed (auto simp: send_event_def clear_events_def pause_def resume_def intro!: sound_intros)

text \<open>Property C12. Every tree the factory builds from JSON lives as the life cycle says: its nodes are new
  and distinct objects, and after any sequence of ticks, resets, events, pauses and resumptions
  that return, a node is started exactly if its last status was \<open>Running\<close>; no node that existed
  before changes its flag or status.\<close>

theorem built_tree_lives:
  assumes "build_tree n f2d env fac board logger j s = (Inr (t, root), s1)"
    and "quiet_env env (arity root)"
    and "for_each calls (do_call env t root) s1 = (Inr (), s2)"
  shows "distinct (addrs root) \<and> set (addrs root) \<subseteq> {fresh s..<fresh s1} \<and>
    steady (arity root) (set (addrs root)) s2 \<and>
    (\<forall>x < fresh s. life (nodes s2 x) = life (nodes s x))"
proof -
  have "builds (\<lambda>tr. addrs (snd tr)) (build_tree n f2d env fac board logger j)"
    using build_builds by blast
  note B = buildsD [OF this assms(1), simplified]
  have ok: "arities (arity root) root"
    using B(2) by (rule arities_arity)
  have s1: "steady (arity root) (set (addrs root)) s1"
    unfolding steady_def
  proof (intro conjI ballI allI)
    fix x
    show "steady_node (nodes s1 x)" if "x \<in> set (addrs root)"
      using B(4) that by (simp add: pristine_def core_def steady_node_def)
    show "tidy (arity root) x (nodes s1 x)"
    proof (cases "x \<in> set (addrs root)")
      case True
      then show ?thesis
        using B(4) by (simp add: pristine_def core_def tidy_def)
    next
      case False
      then have "arity root x = None"
        by (simp add: arity_def map_of_eq_None_iff flip: kid_counts_addrs)
      then show ?thesis
        by (simp add: tidy_def)
    qed
  qed
  have "sound (arity root) (set (addrs root)) (\<lambda>_. True) (for_each calls (do_call env t root))"
    unfolding for_each_def by (rule sound_in_order) (use do_call_sound [OF assms(2) B(2) ok] in auto)
  from soundD [OF this s1 assms(3)] have s2: "frame (set (addrs root)) s1 s2"
    "steady (arity root) (set (addrs root)) s2"
    by simp_all
  have "life (nodes s2 x) = life (nodes s x)" if "x < fresh s" for x
  proof -
    have "life (nodes s2 x) = life (nodes s1 x)"
      using s2(1) B(3) that by (fastforce simp: frame_def)
    also have "\<dots> = life (nodes s x)"
      using B(1) that by (auto simp: grow_def core_def life_def)
    finally show ?thesis .
  qed
  then show ?thesis
    using B(2,3) s2(2) by blast
qed

definition small_tree :: json where
  "small_tree = JObject [(''root'', JObject
     [(''children'', JArray [JObject [(''name'', JString ''AlwaysSuccess'')]]), (''name'', JString ''Sequence'')])]"

definition empty_store :: "nat bt" where
  "empty_store = \<lparr>nodes = (\<lambda>_. new_node [] Action), trees = (\<lambda>_. new_tree [] 0 False), boards = (\<lambda>_. []),
     fresh = 0, n_reads = 0, n_draws = 0, bt_log = [], user = 0\<rparr>"

definition script_env :: "(unit, nat) env" where
  "script_env = user_env (\<lambda>_ n. (Some True, n)) (\<lambda>_. 0) (\<lambda>_. 0) id"

definition small_factory :: "unit factory" where
  "small_factory = register ''Sequence'' K_Sequence []
     (register ''AlwaysSuccess'' K_AlwaysSuccess [] \<lparr>f_nodes = [], f_trees = []\<rparr>)"

lemmas build_eval = register_def has_key_def omap_find_def of_json_def at_key_def get_string_def get_object_def
  get_key_def or_empty_def make_node_def node_parts_def registered_sub_def make_tree_def make_tree_object_def
  make_board_def typed_def Let_def is_object_def new_tree_def number_node_def set_context_def

lemma small_tree_built:
  "\<exists>s1 s2. build_tree 3 (\<lambda>_. 0) script_env small_factory None False small_tree empty_store =
      (Inr (3, Node 0 K_Sequence [Node 1 K_AlwaysSuccess [] None] None), s1) \<and>
    for_each [C_tick, C_reset]
      (do_call script_env 3 (Node 0 K_Sequence [Node 1 K_AlwaysSuccess [] None] None)) s1 = (Inr (), s2)"
  by (simp add: numeral_3_eq_3 small_tree_def small_factory_def empty_store_def build_eval bt_run
      for_each_def sequence_tick_def new_node_def bt_reset_def node_reset_def base_reset_def)

lemma built_tree_lives_witness:
  "\<exists>t root s1 s2.
     build_tree 3 (\<lambda>_. 0) script_env small_factory None False small_tree empty_store = (Inr (t, root), s1) \<and>
     for_each [C_tick, C_reset] (do_call script_env t root) s1 = (Inr (), s2) \<and>
     addrs root = [0, 1] \<and> steady (arity root) {0, 1} s2"
proof -
  let ?root = "Node 0 K_Sequence [Node 1 K_AlwaysSuccess [] None] None"
  obtain s1 s2 where
    built: "build_tree 3 (\<lambda>_. 0) script_env small_factory None False small_tree empty_store = (Inr (3, ?root), s1)" and
    ran: "for_each [C_tick, C_reset] (do_call script_env 3 ?root) s1 = (Inr (), s2)"
    using small_tree_built by blast
  have "quiet_env script_env (arity ?root)"
    unfolding script_env_def by (rule user_actions.quiet_env_axioms)
  from built_tree_lives [OF built this ran] show ?thesis
    using built ran by auto
qed

section \<open>The context of the nodes\<close>

text \<open>
  \<open>visited t b rec xs A s s'\<close>: the nodes in \<open>A\<close> got the context of the tree \<open>t\<close>, and those in \<open>xs\<close>
  were appended to its list and numbered on from its counter.
\<close>

definition has_context :: "addr \<Rightarrow> addr \<Rightarrow> bool \<Rightarrow> nstate \<Rightarrow> bool" where
  "has_context t b rec nd \<longleftrightarrow> n_tree nd = Some t \<and> n_board nd = Some b \<and> n_record nd = rec"

definition visited ::
    "addr \<Rightarrow> addr \<Rightarrow> bool \<Rightarrow> addr list \<Rightarrow> addr set \<Rightarrow> 'w bt \<Rightarrow> 'w bt \<Rightarrow> bool" where
  "visited t b rec xs A s s' \<longleftrightarrow>
     (\<forall>x. x \<notin> A \<longrightarrow> nodes s' x = nodes s x) \<and> (\<forall>x \<in> A. has_context t b rec (nodes s' x)) \<and>
     (\<forall>x. x \<notin> set xs \<longrightarrow> n_id (nodes s' x) = n_id (nodes s x)) \<and>
     t_nodes (trees s' t) = t_nodes (trees s t) @ xs \<and>
     t_ids (trees s' t) = t_ids (trees s t) + int (length xs) \<and>
     (distinct xs \<longrightarrow> map (\<lambda>x. n_id (nodes s' x)) xs = map (\<lambda>i. t_ids (trees s t) + int i) [0..<length xs]) \<and>
     (t_board (trees s t) = b \<longrightarrow> t_board (trees s' t) = b)"

lemma visited_ids:
  "visited t b rec xs A s s' \<Longrightarrow> distinct xs \<Longrightarrow>
   map (\<lambda>x. n_id (nodes s' x)) xs = map (\<lambda>i. t_ids (trees s t) + int i) [0..<length xs]"
  unfolding visited_def by blast

lemma visited_trans:
  assumes "visited t b rec xs A s s'" and "visited t b rec ys B s' s''"
  shows "visited t b rec (xs @ ys) (A \<union> B) s s''"
proof -
  have "has_context t b rec (nodes s'' x)" if "x \<in> A" for x
    using assms that by (cases "x \<in> B") (auto simp: visited_def)
  moreover have "map (\<lambda>x. n_id (nodes s'' x)) (xs @ ys) =
      map (\<lambda>i. t_ids (trees s t) + int i) [0..<length (xs @ ys)]" if d: "distinct (xs @ ys)"
  proof -
    have old: "map (\<lambda>x. n_id (nodes s'' x)) xs = map (\<lambda>x. n_id (nodes s' x)) xs"
      using assms(2) d by (intro map_cong) (auto simp: visited_def)
    have count: "t_ids (trees s' t) = t_ids (trees s t) + int (length xs)"
      using assms(1) unfolding visited_def by blast
    have shift: "map (\<lambda>i. t_ids (trees s t) + int i) [length xs..<length xs + length ys] =
        map (\<lambda>i. t_ids (trees s' t) + int i) [0..<length ys]"
      by (intro nth_equalityI) (auto simp: count)
    have split: "[0..<length (xs @ ys)] = [0..<length xs] @ [length xs..<length xs + length ys]"
      using upt_add_eq_append [of 0 "length xs" "length ys"] by simp
    have ids: "map (\<lambda>x. n_id (nodes s' x)) xs = map (\<lambda>i. t_ids (trees s t) + int i) [0..<length xs]"
      using visited_ids [OF assms(1)] d by simp
    have ids': "map (\<lambda>x. n_id (nodes s'' x)) ys = map (\<lambda>i. t_ids (trees s' t) + int i) [0..<length ys]"
      using visited_ids [OF assms(2)] d by simp
    show ?thesis
      by (simp only: map_append split old shift ids ids')
  qed
  moreover have "nodes s'' x = nodes s x" if "x \<notin> A \<union> B" for x
    using assms that by (simp add: visited_def)
  moreover have "n_id (nodes s'' x) = n_id (nodes s x)" if "x \<notin> set (xs @ ys)" for x
    using assms that by (simp add: visited_def)
  moreover have "\<forall>x \<in> B. has_context t b rec (nodes s'' x)"
    "t_nodes (trees s'' t) = t_nodes (trees s t) @ xs @ ys"
    "t_ids (trees s'' t) = t_ids (trees s t) + int (length (xs @ ys))"
    "t_board (trees s t) = b \<longrightarrow> t_board (trees s'' t) = b"
    using assms by (simp_all add: visited_def)
  ultimately show ?thesis
    unfolding visited_def [of _ _ _ "xs @ ys"] by blast
qed

definition visits ::
    "addr \<Rightarrow> addr \<Rightarrow> bool \<Rightarrow> addr list \<Rightarrow> addr set \<Rightarrow> ('w, unit) bt_op \<Rightarrow> bool" where
  "visits t b rec xs A m \<longleftrightarrow> (\<forall>s. \<exists>s'. m s = (Inr (), s') \<and> visited t b rec xs A s s')"

lemma visits_then:
  assumes "visits t b rec xs A m" and "visits t b rec ys B k"
  shows "visits t b rec (xs @ ys) (A \<union> B) (then_do m k)"
  unfolding visits_def
proof
  fix s
  obtain s' where m: "m s = (Inr (), s')" "visited t b rec xs A s s'"
    using assms(1) unfolding visits_def by blast
  obtain s'' where "k s' = (Inr (), s'')" "visited t b rec ys B s' s''"
    using assms(2) unfolding visits_def by blast
  then show "\<exists>u. then_do m k s = (Inr (), u) \<and> visited t b rec (xs @ ys) (A \<union> B) s u"
    using m visited_trans by (fastforce simp: run_then_do)
qed

lemma visits_nothing: "visits t b rec [] {} (give ())"
  by (simp add: visits_def visited_def)

lemma visits_in_order:
  "(\<And>c. c \<in> set cs \<Longrightarrow> visits t b rec (f c) (g c) (m c)) \<Longrightarrow>
   visits t b rec (concat (map f cs)) (\<Union>c \<in> set cs. g c) (in_order (map m cs))"
proof (induction cs)
  case (Cons c cs)
  then show ?case
    using visits_then [of t b rec "f c" "g c" "m c"] by simp
qed (use visits_nothing in simp)

lemma visits_context: "visits t b rec [] {a} (set_context a t b rec)"
  by (auto simp: visits_def visited_def set_context_def update_node_def put_node_def has_context_def)

lemma visits_number: "visits t b rec [a] {a} (then_do (number_node t a) (set_context a t b rec))"
  by (auto simp: visits_def visited_def number_node_def set_context_def update_node_def put_node_def
      put_tree_def has_context_def)

lemma visits_board: "visits t b rec [] {} (update_tree u (\<lambda>x. x\<lparr>t_board := b\<rparr>))"
  by (auto simp: visits_def visited_def update_tree_def put_tree_def)

lemma visits_sub:
  assumes "\<And>tr. sub = Some tr \<Longrightarrow> visits t b rec [] (set (addrs (snd tr)))
      (inherit_nodes t b rec (snd tr) :: ('w, unit) bt_op)"
  shows "visits t b rec [] (set (case sub of None \<Rightarrow> [] | Some tr \<Rightarrow> addrs (snd tr)))
    ((case sub of None \<Rightarrow> give ()
     | Some tr \<Rightarrow> then_do (update_tree (fst tr) (\<lambda>x. x\<lparr>t_board := b\<rparr>)) (inherit_nodes t b rec (snd tr)))
     :: ('w, unit) bt_op)"
proof (cases sub)
  case (Some tr)
  show ?thesis
    using visits_then [OF visits_board assms [OF Some]] Some by simp
qed (simp add: visits_nothing)

lemma concat_nothing: "concat (map (\<lambda>_. []) xs) = []"
  by (induction xs) simp_all

lemma visits_inherit:
  "visits t b rec [] (set (addrs root)) (inherit_nodes t b rec root :: ('w, unit) bt_op)"
proof (induction root)
  case (Node a k cs sub)
  have "visits t b rec (concat (map (\<lambda>_. []) cs)) (\<Union>c \<in> set cs. set (addrs c))
      (in_order (map (inherit_nodes t b rec) cs) :: ('w, unit) bt_op)"
    by (rule visits_in_order) (rule Node.IH(1))
  then have "visits t b rec [] (\<Union>c \<in> set cs. set (addrs c))
      (in_order (map (inherit_nodes t b rec) cs) :: ('w, unit) bt_op)"
    by (simp only: concat_nothing)
  moreover have "visits t b rec [] (set (case sub of None \<Rightarrow> [] | Some tr \<Rightarrow> addrs (snd tr)))
    ((case sub of None \<Rightarrow> give () | Some tr \<Rightarrow>
       then_do (update_tree (fst tr) (\<lambda>x. x\<lparr>t_board := b\<rparr>)) (inherit_nodes t b rec (snd tr))) :: ('w, unit) bt_op)"
    by (rule visits_sub) (rule Node.IH(2), auto simp: snds.simps)
  ultimately have "visits t b rec ([] @ [] @ [])
    ({a} \<union> (set (case sub of None \<Rightarrow> [] | Some tr \<Rightarrow> addrs (snd tr)) \<union> (\<Union>c \<in> set cs. set (addrs c))))
    (then_do (set_context a t b rec)
      (then_do (case sub of None \<Rightarrow> give () | Some tr \<Rightarrow>
         then_do (update_tree (fst tr) (\<lambda>x. x\<lparr>t_board := b\<rparr>)) (inherit_nodes t b rec (snd tr)))
        (in_order (map (inherit_nodes t b rec) cs))) :: ('w, unit) bt_op)"
    by (intro visits_then visits_context)
  then show ?case
    by (simp add: Un_commute)
qed

lemma visits_nodes:
  "visits t b rec (own root) (set (addrs root)) (visit_nodes t b rec root :: ('w, unit) bt_op)"
proof (induction root)
  case (Node a k cs sub)
  have "visits t b rec (concat (map own cs)) (\<Union>c \<in> set cs. set (addrs c))
      (in_order (map (visit_nodes t b rec) cs) :: ('w, unit) bt_op)"
    by (rule visits_in_order) (rule Node.IH(1))
  moreover have "visits t b rec [] (set (case sub of None \<Rightarrow> [] | Some tr \<Rightarrow> addrs (snd tr)))
    ((case sub of None \<Rightarrow> give () | Some tr \<Rightarrow>
       then_do (update_tree (fst tr) (\<lambda>x. x\<lparr>t_board := b\<rparr>)) (inherit_nodes t b rec (snd tr))) :: ('w, unit) bt_op)"
    by (rule visits_sub) (rule visits_inherit)
  ultimately have "visits t b rec ([a] @ [] @ concat (map own cs))
    ({a} \<union> (set (case sub of None \<Rightarrow> [] | Some tr \<Rightarrow> addrs (snd tr)) \<union> (\<Union>c \<in> set cs. set (addrs c))))
    (then_do (then_do (number_node t a) (set_context a t b rec))
      (then_do (case sub of None \<Rightarrow> give () | Some tr \<Rightarrow>
         then_do (update_tree (fst tr) (\<lambda>x. x\<lparr>t_board := b\<rparr>)) (inherit_nodes t b rec (snd tr)))
        (in_order (map (visit_nodes t b rec) cs))) :: ('w, unit) bt_op)"
    by (intro visits_then visits_number)
  then show ?case
    by (simp add: then_do_assoc Un_commute)
qed

lemma own_addrs: "set (own root) \<subseteq> set (addrs root)"
proof (induction root)
  case (Node a k cs sub)
  have "set (own c) \<subseteq> set (addrs c)" if "c \<in> set cs" for c
    using that by (rule Node.IH(1))
  then show ?case
    by fastforce
qed

lemma distinct_own: "distinct (addrs root) \<Longrightarrow> distinct (own root)"
proof (induction root)
  case (Node a k cs sub)
  have "distinct (concat (map own cs))" if "distinct (concat (map addrs cs))"
    and "\<And>c. c \<in> set cs \<Longrightarrow> distinct (addrs c) \<Longrightarrow> distinct (own c)" for cs
    using that
  proof (induction cs)
    case (Cons c cs)
    have "set (own c) \<inter> (\<Union>c \<in> set cs. set (own c)) = {}"
      using Cons.prems(1) own_addrs by (fastforce simp: disjoint_iff)
    then show ?case
      using Cons by simp
  qed simp
  from this [of cs] have "distinct (concat (map own cs))"
    using Node.prems Node.IH(1) by simp
  moreover have "a \<notin> (\<Union>c \<in> set cs. set (own c))"
    using Node.prems own_addrs by fastforce
  ultimately show ?case
    by simp
qed

text \<open>A new tree numbers its own nodes from 0 in preorder, in the order of its node list, and all
  nodes, those of the trees in its \<open>SubTree\<close>s included, refer to it for events, to its blackboard
  and to its logger.\<close>

theorem make_tree_hands_context:
  assumes "distinct (addrs root)" and "make_tree f2d root name board logger s = (Inr t, s1)"
  shows "t_nodes (trees s1 t) = own root \<and>
    map (\<lambda>a. n_id (nodes s1 a)) (own root) = map int [0..<length (own root)] \<and>
    (\<forall>a \<in> set (addrs root). n_tree (nodes s1 a) = Some t \<and>
       n_board (nodes s1 a) = Some (t_board (trees s1 t)) \<and> n_record (nodes s1 a) = logger) \<and>
    (\<forall>b. board = Some b \<longrightarrow> t_board (trees s1 t) = b)"
proof -
  obtain b s0 where b: "(case board of Some b \<Rightarrow> give b | None \<Rightarrow> make_board) s = (Inr b, s0)"
    by (cases board) (auto simp: make_board_def)
  define s2 where "s2 = s0\<lparr>trees := (trees s0)(fresh s0 := new_tree name b logger), fresh := Suc (fresh s0)\<rparr>"
  obtain s3 where visit: "visit_nodes (fresh s0) b logger root s2 = (Inr (), s3)"
    "visited (fresh s0) b logger (own root) (set (addrs root)) s2 s3"
    using visits_nodes unfolding visits_def by blast
  have same: "t = fresh s0" "nodes s1 = nodes s3" "trees s1 = trees s3"
    using assms(2) b visit(1)
    by (auto simp: make_tree_def run_then_with run_then_do run_only_if make_tree_object_def s2_def split: if_splits)
  have "distinct (own root)"
    using assms(1) by (rule distinct_own)
  moreover have "trees s2 (fresh s0) = new_tree name b logger"
    by (simp add: s2_def)
  moreover have "\<forall>b'. board = Some b' \<longrightarrow> b = b'"
    using b by (cases board) auto
  ultimately show ?thesis
    using visit(2) by (simp add: visited_def same new_tree_def has_context_def)
qed

lemma make_tree_hands_context_witness:
  "\<exists>t s1. make_tree (\<lambda>_. 0) (Node 5 K_AlwaysSuccess [] None :: unit shape) ''t'' None False empty_store = (Inr t, s1) \<and>
     t_nodes (trees s1 t) = [5] \<and> n_id (nodes s1 5) = 0 \<and> n_tree (nodes s1 5) = Some t"
proof -
  obtain t s1 where run: "make_tree (\<lambda>_. 0) (Node 5 K_AlwaysSuccess [] None :: unit shape) ''t'' None False
      empty_store = (Inr t, s1)"
    by (simp add: make_tree_def build_eval bt_run)
  show ?thesis
    using make_tree_hands_context [OF _ run] run by auto
qed

section \<open>Trees that name themselves\<close>

text \<open>
  The name a node is looked up by, and how a node in a document names the registered tree \<open>n\<close>: as a \<open>SubTree\<close> with
  the port \<open>tree_name\<close>, through one of its children, or inside the document its key \<open>subtree\<close> holds.
\<close>

definition node_name :: "json \<Rightarrow> string" where
  "node_name j =
     (if or_empty (get_string j ''name'') = [] then or_empty (get_string j ''id'') else or_empty (get_string j ''name''))"

inductive node_uses :: "'a factory \<Rightarrow> json \<Rightarrow> string \<Rightarrow> bool" for fac where
  by_name: "node_name j = ''SubTree'' \<Longrightarrow> \<not> has_key j ''subtree'' \<Longrightarrow> get_object j ''ports'' = Some m \<Longrightarrow>
    filter (\<lambda>(k, v). k = ''tree_name'') m = [(''tree_name'', JString n)] \<Longrightarrow> n \<noteq> [] \<Longrightarrow> node_uses fac j n"
| by_child: "omap_find (f_nodes fac) (node_name j) = Some r \<Longrightarrow> kind_type (r_kind r) \<noteq> Action \<Longrightarrow>
    node_name j \<noteq> ''SubTree'' \<Longrightarrow> at_key j ''children'' = Inr (JArray arr) \<Longrightarrow> c \<in> set arr \<Longrightarrow> node_uses fac c n \<Longrightarrow>
    node_uses fac j n"
| by_inner: "node_name j = ''SubTree'' \<Longrightarrow> at_key j ''subtree'' = Inr sj \<Longrightarrow> at_key sj ''root'' = Inr rj \<Longrightarrow>
    node_uses fac rj n \<Longrightarrow> node_uses fac j n"

definition tree_uses :: "'a factory \<Rightarrow> string \<Rightarrow> string \<Rightarrow> bool" where
  "tree_uses fac m n \<longleftrightarrow>
     (\<exists>j rj. get_registered_tree fac m = Some j \<and> at_key j ''root'' = Inr rj \<and> node_uses fac rj n)"

definition standard_subtree :: "'a factory \<Rightarrow> bool" where
  "standard_subtree fac \<longleftrightarrow>
     omap_find (f_nodes fac) ''SubTree'' = Some \<lparr>r_kind = K_SubTree, r_ports = [(''tree_name'', P_string)]\<rparr>"

text \<open>What ran when a composed operation returned.\<close>

lemma then_with_returns:
  assumes "then_with m f s = (Inr v, t)"
  obtains r u where "m s = (Inr r, u)" "f r u = (Inr v, t)"
  using assms by (auto simp: run_then_with split: prod.splits sum.splits)

lemma then_do_returns:
  assumes "then_do m f s = (Inr v, t)"
  obtains r u where "m s = (Inr r, u)" "f u = (Inr v, t)"
  using assms by (auto simp: run_then_do split: prod.splits sum.splits)

lemma all_results_returns:
  "all_results (map f xs) s = (Inr rs, t) \<Longrightarrow> x \<in> set xs \<Longrightarrow> \<exists>u r v. f x u = (Inr r, v)"
proof (induction xs arbitrary: s rs)
  case (Cons y ys)
  from Cons.prems(1) obtain r u rs' where "f y s = (Inr r, u)" "all_results (map f ys) u = (Inr rs', t)"
    by (auto simp: run_then_with split: prod.splits sum.splits)
  then show ?case
    using Cons.IH Cons.prems(2) by auto
qed simp

lemma for_each_skips:
  "(\<And>x. x \<in> set xs \<Longrightarrow> \<not> P x \<Longrightarrow> f x = give ()) \<Longrightarrow> for_each xs f s = for_each (filter P xs) f s"
proof (induction xs arbitrary: s)
  case (Cons x xs)
  then show ?case
    by (auto simp: run_then_do for_each_def split: prod.splits sum.splits)
qed (simp add: for_each_def)

lemma at_key_has: "at_key j k = Inr v \<Longrightarrow> has_key j k"
  by (auto simp: at_key_def has_key_def split: json.splits option.splits)

text \<open>The parts of a node that was built.\<close>

lemma node_built:
  assumes "build_node k f2d env fac j s = (Inr sh, t)"
  obtains k' r a u cs sub u1 u2 where "k = Suc k'" "omap_find (f_nodes fac) (node_name j) = Some r"
    "make_node (node_name j) (kind_type (r_kind r)) s = (Inr a, u)"
    "node_parts (build_node k' f2d env fac) (build_tree k' f2d env fac None False) (node_name j) (kind_type (r_kind r)) j u =
      (Inr (cs, sub), u1)"
    "(case get_object j ''ports'' of None \<Rightarrow> give () | Some m \<Rightarrow> for_each m (set_port env a (r_ports r))) u1 = (Inr (), u2)"
    "\<exists>v. registered_sub fac (build_tree k' f2d env fac None False) (node_name j) a sub u2 = (Inr v, t)"
proof (cases k)
  case (Suc k')
  show ?thesis
    using assms that [OF Suc]
    by (auto simp: Suc Let_def node_name_def split: if_splits option.splits elim!: then_with_returns then_do_returns)
qed (use assms in simp)

text \<open>A node that uses a tree is built only after that tree, with less fuel.\<close>

definition built_before :: "nat \<Rightarrow> (u32 \<Rightarrow> f64) \<Rightarrow> ('a, 'w) env \<Rightarrow> 'a factory \<Rightarrow> string \<Rightarrow> bool" where
  "built_before k f2d env fac n \<longleftrightarrow>
     (\<exists>i tj u tr v. i < k \<and> get_registered_tree fac n = Some tj \<and> build_tree i f2d env fac None False tj u = (Inr tr, v))"

lemma built_before_Suc: "built_before k f2d env fac n \<Longrightarrow> k \<le> l \<Longrightarrow> built_before l f2d env fac n"
  unfolding built_before_def using order_less_le_trans by blast

lemma named_tree_built:
  assumes "for_each m (set_port env a [(''tree_name'', P_string)]) u1 = (Inr (), u2)"
    and "make_node name ty s = (Inr a, u1)"
    and "filter (\<lambda>(k, v). k = ''tree_name'') m = [(''tree_name'', JString n)]" and "n \<noteq> []"
    and "registered_sub fac inner ''SubTree'' a None u2 = (Inr sub, t)"
  shows "\<exists>tj u tr v. get_registered_tree fac n = Some tj \<and> inner tj u = (Inr tr, v)"
proof -
  have "for_each m (set_port env a [(''tree_name'', P_string)]) u1 =
      for_each (filter (\<lambda>(k, v). k = ''tree_name'') m) (set_port env a [(''tree_name'', P_string)]) u1"
    by (rule for_each_skips) (auto simp: set_port_def)
  then have u2: "u2 = put_node a (\<lambda>nd. nd\<lparr>n_data := any_set ''tree_name'' (AnyString n) (n_data nd)\<rparr>) u1"
    using assms(1) by (simp add: assms(3) for_each_def set_port_def update_node_def)
  have "input_string a ''tree_name'' u2 = (Inr (Some n), u2)"
    using assms(2,4)
    by (cases n) (auto simp: u2 make_node_def input_string_def put_node_def get_input_def new_node_def try_str_def any_set_def
        any_get_def omap_find_def)
  then show ?thesis
    using assms(4,5) by (auto simp: registered_sub_def run_then_with split: option.splits prod.splits sum.splits)
qed

lemma node_needs:
  "node_uses fac j n \<Longrightarrow> standard_subtree fac \<Longrightarrow> build_node k f2d env fac j s = (Inr sh, t) \<Longrightarrow>
    built_before k f2d env fac n"
proof (induction arbitrary: k s sh t rule: node_uses.induct)
  case (by_name j m n)
  from by_name.prems(2) show ?case
  proof (cases rule: node_built)
    case built: (1 k' r a u cs sub u1 u2)
    have r: "r_kind r = K_SubTree" "r_ports r = [(''tree_name'', P_string)]"
      using built(2) by_name by (simp_all add: standard_subtree_def)
    have parts: "sub = None" "u1 = u"
      using built(4) by_name by (simp_all add: r node_parts_def)
    obtain v where "registered_sub fac (build_tree k' f2d env fac None False) ''SubTree'' a None u2 = (Inr v, t)"
      using built(6) by (auto simp: parts by_name(1))
    moreover have "for_each m (set_port env a [(''tree_name'', P_string)]) u = (Inr (), u2)"
      using built(5) by_name(3) by (simp add: r parts)
    ultimately show ?thesis
      using named_tree_built [OF _ built(3) by_name(4,5)] built(1) unfolding built_before_def by blast
  qed
next
  case (by_child j r arr c n)
  from by_child.prems(2) show ?case
  proof (cases rule: node_built)
    case built: (1 k' r' a u cs sub u1 u2)
    have "r' = r"
      using built(2) by_child by simp
    then obtain u' c' v where "build_node k' f2d env fac c u' = (Inr c', v)"
      using built(4) by_child
      by (auto simp: node_parts_def of_json_def run_then_with split: node_type.splits if_splits prod.splits sum.splits list.splits
          dest!: all_results_returns)
    then show ?thesis
      using by_child.IH [OF by_child.prems(1)] built_before_Suc [of k' f2d env fac n k] built(1) by simp
  qed
next
  case (by_inner j sj rj n)
  from by_inner.prems(2) show ?case
  proof (cases rule: node_built)
    case built: (1 k' r a u cs sub u1 u2)
    have r: "r_kind r = K_SubTree"
      using built(2) by_inner by (simp add: standard_subtree_def)
    obtain tr v where inner: "build_tree k' f2d env fac None False sj u = (Inr tr, v)"
      using built(4) by_inner at_key_has [OF by_inner(2)]
      by (auto simp: r node_parts_def of_json_def run_then_with split: prod.splits sum.splits)
    obtain i where "k' = Suc i"
      using inner by (cases k') simp_all
    then obtain x y where "build_node i f2d env fac rj u = (Inr x, y)"
      using inner by_inner(3) by (auto simp: of_json_def Let_def elim!: then_with_returns split: if_splits)
    then show ?thesis
      using by_inner.IH [OF by_inner.prems(1)] built_before_Suc [of i f2d env fac n k] built(1) \<open>k' = Suc i\<close> by simp
  qed
qed

lemma tree_needs:
  assumes "tree_uses fac m n" and "standard_subtree fac" and "get_registered_tree fac m = Some tj"
    and "build_tree k f2d env fac board logger tj s = (Inr tr, t)"
  shows "built_before k f2d env fac n"
proof -
  obtain rj where rj: "at_key tj ''root'' = Inr rj" "node_uses fac rj n"
    using assms(1,3) by (auto simp: tree_uses_def)
  obtain i where i: "k = Suc i"
    using assms(4) by (cases k) simp_all
  then obtain x y where "build_node i f2d env fac rj s = (Inr x, y)"
    using assms(4) rj(1) by (auto simp: of_json_def Let_def elim!: then_with_returns split: if_splits)
  from node_needs [OF rj(2) assms(2) this] show ?thesis
    by (rule built_before_Suc) (simp add: i)
qed

lemma cycle_goes_on:
  "R\<^sup>*\<^sup>* m n \<Longrightarrow> R\<^sup>+\<^sup>+ n n \<Longrightarrow> \<exists>m'. R m m' \<and> R\<^sup>*\<^sup>* m' n"
  by (metis converse_rtranclpE tranclpD)

lemma never_built:
  "(tree_uses fac)\<^sup>*\<^sup>* m n \<Longrightarrow> (tree_uses fac)\<^sup>+\<^sup>+ n n \<Longrightarrow> standard_subtree fac \<Longrightarrow>
    get_registered_tree fac m = Some tj \<Longrightarrow> build_tree k f2d env fac board logger tj s \<noteq> (Inr tr, t)"
proof (induction k arbitrary: m tj board logger s tr t rule: less_induct)
  case (less k)
  show ?case
  proof
    assume built: "build_tree k f2d env fac board logger tj s = (Inr tr, t)"
    obtain m' where m': "tree_uses fac m m'" "(tree_uses fac)\<^sup>*\<^sup>* m' n"
      using cycle_goes_on [OF less.prems(1,2)] by blast
    obtain i tj' u tr' v where "i < k" "get_registered_tree fac m' = Some tj'" "build_tree i f2d env fac None False tj' u = (Inr tr', v)"
      using tree_needs [OF m'(1) less.prems(3,4) built] unfolding built_before_def by blast
    then show False
      using less.IH [OF _ m'(2) less.prems(2,3)] by blast
  qed
qed

text \<open>
  Property C16. A registered tree that names itself is never built: if the document of a tree names, in a \<open>SubTree\<close>
  anywhere among its nodes or in the documents inside it, a tree that names a next one and so on back to a tree on
  this way, then building it from the factory throws and returns no tree, whatever depth the stack allows.
\<close>

theorem self_reference_never_builds:
  assumes "(tree_uses fac)\<^sup>*\<^sup>* m n" and "(tree_uses fac)\<^sup>+\<^sup>+ n n" and "standard_subtree fac"
  shows "\<exists>e. fst (build_from_registered_tree k f2d env fac m board logger s) = Inl e"
proof (cases "get_registered_tree fac m")
  case (Some tj)
  then show ?thesis
    using never_built [OF assms Some, of k f2d env board logger s]
    by (cases "build_tree k f2d env fac board logger tj s"; cases "fst (build_tree k f2d env fac board logger tj s)")
      (auto simp: build_from_registered_tree_def)
qed (simp add: build_from_registered_tree_def)

text \<open>Two trees that name each other, one of them below a \<open>Sequence\<close>.\<close>

definition ping_tree :: json where
  "ping_tree = JObject [(''root'', JObject [(''children'', JArray [JObject [(''id'', JString ''AlwaysSuccess'')],
     JObject [(''id'', JString ''SubTree''), (''ports'', JObject [(''tree_name'', JString ''pong'')])]]),
     (''id'', JString ''Sequence'')])]"

definition pong_tree :: json where
  "pong_tree = JObject [(''root'', JObject
     [(''name'', JString ''SubTree''), (''ports'', JObject [(''tree_name'', JString ''ping'')])])]"

lemma nodes_register_tree: "f_nodes (register_tree name j fac) = f_nodes fac"
  by (simp add: register_tree_def Let_def)

lemma nodes_registered:
  "omap_find (f_nodes new_factory) ''SubTree'' =
     Some \<lparr>r_kind = K_SubTree, r_ports = [(''tree_name'', P_string)]\<rparr>"
  "omap_find (f_nodes new_factory) ''Sequence'' = Some \<lparr>r_kind = K_Sequence, r_ports = []\<rparr>"
  by (simp_all add: new_factory_def register_def omap_find_def)

lemma no_names: "get_string ping_tree ''name'' = None" "get_string pong_tree ''name'' = None"
  by (simp_all add: ping_tree_def pong_tree_def build_eval)

lemma self_reference_never_builds_witness:
  "\<exists>e. fst (build_from_registered_tree 100 (\<lambda>_. 0) script_env
       (register_tree ''ping'' ping_tree (register_tree ''pong'' pong_tree new_factory)) ''ping'' None False empty_store) = Inl e"
proof -
  let ?fac = "register_tree ''ping'' ping_tree (register_tree ''pong'' pong_tree new_factory)"
  let ?sub = "JObject [(''id'', JString ''SubTree''), (''ports'', JObject [(''tree_name'', JString ''pong'')])]"
  let ?leaf = "JObject [(''id'', JString ''AlwaysSuccess'')]"
  let ?root = "JObject [(''children'', JArray [?leaf, ?sub]), (''id'', JString ''Sequence'')]"
  let ?pong = "JObject [(''name'', JString ''SubTree''), (''ports'', JObject [(''tree_name'', JString ''ping'')])]"
  have trees: "get_registered_tree ?fac ''ping'' = Some ping_tree" "get_registered_tree ?fac ''pong'' = Some pong_tree"
    by (simp_all add: register_tree_def get_registered_tree_def no_names Let_def or_empty_def omap_find_set)
  have nodes: "omap_find (f_nodes ?fac) ''Sequence'' = Some \<lparr>r_kind = K_Sequence, r_ports = []\<rparr>" "standard_subtree ?fac"
    by (simp_all add: nodes_register_tree standard_subtree_def nodes_registered)
  have sub: "node_uses ?fac ?sub ''pong''"
    by (rule node_uses.by_name [where m = "[(''tree_name'', JString ''pong'')]"]) (simp_all add: node_name_def or_empty_def build_eval)
  have root: "node_name ?root = ''Sequence''" "at_key ?root ''children'' = Inr (JArray [?leaf, ?sub])"
    "at_key ping_tree ''root'' = Inr ?root"
    by (simp_all add: ping_tree_def node_name_def or_empty_def build_eval)
  have "node_uses ?fac ?root ''pong''"
  proof (rule node_uses.by_child)
    show "omap_find (f_nodes ?fac) (node_name ?root) = Some \<lparr>r_kind = K_Sequence, r_ports = []\<rparr>"
      unfolding root(1) by (rule nodes(1))
    show "at_key ?root ''children'' = Inr (JArray [?leaf, ?sub])"
      by (rule root(2))
    show "node_uses ?fac ?sub ''pong''"
      by (rule sub)
    show "node_name ?root \<noteq> ''SubTree''"
      unfolding root(1) by simp
  qed simp_all
  then have "tree_uses ?fac ''ping'' ''pong''"
    unfolding tree_uses_def using trees(1) root(3) by blast
  moreover have "tree_uses ?fac ''pong'' ''ping''"
    unfolding tree_uses_def
  proof (intro exI conjI)
    show "get_registered_tree ?fac ''pong'' = Some pong_tree"
      by (rule trees(2))
    show "at_key pong_tree ''root'' = Inr ?pong"
      by (simp add: pong_tree_def build_eval)
    show "node_uses ?fac ?pong ''ping''"
      by (rule node_uses.by_name [where m = "[(''tree_name'', JString ''ping'')]"])
        (simp_all add: node_name_def or_empty_def build_eval)
  qed
  ultimately have "(tree_uses ?fac)\<^sup>+\<^sup>+ ''ping'' ''ping''"
    by (rule tranclp_trans [OF tranclp.r_into_trancl tranclp.r_into_trancl])
  then show ?thesis
    using self_reference_never_builds [OF _ _ nodes(2), of "''ping''" "''ping''"] by blast
qed

end
