(* ===== verification/Bt_Props.thy ===== *)
theory Bt_Props
  imports Bt_Life
begin

text \<open>
  Properties of the node classes: \<open>Selector\<close> as the dual of \<open>Sequence\<close>, the attempts of \<open>Retry\<close>,
  the timing of \<open>Delay\<close>, the interruption of \<open>EventGuard\<close>, missing inputs and \<open>reset\<close>.
\<close>

section \<open>Selector and Sequence\<close>

fun flip :: "status \<Rightarrow> status" where
  "flip Success = Failure"
| "flip Failure = Success"
| "flip Running = Running"
| "flip Idle = Idle"

definition flipped :: "('w, status) bt_op \<Rightarrow> ('w, status) bt_op" where
  "flipped t = then_with t (\<lambda>s. give (flip s))"

lemma flip_eq [simp]:
  "flip s = Running \<longleftrightarrow> s = Running" "flip s = Failure \<longleftrightarrow> s = Success"
  "flip s = Success \<longleftrightarrow> s = Failure" "flip s = Idle \<longleftrightarrow> s = Idle"
  by (cases s; simp)+

lemma selector_loop_dual: "selector_loop a ts i = flipped (sequence_loop a (map flipped ts) i)"
proof (induction ts arbitrary: i)
  case Nil
  show ?case
    by (auto simp: flipped_def eff_run set_current_def update_node_def)
next
  case (Cons t ts)
  show ?case
    by (rule ext)
      (auto simp: Cons.IH flipped_def eff_run set_current_def update_node_def
        split: prod.splits sum.splits)
qed

lemma selector_tick_dual: "selector_tick a ts = flipped (sequence_tick a (map flipped ts))"
  by (rule ext) (simp add: selector_tick_def sequence_tick_def selector_loop_dual drop_map flipped_def
      node_def run_then_with)

text \<open>Property C13. \<open>Selector\<close> is \<open>Sequence\<close> with success and failure exchanged: ticking one over some
  children equals ticking the other over the children with exchanged outcomes and exchanging the
  result, in results, exceptions and every effect on the state.\<close>

theorem selector_dual_sequence:
  "on_tick env a K_Selector cs sub =
     flipped (on_tick env a K_Sequence (map (\<lambda>(t, r). (flipped t, r)) cs) sub)"
proof -
  have "map fst (map (\<lambda>(t, r). (flipped t, r)) cs) = map flipped (map fst cs)"
    by (simp add: case_prod_unfold)
  then have "on_tick env a K_Sequence (map (\<lambda>(t, r). (flipped t, r)) cs) sub =
      sequence_tick a (map flipped (map fst cs))"
    by (simp del: map_map)
  then show ?thesis
    by (simp only: on_tick.simps selector_tick_dual)
qed

section \<open>Retry\<close>

text \<open>\<open>Retry\<close>'s own members, which its child does not touch.\<close>

definition keeps_rounds :: "addr \<Rightarrow> ('w, 'r) bt_op \<Rightarrow> bool" where
  "keeps_rounds a m \<longleftrightarrow>
     (\<forall>s. count (nodes (snd (m s)) a) = count (nodes s a) \<and>
          limit (nodes (snd (m s)) a) = limit (nodes s a))"

lemma keeps_roundsD:
  "keeps_rounds a m \<Longrightarrow> m s = (x, t) \<Longrightarrow>
   count (nodes t a) = count (nodes s a) \<and> limit (nodes t a) = limit (nodes s a)"
  unfolding keeps_rounds_def by (metis snd_conv)

lemma sint_increment:
  fixes w v :: i32
  assumes "sint w < sint v"
  shows "sint (w + 1) = sint w + 1"
proof -
  have "sint v < 2 ^ 31" "- (2 ^ 31) \<le> sint w"
    using sint_lt [of v] sint_ge [of w] by simp_all
  then show ?thesis
    using assms by (simp add: sint_word_ariths signed_take_bit_int_eq_self)
qed

lemma retry_loop_rounds:
  assumes t: "keeps_rounds a t" and r: "keeps_rounds a r"
    and n: "n = nat (sint (limit (nodes s a)) - sint (count (nodes s a)))"
    and le: "sint (count (nodes s a)) \<le> sint (limit (nodes s a))"
    and run: "retry_loop a t r n s = (x, u)"
  shows "limit (nodes u a) = limit (nodes s a) \<and>
    sint (count (nodes s a)) \<le> sint (count (nodes u a)) \<and>
    sint (count (nodes u a)) \<le> sint (limit (nodes u a)) \<and>
    (x = Inr Failure \<longrightarrow> count (nodes u a) = limit (nodes u a))"
  using n le run
proof (induction n arbitrary: s)
  case 0
  then have "sint (count (nodes s a)) = sint (limit (nodes s a))"
    by simp
  then have "count (nodes s a) = limit (nodes s a)"
    by (simp add: signed_word_eqI)
  then show ?case
    using 0 by simp
next
  case (Suc n)
  have lt: "sint (count (nodes s a)) < sint (limit (nodes s a))"
    using Suc.prems(1) by simp
  obtain y s1 where ts: "t s = (y, s1)"
    by (cases "t s")
  have s1: "count (nodes s1 a) = count (nodes s a)" "limit (nodes s1 a) = limit (nodes s a)"
    using keeps_roundsD [OF t ts] by auto
  show ?case
  proof (cases "\<exists>st. y = Inr st \<and> st \<noteq> Success \<and> st \<noteq> Running")
    case False
    then have "u = s1 \<and> x \<noteq> Inr Failure"
      using Suc.prems(3) ts by (auto simp: run_then_with split: sum.splits if_splits)
    then show ?thesis
      using s1 lt by simp
  next
    case True
    define s2 where "s2 = put_node a (\<lambda>nd. nd\<lparr>count := count nd + 1\<rparr>) s1"
    obtain z s3 where rs: "r s2 = (z, s3)"
      by (cases "r s2")
    have s3: "count (nodes s3 a) = count (nodes s a) + 1" "limit (nodes s3 a) = limit (nodes s a)"
      using keeps_roundsD [OF r rs] s1 by (auto simp: s2_def put_node_def)
    have sint: "sint (count (nodes s3 a)) = sint (count (nodes s a)) + 1"
      using s3(1) sint_increment [OF lt] by simp
    show ?thesis
    proof (cases z)
      case (Inl e)
      then have "u = s3" "x = Inl e"
        using Suc.prems(3) ts rs True by (auto simp: eff_run increment_def update_node_def s2_def)
      then show ?thesis
        using s3 sint lt by simp
    next
      case (Inr v)
      have "retry_loop a t r n s3 = (x, u)"
        using Suc.prems(3) ts rs True Inr by (auto simp: eff_run increment_def update_node_def s2_def)
      moreover have "n = nat (sint (limit (nodes s3 a)) - sint (count (nodes s3 a)))"
        using Suc.prems(1) s3(2) sint by simp
      ultimately show ?thesis
        using Suc.IH [of s3] s3(2) sint lt by auto
    qed
  qed
qed

text \<open>Property C14. \<open>Retry\<close> counts its attempts: if its child leaves the counter and the limit alone and the
  counter is within the limit, it stays there without overflow whatever happens, and \<open>Retry\<close> fails
  only once the counter has reached the limit. Every tick ends (the loop needs no fuel: at most
  \<open>rounds_left\<close> attempts).\<close>

theorem retry_counts_attempts:
  assumes "keeps_rounds a t" and "keeps_rounds a r"
    and "sint (count (nodes s a)) \<le> sint (limit (nodes s a))"
    and "retry_tick a t r s = (x, u)"
  shows "limit (nodes u a) = limit (nodes s a) \<and>
    sint (count (nodes s a)) \<le> sint (count (nodes u a)) \<and>
    sint (count (nodes u a)) \<le> sint (limit (nodes u a)) \<and>
    (x = Inr Failure \<longrightarrow> count (nodes u a) = limit (nodes u a))"
proof -
  have "retry_loop a t r (nat (sint (limit (nodes s a)) - sint (count (nodes s a)))) s = (x, u)"
    using assms(4) by (simp add: retry_tick_def node_def rounds_left_def)
  from retry_loop_rounds [OF assms(1,2) refl assms(3) this] show ?thesis .
qed

definition failing_store :: "nat bt" where
  "failing_store = two_actions_state\<lparr>nodes := (\<lambda>_. (new_node ''Retry'' Decorator)\<lparr>limit := 2\<rparr>)\<rparr>"

lemma retry_counts_attempts_witness:
  "fst (retry_tick 0 (give Failure) (give ()) failing_store) = Inr Failure \<and>
   count (nodes (snd (retry_tick 0 (give Failure) (give ()) failing_store)) 0) = 2"
proof -
  have run: "fst (retry_tick 0 (give Failure) (give ()) failing_store) = Inr Failure"
  proof -
    have "rounds_left (nodes failing_store 0) = Suc (Suc 0)"
      by (simp add: rounds_left_def failing_store_def new_node_def)
    then show ?thesis
      by (simp add: retry_tick_def node_def increment_def update_node_def)
  qed
  have "count (nodes (snd (retry_tick 0 (give Failure) (give ()) failing_store)) 0) =
      limit (nodes (snd (retry_tick 0 (give Failure) (give ()) failing_store)) 0) \<and>
      limit (nodes (snd (retry_tick 0 (give Failure) (give ()) failing_store)) 0) = 2"
    using run retry_counts_attempts [of 0 "give Failure" "give ()" failing_store]
    by (cases "retry_tick 0 (give Failure) (give ()) failing_store")
      (auto simp: keeps_rounds_def failing_store_def new_node_def)
  then show ?thesis
    using run by simp
qed

section \<open>Delay\<close>

text \<open>The clock reads \<open>now\<close> and the node started at the reading \<open>start\<close>.\<close>

lemma widen_nonneg:
  assumes "0 \<le> sint i"
  shows "unat (widen i) = nat (sint i)"
proof -
  have "sint i < 2 ^ 31"
    using sint_lt [of i] by simp
  have "uint (widen i) = take_bit 64 (sint i)"
    unfolding widen_def scast_eq by (rule trans [OF uint_word_of_int_eq]) simp
  also have "\<dots> = sint i"
    by (rule take_bit_int_eq_self) (use assms \<open>sint i < 2 ^ 31\<close> in auto)
  finally have "uint (widen i) = sint i" .
  then show ?thesis
    by (simp only: unat_eq_nat_uint)
qed

lemma not_bit_small: "0 \<le> i \<Longrightarrow> i < 2147483648 \<Longrightarrow> \<not> bit (i :: int) 31"
  using take_bit_int_eq_self [of i 31] bit_take_bit_iff [of 31 i 31] by simp

lemma widen_small:
  assumes "x < 2 ^ 31"
  shows "widen (ucast x) = x"
proof -
  have "uint x < 2 ^ 31"
    using assms by (simp add: word_less_def)
  then have "sint (ucast x :: i32) = uint x"
    by (simp add: signed_ucast_eq signed_take_bit_eq_if_positive take_bit_int_eq_self
        not_bit_small)
  then show ?thesis
    unfolding widen_def by (metis scast_eq word_of_int_uint)
qed

text \<open>While the reading of the clock at which it started is below \<open>2^31\<close> milliseconds, \<open>Delay\<close>
  reports \<open>Running\<close> for \<open>delay_ms\<close> milliseconds and then ticks its child.\<close>

theorem delay_waits:
  assumes "start < 2 ^ 31" and "start \<le> clock env (n_reads s)"
    and "delay_start (nodes s a) = ucast start" and "0 \<le> sint (limit_ms (nodes s a))"
  shows "delay_tick env a t s =
    (if unat (clock env (n_reads s)) - unat start < nat (sint (limit_ms (nodes s a)))
     then (Inr Running, s\<lparr>n_reads := Suc (n_reads s)\<rparr>)
     else t (s\<lparr>n_reads := Suc (n_reads s)\<rparr>))"
proof -
  have "unat (clock env (n_reads s) - start) = unat (clock env (n_reads s)) - unat start"
    using assms(2) by (simp add: unat_sub)
  then have "clock env (n_reads s) - widen (ucast start) < widen (limit_ms (nodes s a)) \<longleftrightarrow>
      unat (clock env (n_reads s)) - unat start < nat (sint (limit_ms (nodes s a)))"
    by (simp add: word_less_nat_alt widen_small [OF assms(1)] widen_nonneg [OF assms(4)])
  then show ?thesis
    using assms(3) by (simp add: delay_tick_def read_ms_def node_def run_then_with)
qed


lemma delay_waits_witness:
  "delay_tick (user_env id (\<lambda>_. 150) (\<lambda>_. 0) id) 0 (give Success)
     (two_actions_state\<lparr>nodes := (\<lambda>_. (new_node ''Delay'' Decorator)\<lparr>delay_start := 100, limit_ms := 50\<rparr>)\<rparr>) =
   (Inr Success, two_actions_state\<lparr>nodes := (\<lambda>_. (new_node ''Delay'' Decorator)\<lparr>delay_start := 100, limit_ms := 50\<rparr>),
      n_reads := 1\<rparr>)"
  using delay_waits [of 100 "user_env id (\<lambda>_. 150) (\<lambda>_. 0) id"
      "two_actions_state\<lparr>nodes := (\<lambda>_. (new_node ''Delay'' Decorator)\<lparr>delay_start := 100, limit_ms := 50\<rparr>)\<rparr>" 0
      "give Success"]
  by (simp add: user_env_def two_actions_state_def)

text \<open>When the clock's reading at the start has bit 31 set, the \<open>int\<close> that holds it is
  negative, the difference to a later reading wraps around and \<open>Delay\<close> ticks its child at once,
  whatever \<open>delay_ms\<close> is: the delay does not work while the host has been up for 25 to 49 days.\<close>

theorem delay_ends_at_once:
  assumes "2 ^ 31 \<le> start" and "start < 2 ^ 32" and "clock env (n_reads s) < 2 ^ 63"
    and "start \<le> clock env (n_reads s)"
    and "delay_start (nodes s a) = ucast start" and "0 \<le> sint (limit_ms (nodes s a))"
  shows "delay_tick env a t s = t (s\<lparr>n_reads := Suc (n_reads s)\<rparr>)"
proof -
  let ?now = "clock env (n_reads s)"
  have u: "2 ^ 31 \<le> uint start" "uint start < 2 ^ 32"
    using assms(1,2) by (simp_all add: word_less_def word_le_def)
  then have "(uint start + 2 ^ 31) mod 2 ^ 32 = uint start - 2 ^ 31"
    using mod_pos_pos_trivial [of "uint start - 2 ^ 31" "2 ^ 32"] mod_add_self2 [of "uint start - 2 ^ 31" "2 ^ 32"]
    by (simp add: add.commute)
  then have "sint (ucast start :: i32) = uint start - 2 ^ 32"
    using u by (simp add: signed_ucast_eq signed_take_bit_eq_take_bit_shift take_bit_eq_mod)
  then have w: "widen (ucast start) = start - 2 ^ 32"
    unfolding widen_def scast_eq by simp
  have "unat (?now - widen (ucast start)) = unat (?now - start + 2 ^ 32)"
    unfolding w by (simp add: algebra_simps)
  also have "\<dots> = unat (?now - start) + 2 ^ 32"
  proof -
    have "unat (?now - start) \<le> unat ?now" "unat ?now < 2 ^ 63"
      using assms(3,4) by (simp_all add: unat_sub word_less_nat_alt)
    then show ?thesis
      by (subst unat_add_lem [THEN iffD1]) simp_all
  qed
  finally have "\<not> ?now - widen (ucast start) < widen (limit_ms (nodes s a))"
    using sint_lt [of "limit_ms (nodes s a)"] widen_nonneg [OF assms(6)] by (simp add: word_less_nat_alt)
  then show ?thesis
    using assms(5) by (simp add: delay_tick_def read_ms_def node_def run_then_with)
qed

lemma delay_ends_at_once_witness:
  "delay_tick (user_env id (\<lambda>_. 2147483649) (\<lambda>_. 0) id) 0 (give Success)
     (two_actions_state\<lparr>nodes := (\<lambda>_. (new_node ''Delay'' Decorator)
        \<lparr>delay_start := ucast (2147483648 :: u64), limit_ms := 60000\<rparr>)\<rparr>) =
   (Inr Success, two_actions_state\<lparr>nodes := (\<lambda>_. (new_node ''Delay'' Decorator)
        \<lparr>delay_start := ucast (2147483648 :: u64), limit_ms := 60000\<rparr>), n_reads := 1\<rparr>)"
  using delay_ends_at_once [of 2147483648 "user_env id (\<lambda>_. 2147483649) (\<lambda>_. 0) id"
      "two_actions_state\<lparr>nodes := (\<lambda>_. (new_node ''Delay'' Decorator)
        \<lparr>delay_start := ucast (2147483648 :: u64), limit_ms := 60000\<rparr>)\<rparr>" 0 "give Success"]
  by (simp add: user_env_def two_actions_state_def)

section \<open>EventGuard\<close>

text \<open>An event of the guarded type interrupts the child in the tick that sees it, in both
  modes: \<open>EventGuard\<close> consumes the event, resets the child instead of ticking it and returns the
  configured status.\<close>

theorem guard_interrupts_at_once:
  assumes "n_tree (nodes s a) = Some tr" and "has_event (trees s tr) (event_type (nodes s a))"
  shows "guard_tick a t r s =
    then_do r (give (interrupt_status (nodes s a)))
      (put_node a (\<lambda>nd. nd\<lparr>interrupted := True\<rparr>)
        (snd (consume_event tr (event_type (nodes s a)) s)))"
proof -
  have same: "nodes (snd (consume_event tr ty s)) = nodes s" for ty
    by (simp add: consume_event_def put_tree_def split: prod.splits)
  obtain e u where e: "consume_event tr (event_type (nodes s a)) s = (Inr e, u)"
    by (cases "take_event (event_type (nodes s a)) (t_events (trees s tr))") (auto simp: consume_event_def)
  then have "nodes u = nodes s"
    using same [of "event_type (nodes s a)"] by simp
  then show ?thesis
    using assms
    by (simp add: guard_tick_def node_def run_then_do run_then_with run_only_if e update_node_def put_node_def)
qed

definition guarded_state :: "nat bt" where
  "guarded_state = two_actions_state
     \<lparr>nodes := (\<lambda>_. (new_node ''EventGuard'' Decorator)\<lparr>n_tree := Some 7, event_type := 5\<rparr>),
      trees := (\<lambda>_. (trees two_actions_state 7)\<lparr>t_events := [\<lparr>e_type = 5, e_data = None, e_time = 1\<rparr>]\<rparr>)\<rparr>"

lemma guard_interrupts_at_once_witness:
  "\<not> immediate (nodes guarded_state 0) \<and>
   fst (guard_tick 0 (give Success) (give ()) guarded_state) = Inr Failure"
proof -
  have "guard_tick 0 (give Success) (give ()) guarded_state =
    then_do (give ()) (give (interrupt_status (nodes guarded_state 0)))
      (put_node 0 (\<lambda>nd. nd\<lparr>interrupted := True\<rparr>)
        (snd (consume_event 7 (event_type (nodes guarded_state 0)) guarded_state)))"
    by (rule guard_interrupts_at_once) (simp_all add: guarded_state_def has_event_def)
  then show ?thesis
    by (simp add: guarded_state_def new_node_def)
qed

section \<open>Missing inputs\<close>

text \<open>Property C15. A node that misses a required input throws in its first tick; but it is then marked as
  started and still \<open>Idle\<close>, so the next tick runs neither \<open>OnStart\<close> nor \<open>OnTick\<close> and the sequence
  around it takes it for a success.\<close>

theorem missing_input_becomes_success:
  assumes "a \<noteq> b" and "\<not> n_started (nodes s a)" and "\<not> n_started (nodes s b)"
    and "n_status (nodes s b) = Idle" and "n_data (nodes s b) = []" and "current (nodes s a) = 0"
  shows "let root = Node a K_Sequence [Node b K_Delay cs None] None;
             (first, s1) = tick env root s;
             (second, s2) = tick env root s1
         in first = Inl (Requires_input ''delay_ms'') \<and> second = Inr Success \<and>
            n_status (nodes s2 b) = Idle"
proof -
  let ?root = "Node a K_Sequence [Node b K_Delay cs None] None"
  define s1 where "s1 = put_node b (\<lambda>nd. nd\<lparr>n_started := True\<rparr>)
    (put_node a (\<lambda>nd. nd\<lparr>n_status := Running\<rparr>) (put_node a (\<lambda>nd. nd\<lparr>n_started := True\<rparr>) s))"
  have first: "tick env ?root s = (Inl (Requires_input ''delay_ms''), s1)"
    using assms
    by (simp add: node_tick_def node_def run_then_do run_then_with run_only_if update_node_def
        set_status_def sequence_tick_def start_defs required_def input_double_def put_node_def s1_def
        get_input_def any_get_def try_str_def omap_find_def)
  show ?thesis
    unfolding Let_def first using assms
    by (simp add: node_tick_def node_def run_then_do run_then_with run_only_if update_node_def
        set_status_def sequence_tick_def put_node_def s1_def set_current_def log_change_def)
qed

lemma missing_input_becomes_success_witness:
  "let root = Node 0 K_Sequence [Node 1 K_Delay [] None] None; env = user_env id (\<lambda>_. 0) (\<lambda>_. 0) id;
       (first, s1) = tick env root two_actions_state;
       (second, s2) = tick env root s1
   in first = Inl (Requires_input ''delay_ms'') \<and> second = Inr Success \<and> n_status (nodes s2 1) = Idle"
  using missing_input_becomes_success [of 0 1 two_actions_state "[]" "user_env id (\<lambda>_. 0) (\<lambda>_. 0) id"]
  by (simp add: two_actions_state_def new_node_def Let_def)

section \<open>Reset\<close>

text \<open>The composites among the nodes that a tree has itself.\<close>

fun composites :: "'a shape \<Rightarrow> addr list" where
  "composites (Node a k cs sub) =
     (if kind_type k = Composite then [a] else []) @ concat (map composites cs)"

definition quiet_node :: "bool \<Rightarrow> nstate \<Rightarrow> nstate" where
  "quiet_node c nd =
     nd\<lparr>n_started := False, n_status := Idle, current := (if c then 0 else current nd)\<rparr>"

definition quieted :: "addr set \<Rightarrow> addr set \<Rightarrow> 'w bt \<Rightarrow> 'w bt" where
  "quieted A C s = s\<lparr>nodes := (\<lambda>x. if x \<in> A then quiet_node (x \<in> C) (nodes s x) else nodes s x)\<rparr>"

lemma quiet_node_twice: "quiet_node c (quiet_node d nd) = quiet_node (d \<or> c) nd"
  by (simp add: quiet_node_def)

lemma quieted_twice:
  assumes "C \<subseteq> A" and "C' \<subseteq> A'"
  shows "quieted A' C' (quieted A C s) = quieted (A \<union> A') (C \<union> C') s"
proof -
  have "(if x \<in> A' then quiet_node (x \<in> C') (if x \<in> A then quiet_node (x \<in> C) nd else nd)
         else if x \<in> A then quiet_node (x \<in> C) nd else nd) =
        (if x \<in> A \<union> A' then quiet_node (x \<in> C \<union> C') nd else nd)" for x nd
  proof -
    have "x \<notin> A \<Longrightarrow> x \<notin> C" "x \<notin> A' \<Longrightarrow> x \<notin> C'"
      using assms by auto
    then show ?thesis
      by (cases "x \<in> A"; cases "x \<in> A'") (simp_all add: quiet_node_twice)
  qed
  then show ?thesis
    by (simp add: quieted_def cong: if_cong)
qed

lemma quieted_none: "quieted {} {} s = s"
  by (simp add: quieted_def)

lemma quieted_node:
  "put_node a (\<lambda>nd. nd\<lparr>n_started := False, n_status := Idle\<rparr>) s = quieted {a} {} s"
  by (auto simp: quieted_def put_node_def quiet_node_def fun_eq_iff)

lemma quieted_current:
  "a \<in> A \<Longrightarrow> put_node a (\<lambda>nd. nd\<lparr>current := 0\<rparr>) (quieted A C s) = quieted A (insert a C) s"
  by (auto simp: quieted_def put_node_def quiet_node_def fun_eq_iff)

lemma composites_own: "set (composites r) \<subseteq> set (own r)"
proof (induction r)
  case (Node a k cs sub)
  have "set (composites c) \<subseteq> set (own c)" if "c \<in> set cs" for c
    using that by (rule Node.IH)
  then show ?case
    by fastforce
qed

lemma resets_in_order:
  fixes s :: "'w bt"
  assumes "\<And>c (s :: 'w bt). c \<in> set cs \<Longrightarrow> reset c s = (Inr (), quieted (set (own c)) (set (composites c)) s)"
  shows "in_order (map reset cs) s =
    (Inr (), quieted (\<Union>c \<in> set cs. set (own c)) (\<Union>c \<in> set cs. set (composites c)) s)"
  using assms
proof (induction cs arbitrary: s)
  case (Cons c cs)
  have "(\<Union>c \<in> set cs. set (composites c)) \<subseteq> (\<Union>c \<in> set cs. set (own c))"
    using composites_own by blast
  moreover have "reset c s = (Inr (), quieted (set (own c)) (set (composites c)) s)"
    by (rule Cons.prems) simp
  moreover have "in_order (map reset cs) t = (Inr (), quieted (\<Union>c \<in> set cs. set (own c))
      (\<Union>c \<in> set cs. set (composites c)) t)" for t :: "'w bt"
    by (rule Cons.IH) (rule Cons.prems, simp)
  ultimately show ?case
    by (simp add: run_then_do quieted_twice [OF composites_own])
qed (simp add: quieted_none)

lemma reset_quieted:
  fixes s :: "'b bt"
  shows "reset root s = (Inr (), quieted (set (own root)) (set (composites root)) s)"
proof (induction root arbitrary: s)
  case (Node a k cs sub)
  let ?A = "\<Union>c \<in> set cs. set (own c)" and ?C = "\<Union>c \<in> set cs. set (composites c)"
  have sub: "?C \<subseteq> ?A"
    using composites_own by blast
  have kids: "in_order (map reset cs) s = (Inr (), quieted ?A ?C s)" for s :: "'b bt"
    by (rule resets_in_order) (rule Node.IH)
  have all: "base_reset a (map reset cs) s = (Inr (), quieted (insert a ?A) ?C s)" for s :: "'b bt"
    using kids quieted_twice [of "{}" "{a}" ?C ?A s] sub
    by (simp add: base_reset_def update_node_def quieted_node)
  show ?case
    using sub kids all quieted_twice [of ?C ?A "insert a ?C" "insert a ?A" s]
    by (simp add: node_reset_def run_then_do set_current_def update_node_def quieted_current subset_insertI2)
qed

text \<open>\<open>reset\<close> never throws: it returns every node of the tree to \<open>Idle\<close>, not started, and every
  composite to its first child, and changes nothing else; in particular the nodes of the tree
  inside a \<open>SubTree\<close> stay as they are.\<close>

theorem reset_scope:
  "bt_reset root s = (Inr (), quieted (set (own root)) (set (composites root)) s)"
  by (simp add: bt_reset_def reset_quieted)

end
