(* ===== verification/Byte_IO.thy ===== *)
theory Byte_IO
  imports Prelude
begin

text \<open>
  Byte order and binary buffers: \<open>include/xtils/utils/endianness.h\<close>,
  \<open>byte_reader.{h,cc}\<close> and \<open>byte_writer.{h,cc}\<close>.

  A \<open>reader\<close> or \<open>writer\<close> keeps the class's members; the memory behind \<open>buffer_\<close> is the byte
  list. The bounds checks \<open>CanRead\<close> and \<open>CanWrite\<close> compute in \<open>size_t\<close>, so they wrap. A method
  that returns \<open>false\<close> is \<open>Refused\<close>; a \<open>memcpy\<close> or an index outside the buffer is \<open>Fault\<close>.
  The byte order of the host, a compile-time constant in the source, is the argument
  \<open>host_le\<close>: the laws hold for both values. \<open>float\<close> and \<open>double\<close> values are their bit patterns.
\<close>

section \<open>Byte order\<close>

definition sizeof :: "'a::len word \<Rightarrow> nat" where
  "sizeof v = LENGTH('a) div 8"

text \<open>\<open>SwapBytes\<close>: reverse the object representation for the sizes the template handles.\<close>

definition swap_bytes :: "'a::len word \<Rightarrow> 'a word" where
  "swap_bytes v =
     (if sizeof v = 1 then v
      else if sizeof v = 2 then le_word (rev (le_bytes 2 v))
      else if sizeof v = 4 then le_word (rev (le_bytes 4 v))
      else if sizeof v = 8 then le_word (rev (le_bytes 8 v))
      else v)"

text \<open>The object representation of an integer on the host (what \<open>memcpy\<close> copies).\<close>

definition mem_bytes :: "bool \<Rightarrow> 'a::len word \<Rightarrow> byte list" where
  "mem_bytes host_le v =
     (if host_le then le_bytes (sizeof v) v else rev (le_bytes (sizeof v) v))"

definition mem_word :: "bool \<Rightarrow> byte list \<Rightarrow> 'a::len word" where
  "mem_word host_le bs = (if host_le then le_word bs else le_word (rev bs))"

text \<open>The \<open>#if __BYTE_ORDER\<close> block shared by \<open>ReadValue\<close> and \<open>WriteValue\<close>.\<close>

definition convert_endian :: "bool \<Rightarrow> bool \<Rightarrow> 'a::len word \<Rightarrow> 'a word" where
  "convert_endian host_le is_little_endian v =
     (if host_le then (if \<not> is_little_endian then swap_bytes v else v)
      else (if is_little_endian then swap_bytes v else v))"

text \<open>The specification: the bytes of a value in a given order, whatever the host.\<close>

definition order_bytes :: "bool \<Rightarrow> 'a::len word \<Rightarrow> byte list" where
  "order_bytes little v =
     (if little then le_bytes (sizeof v) v else rev (le_bytes (sizeof v) v))"

definition sized :: "'a::len word \<Rightarrow> bool" where
  "sized v \<longleftrightarrow> LENGTH('a) = 8 * sizeof v \<and> sizeof v \<in> {1, 2, 4, 8}"

lemma sized_intros [wf_intros, simp]:
  "sized (v8 :: byte)" "sized (v16 :: u16)" "sized (v32 :: u32)" "sized (v64 :: u64)"
  by (simp_all add: sized_def sizeof_def)

lemma length_order_bytes [simp]: "length (order_bytes little v) = sizeof v"
  by (simp add: order_bytes_def)

lemma length_mem_bytes [simp]: "length (mem_bytes h v) = sizeof v"
  by (simp add: mem_bytes_def)

lemma sizeof_const: "sizeof (v :: 'a::len word) = sizeof (w :: 'a word)"
  by (simp add: sizeof_def)

lemma swap_bytes_eq:
  assumes "sized (v :: 'a::len word)"
  shows "swap_bytes v = (le_word (rev (le_bytes (sizeof v) v)) :: 'a word)"
proof (cases "sizeof v = 1")
  case True
  with assms have "LENGTH('a) \<le> 8 * 1"
    by (simp add: sized_def)
  have "rev (le_bytes (Suc 0) v) = le_bytes (Suc 0) v"
    by simp
  with True \<open>LENGTH('a) \<le> 8 * 1\<close> show ?thesis
    by (simp add: swap_bytes_def del: le_bytes.simps le_word.simps)
next
  case False
  with assms show ?thesis
    by (auto simp: swap_bytes_def sized_def)
qed

lemma le_bytes_swap:
  assumes "sized (v :: 'a::len word)"
  shows "le_bytes (sizeof v) (swap_bytes v) = rev (le_bytes (sizeof v) v)"
proof -
  have "8 * sizeof v \<le> LENGTH('a)"
    using assms by (simp add: sized_def)
  then show ?thesis
    by (simp add: swap_bytes_eq assms le_bytes_le_word)
qed

lemma swap_bytes_involution [simp]:
  assumes "sized (v :: 'a::len word)"
  shows "swap_bytes (swap_bytes v) = v"
proof -
  have s: "sized (swap_bytes v)" and z: "sizeof (swap_bytes v) = sizeof v"
    using assms by (simp_all add: sized_def sizeof_def)
  have "swap_bytes (swap_bytes v) = le_word (rev (le_bytes (sizeof v) (swap_bytes v)))"
    using swap_bytes_eq [OF s] by (simp add: z)
  also have "\<dots> = le_word (le_bytes (sizeof v) v)"
    by (simp add: le_bytes_swap assms)
  also have "\<dots> = v"
    using assms by (simp add: sized_def)
  finally show ?thesis .
qed

text \<open>Conversion followed by \<open>memcpy\<close> puts the bytes in the requested order on either host.\<close>

lemma mem_bytes_convert:
  assumes "sized (v :: 'a::len word)"
  shows "mem_bytes h (convert_endian h little v) = order_bytes little v"
  using assms sizeof_const [of "swap_bytes v" v]
  by (cases h; cases little)
    (simp_all add: mem_bytes_def convert_endian_def order_bytes_def le_bytes_swap)

lemma convert_mem_word:
  assumes "sized (v :: 'a::len word)"
  shows "convert_endian h little (mem_word h (order_bytes little v)) = v"
proof -
  have id: "(le_word (le_bytes (sizeof v) v) :: 'a word) = v"
    using assms by (simp add: sized_def)
  have sw: "(le_word (rev (le_bytes (sizeof v) v)) :: 'a word) = swap_bytes v"
    by (simp add: swap_bytes_eq assms)
  show ?thesis
    using assms by (cases h; cases little)
      (simp_all add: mem_word_def convert_endian_def order_bytes_def id sw)
qed


section \<open>ByteReader\<close>

record reader =
  r_buffer :: "byte list"
  r_size :: size_t
  r_position :: size_t
  r_little :: bool

definition new_reader :: "byte list \<Rightarrow> size_t \<Rightarrow> bool \<Rightarrow> reader" where
  "new_reader buffer sz is_little_endian =
     \<lparr>r_buffer = buffer, r_size = sz, r_position = 0, r_little = is_little_endian\<rparr>"

definition r_remaining :: "reader \<Rightarrow> size_t" where
  "r_remaining r = r_size r - r_position r"

definition r_has_remaining :: "reader \<Rightarrow> bool" where
  "r_has_remaining r \<longleftrightarrow> r_position r < r_size r"

definition r_seek :: "reader \<Rightarrow> size_t \<Rightarrow> bool \<times> reader" where
  "r_seek r pos = (if pos > r_size r then (False, r) else (True, r\<lparr>r_position := pos\<rparr>))"

definition r_reset :: "reader \<Rightarrow> reader" where
  "r_reset r = r\<lparr>r_position := 0\<rparr>"

definition can_read :: "reader \<Rightarrow> size_t \<Rightarrow> bool" where
  "can_read r n \<longleftrightarrow> r_position r + n \<le> r_size r"

text \<open>The memory access behind a read of \<open>n\<close> bytes at \<open>p\<close>.\<close>

definition mem_slice :: "byte list \<Rightarrow> nat \<Rightarrow> nat \<Rightarrow> byte list access" where
  "mem_slice buf p n = (if p + n \<le> length buf then Done (take n (drop p buf)) else Fault)"

definition read_u8 :: "reader \<Rightarrow> (byte \<times> reader) access" where
  "read_u8 r =
     (if \<not> can_read r 1 then Refused
      else if unat (r_position r) < length (r_buffer r)
      then Done (r_buffer r ! unat (r_position r), r\<lparr>r_position := r_position r + 1\<rparr>)
      else Fault)"

definition read_value :: "bool \<Rightarrow> reader \<Rightarrow> ('a::len word \<times> reader) access" where
  "read_value host_le r =
     (let n = LENGTH('a) div 8 in
      if \<not> can_read r (of_nat n) then Refused
      else access_bind (mem_slice (r_buffer r) (unat (r_position r)) n) (\<lambda>bs.
        Done (convert_endian host_le (r_little r) (mem_word host_le bs),
              r\<lparr>r_position := r_position r + of_nat n\<rparr>)))"

definition read_u16 :: "bool \<Rightarrow> reader \<Rightarrow> (u16 \<times> reader) access" where
  "read_u16 = read_value"

definition read_u32 :: "bool \<Rightarrow> reader \<Rightarrow> (u32 \<times> reader) access" where
  "read_u32 = read_value"

definition read_u64 :: "bool \<Rightarrow> reader \<Rightarrow> (u64 \<times> reader) access" where
  "read_u64 = read_value"

text \<open>\<open>ReadBytes\<close> and \<open>ReadString\<close> differ only in where the bytes go.\<close>

definition read_bytes :: "reader \<Rightarrow> size_t \<Rightarrow> (byte list \<times> reader) access" where
  "read_bytes r count =
     (if \<not> can_read r count then Refused
      else access_bind (mem_slice (r_buffer r) (unat (r_position r)) (unat count)) (\<lambda>bs.
        Done (bs, r\<lparr>r_position := r_position r + count\<rparr>)))"

definition read_string :: "reader \<Rightarrow> size_t \<Rightarrow> (string \<times> reader) access" where
  "read_string r count =
     (if \<not> can_read r count then Refused
      else access_bind (mem_slice (r_buffer r) (unat (r_position r)) (unat count)) (\<lambda>bs.
        Done (map char_of_byte bs, r\<lparr>r_position := r_position r + count\<rparr>)))"

text \<open>The scan of \<open>ReadNullTerminatedString\<close>: the index of the first zero byte.\<close>

fun nul_scan :: "byte list \<Rightarrow> nat \<Rightarrow> nat \<Rightarrow> nat \<Rightarrow> nat access" where
  "nul_scan buf p i 0 = Refused"
| "nul_scan buf p i (Suc k) =
     (if p + i < length buf
      then (if buf ! (p + i) = 0 then Done i else nul_scan buf p (Suc i) k)
      else Fault)"

definition read_cstring :: "reader \<Rightarrow> size_t \<Rightarrow> (string \<times> reader) access" where
  "read_cstring r max_length =
     (let remaining = min max_length (r_remaining r); p = unat (r_position r) in
      access_bind (nul_scan (r_buffer r) p 0 (unat remaining)) (\<lambda>i.
        Done (map char_of_byte (take i (drop p (r_buffer r))),
              r\<lparr>r_position := r_position r + of_nat (Suc i)\<rparr>)))"

section \<open>ByteWriter\<close>

record writer =
  w_buffer :: "byte list"
  w_size :: size_t
  w_position :: size_t
  w_little :: bool

definition new_writer :: "byte list \<Rightarrow> size_t \<Rightarrow> bool \<Rightarrow> writer" where
  "new_writer buffer sz is_little_endian =
     \<lparr>w_buffer = buffer, w_size = sz, w_position = 0, w_little = is_little_endian\<rparr>"

definition w_remaining :: "writer \<Rightarrow> size_t" where
  "w_remaining w = w_size w - w_position w"

definition w_has_remaining :: "writer \<Rightarrow> bool" where
  "w_has_remaining w \<longleftrightarrow> w_position w < w_size w"

definition w_seek :: "writer \<Rightarrow> size_t \<Rightarrow> bool \<times> writer" where
  "w_seek w pos = (if pos > w_size w then (False, w) else (True, w\<lparr>w_position := pos\<rparr>))"

definition w_reset :: "writer \<Rightarrow> writer" where
  "w_reset w = w\<lparr>w_position := 0\<rparr>"

definition can_write :: "writer \<Rightarrow> size_t \<Rightarrow> bool" where
  "can_write w n \<longleftrightarrow> w_position w + n \<le> w_size w"

definition mem_store :: "writer \<Rightarrow> byte list \<Rightarrow> writer access" where
  "mem_store w bs =
     (let p = unat (w_position w) in
      if p + length bs \<le> length (w_buffer w)
      then Done (w\<lparr>w_buffer := splice_at p bs (w_buffer w),
                   w_position := w_position w + of_nat (length bs)\<rparr>)
      else Fault)"

definition write_u8 :: "writer \<Rightarrow> byte \<Rightarrow> writer access" where
  "write_u8 w v = (if \<not> can_write w 1 then Refused else mem_store w [v])"

definition write_value :: "bool \<Rightarrow> writer \<Rightarrow> 'a::len word \<Rightarrow> writer access" where
  "write_value host_le w v =
     (if \<not> can_write w (of_nat (sizeof v)) then Refused
      else mem_store w (mem_bytes host_le (convert_endian host_le (w_little w) v)))"

definition write_u16 :: "bool \<Rightarrow> writer \<Rightarrow> u16 \<Rightarrow> writer access" where
  "write_u16 = write_value"

definition write_u32 :: "bool \<Rightarrow> writer \<Rightarrow> u32 \<Rightarrow> writer access" where
  "write_u32 = write_value"

definition write_u64 :: "bool \<Rightarrow> writer \<Rightarrow> u64 \<Rightarrow> writer access" where
  "write_u64 = write_value"

text \<open>\<open>src\<close> is the caller's memory: \<open>WriteBytes\<close> copies its first \<open>count\<close> bytes.\<close>

definition write_bytes :: "writer \<Rightarrow> byte list \<Rightarrow> size_t \<Rightarrow> writer access" where
  "write_bytes w src count =
     (if \<not> can_write w count then Refused
      else access_bind (mem_slice src 0 (unat count)) (mem_store w))"

definition write_string :: "writer \<Rightarrow> string \<Rightarrow> writer access" where
  "write_string w str =
     (if \<not> can_write w (of_nat (length str)) then Refused
      else mem_store w (map byte_of_char str))"

definition write_cstring :: "writer \<Rightarrow> string \<Rightarrow> writer access" where
  "write_cstring w str =
     (if \<not> can_write w (of_nat (length str) + 1) then Refused
      else access_bind (mem_store w (map byte_of_char str)) (\<lambda>w'. mem_store w' [0]))"

section \<open>The invariant of the cursor\<close>

text \<open>
  \<open>size_\<close> is the size of the buffer, the cursor is inside it, and the buffer is an object of
  the abstract machine, so it is smaller than \<open>PTRDIFF_MAX\<close>.
\<close>

definition reader_wf :: "reader \<Rightarrow> bool" where
  "reader_wf r \<longleftrightarrow> unat (r_size r) = length (r_buffer r) \<and>
     unat (r_position r) \<le> length (r_buffer r) \<and> length (r_buffer r) < 2 ^ 63"

definition writer_wf :: "writer \<Rightarrow> bool" where
  "writer_wf w \<longleftrightarrow> unat (w_size w) = length (w_buffer w) \<and>
     unat (w_position w) \<le> length (w_buffer w) \<and> length (w_buffer w) < 2 ^ 63"

lemma unat_add_small:
  "unat (a :: u64) < 2 ^ 63 \<Longrightarrow> unat b \<le> 2 ^ 63 \<Longrightarrow> unat (a + b) = unat a + unat b"
  by (simp add: unat_word_ariths)

lemma unat_of_nat_small: "n \<le> 2 ^ 63 \<Longrightarrow> unat (of_nat n :: u64) = n"
  by (simp add: unat_of_nat)

lemma can_read_iff:
  "reader_wf r \<Longrightarrow> unat n \<le> 2 ^ 63 \<Longrightarrow>
     can_read r n \<longleftrightarrow> unat (r_position r) + unat n \<le> length (r_buffer r)"
  by (simp add: can_read_def reader_wf_def word_le_nat_alt unat_add_small)

lemma can_write_iff:
  "writer_wf w \<Longrightarrow> unat n \<le> 2 ^ 63 \<Longrightarrow>
     can_write w n \<longleftrightarrow> unat (w_position w) + unat n \<le> length (w_buffer w)"
  by (simp add: can_write_def writer_wf_def word_le_nat_alt unat_add_small)

lemma reader_wf_advance [wf_intros]:
  "reader_wf r \<Longrightarrow> unat (r_position r) + n \<le> length (r_buffer r) \<Longrightarrow>
     reader_wf (r\<lparr>r_position := r_position r + of_nat n\<rparr>) \<and>
     unat (r_position r + of_nat n) = unat (r_position r) + n"
  by (simp add: reader_wf_def unat_add_small unat_of_nat_small)

lemma mem_store_Done:
  assumes "writer_wf w" and "mem_store w bs = Done w'"
  shows "w_buffer w' = splice_at (unat (w_position w)) bs (w_buffer w)"
    and "unat (w_position w') = unat (w_position w) + length bs"
    and "w_little w' = w_little w" and "writer_wf w'"
    and "unat (w_position w) + length bs \<le> length (w_buffer w)"
  using assms
  by (auto simp: mem_store_def writer_wf_def Let_def unat_add_small unat_of_nat_small
      split: if_splits)


section \<open>Writing and reading a sequence of fields\<close>

text \<open>
  A record is written as a sequence of calls and read back by the matching sequence. The
  contract a field kind needs is the locale \<open>buffer_codec\<close>: the write puts the encoding at the
  cursor, and the read recognises the encoding at the cursor. The round trip of any
  sequence follows from the two laws.
\<close>

datatype field =
    F8 byte | F16 u16 | F32 u32 | F64 u64
  | FBytes "byte list" | FString string | FCString string

datatype field_shape =
    S8 | S16 | S32 | S64 | SBytes size_t | SString size_t | SCString size_t

fun write_seq :: "(writer \<Rightarrow> 'f \<Rightarrow> writer access) \<Rightarrow> writer \<Rightarrow> 'f list \<Rightarrow> writer access" where
  "write_seq wr w [] = Done w"
| "write_seq wr w (f # fs) = access_bind (wr w f) (\<lambda>w'. write_seq wr w' fs)"

fun read_seq ::
    "(reader \<Rightarrow> 's \<Rightarrow> ('f \<times> reader) access) \<Rightarrow> reader \<Rightarrow> 's list \<Rightarrow> ('f list \<times> reader) access" where
  "read_seq rd r [] = Done ([], r)"
| "read_seq rd r (s # ss) =
     access_bind (rd r s) (\<lambda>(f, r').
       access_bind (read_seq rd r' ss) (\<lambda>(fs, r''). Done (f # fs, r'')))"

definition at_cursor :: "reader \<Rightarrow> byte list \<Rightarrow> bool" where
  "at_cursor r e \<longleftrightarrow> unat (r_position r) + length e \<le> length (r_buffer r) \<and>
     take (length e) (drop (unat (r_position r)) (r_buffer r)) = e"

definition skip_bytes :: "reader \<Rightarrow> nat \<Rightarrow> reader" where
  "skip_bytes r n = r\<lparr>r_position := r_position r + of_nat n\<rparr>"

text \<open>The reader over what a writer has written, from the writer's starting position.\<close>

definition reader_of :: "writer \<Rightarrow> size_t \<Rightarrow> reader" where
  "reader_of w p =
     \<lparr>r_buffer = w_buffer w, r_size = w_size w, r_position = p, r_little = w_little w\<rparr>"

lemma at_cursor_append:
  assumes "reader_wf r" and "at_cursor r (e @ es)"
  shows "at_cursor r e" and "at_cursor (skip_bytes r (length e)) es"
    and "reader_wf (skip_bytes r (length e))"
proof -
  let ?p = "unat (r_position r)"
  from assms have le: "?p + length e + length es \<le> length (r_buffer r)"
    and eq: "take (length e + length es) (drop ?p (r_buffer r)) = e @ es"
    by (simp_all add: at_cursor_def add.assoc)
  have "take (length e) (take (length e + length es) (drop ?p (r_buffer r))) = e"
    by (simp only: eq) simp
  then have hd: "take (length e) (drop ?p (r_buffer r)) = e"
    by simp
  have "drop (length e) (take (length e + length es) (drop ?p (r_buffer r))) = es"
    by (simp only: eq) simp
  then have tl: "take (length es) (drop (?p + length e) (r_buffer r)) = es"
    by (simp add: drop_take add.commute)
  from le hd show "at_cursor r e"
    by (simp add: at_cursor_def)
  from le have adv: "reader_wf (skip_bytes r (length e))"
      "unat (r_position r + of_nat (length e)) = ?p + length e"
    using reader_wf_advance [OF assms(1), of "length e"] by (simp_all add: skip_bytes_def)
  then show "reader_wf (skip_bytes r (length e))"
    by simp
  from adv(2) le tl show "at_cursor (skip_bytes r (length e)) es"
    by (simp add: at_cursor_def skip_bytes_def)
qed

lemma mem_store_append:
  assumes "writer_wf w"
  shows "mem_store w (a @ b) = access_bind (mem_store w a) (\<lambda>w'. mem_store w' b)"
proof (cases "unat (w_position w) + length a \<le> length (w_buffer w)")
  case True
  let ?p = "unat (w_position w)"
  have u: "unat (w_position w + of_nat (length a)) = ?p + length a"
    using True assms by (simp add: writer_wf_def unat_add_small unat_of_nat_small)
  from True show ?thesis
    by (simp add: mem_store_def Let_def u splice_at_splice_at add.assoc)
next
  case False
  then show ?thesis
    by (simp add: mem_store_def Let_def)
qed

lemma mem_store_nil: "writer_wf w \<Longrightarrow> mem_store w [] = Done w"
  by (cases w) (simp add: mem_store_def writer_wf_def Let_def)

locale buffer_codec =
  fixes enc :: "bool \<Rightarrow> 'f \<Rightarrow> byte list"
    and wr :: "writer \<Rightarrow> 'f \<Rightarrow> writer access"
    and rd :: "reader \<Rightarrow> 's \<Rightarrow> ('f \<times> reader) access"
    and shp :: "'f \<Rightarrow> 's"
    and ok :: "'f \<Rightarrow> bool"
  assumes wr_law: "writer_wf w \<Longrightarrow> ok f \<Longrightarrow> wr w f =
      (if unat (w_position w) + length (enc (w_little w) f) \<le> length (w_buffer w)
       then mem_store w (enc (w_little w) f) else Refused)"
    and rd_law: "reader_wf r \<Longrightarrow> ok f \<Longrightarrow> at_cursor r (enc (r_little r) f) \<Longrightarrow>
      rd r (shp f) = Done (f, skip_bytes r (length (enc (r_little r) f)))"
begin

lemma write_seq_Done:
  assumes "writer_wf w" and "list_all ok fs" and "write_seq wr w fs = Done w'"
  shows "mem_store w (concat (map (enc (w_little w)) fs)) = Done w'"
  using assms
proof (induction fs arbitrary: w)
  case Nil
  then show ?case by (simp add: mem_store_nil)
next
  case (Cons f fs)
  let ?e = "enc (w_little w) f"
  from Cons.prems obtain w1 where w1: "wr w f = Done w1" and rest: "write_seq wr w1 fs = Done w'"
    by (auto simp: access_bind_Done_iff)
  from w1 Cons.prems have st: "mem_store w ?e = Done w1"
    by (simp add: wr_law split: if_splits)
  note d = mem_store_Done [OF Cons.prems(1) st]
  have "mem_store w1 (concat (map (enc (w_little w)) fs)) = Done w'"
    using Cons.IH [OF d(4) _ rest] Cons.prems(2) d(3) by simp
  with st show ?case
    by (simp add: mem_store_append Cons.prems(1))
qed

lemma write_seq_no_fault:
  "writer_wf w \<Longrightarrow> list_all ok fs \<Longrightarrow> write_seq wr w fs \<noteq> Fault"
proof (induction fs arbitrary: w)
  case Nil
  then show ?case by simp
next
  case (Cons f fs)
  have nf: "wr w f \<noteq> Fault"
    using Cons.prems by (auto simp: wr_law mem_store_def Let_def)
  have "write_seq wr w1 fs \<noteq> Fault" if "wr w f = Done w1" for w1
  proof -
    from that Cons.prems have "mem_store w (enc (w_little w) f) = Done w1"
      by (simp add: wr_law split: if_splits)
    from mem_store_Done(4) [OF Cons.prems(1) this] Cons.prems(2) show ?thesis
      by (simp add: Cons.IH)
  qed
  with nf show ?case
    by (auto simp: access_bind_Fault_iff)
qed

lemma read_seq_Done:
  assumes "reader_wf r" and "list_all ok fs"
    and "at_cursor r (concat (map (enc (r_little r)) fs))"
  shows "read_seq rd r (map shp fs) =
    Done (fs, skip_bytes r (length (concat (map (enc (r_little r)) fs))))"
  using assms
proof (induction fs arbitrary: r)
  case Nil
  then show ?case by (simp add: skip_bytes_def)
next
  case (Cons f fs)
  let ?e = "enc (r_little r) f" and ?es = "concat (map (enc (r_little r)) fs)"
  from Cons.prems have "at_cursor r (?e @ ?es)"
    by simp
  note c = at_cursor_append [OF Cons.prems(1) this]
  have l: "r_little (skip_bytes r n) = r_little r" for n
    by (simp add: skip_bytes_def)
  have "rd r (shp f) = Done (f, skip_bytes r (length ?e))"
    using rd_law [OF Cons.prems(1) _ c(1)] Cons.prems(2) by simp
  moreover have "read_seq rd (skip_bytes r (length ?e)) (map shp fs) =
      Done (fs, skip_bytes (skip_bytes r (length ?e)) (length ?es))"
    using Cons.IH [OF c(3)] Cons.prems(2) c(2) by (simp add: l)
  ultimately show ?case
    by (simp add: skip_bytes_def add.assoc)
qed

lemma write_read_seq:
  assumes "writer_wf w" and "list_all ok fs" and "write_seq wr w fs = Done w'"
  shows "read_seq rd (reader_of w' (w_position w)) (map shp fs) =
    Done (fs, reader_of w' (w_position w'))"
proof -
  let ?e = "concat (map (enc (w_little w)) fs)" and ?r = "reader_of w' (w_position w)"
  have st: "mem_store w ?e = Done w'"
    by (rule write_seq_Done [OF assms])
  note d = mem_store_Done [OF assms(1) st]
  have "reader_wf ?r"
    using d(4) d(2) by (simp add: reader_wf_def writer_wf_def reader_of_def)
  moreover have "at_cursor ?r ?e"
    using d assms(1) by (simp add: at_cursor_def reader_of_def)
  moreover have "r_little ?r = w_little w"
    by (simp add: reader_of_def d(3))
  moreover have "w_position w' = w_position w + of_nat (length ?e)"
    using st by (auto simp: mem_store_def Let_def split: if_splits)
  ultimately show ?thesis
    using read_seq_Done [of ?r fs] assms(2) by (simp add: skip_bytes_def reader_of_def)
qed

end


subsection \<open>The fields of the two classes\<close>

fun enc_field :: "bool \<Rightarrow> field \<Rightarrow> byte list" where
  "enc_field little (F8 v) = [v]"
| "enc_field little (F16 v) = order_bytes little v"
| "enc_field little (F32 v) = order_bytes little v"
| "enc_field little (F64 v) = order_bytes little v"
| "enc_field little (FBytes bs) = bs"
| "enc_field little (FString s) = map byte_of_char s"
| "enc_field little (FCString s) = map byte_of_char s @ [0]"

fun write_field :: "bool \<Rightarrow> writer \<Rightarrow> field \<Rightarrow> writer access" where
  "write_field host_le w (F8 v) = write_u8 w v"
| "write_field host_le w (F16 v) = write_u16 host_le w v"
| "write_field host_le w (F32 v) = write_u32 host_le w v"
| "write_field host_le w (F64 v) = write_u64 host_le w v"
| "write_field host_le w (FBytes bs) = write_bytes w bs (of_nat (length bs))"
| "write_field host_le w (FString s) = write_string w s"
| "write_field host_le w (FCString s) = write_cstring w s"

fun shape_of :: "field \<Rightarrow> field_shape" where
  "shape_of (F8 v) = S8"
| "shape_of (F16 v) = S16"
| "shape_of (F32 v) = S32"
| "shape_of (F64 v) = S64"
| "shape_of (FBytes bs) = SBytes (of_nat (length bs))"
| "shape_of (FString s) = SString (of_nat (length s))"
| "shape_of (FCString s) = SCString (- 1)"

definition access_map :: "('a \<Rightarrow> 'b) \<Rightarrow> ('a \<times> reader) access \<Rightarrow> ('b \<times> reader) access" where
  "access_map f m = access_bind m (\<lambda>(a, r). Done (f a, r))"

fun read_field :: "bool \<Rightarrow> reader \<Rightarrow> field_shape \<Rightarrow> (field \<times> reader) access" where
  "read_field host_le r S8 = access_map F8 (read_u8 r)"
| "read_field host_le r S16 = access_map F16 (read_u16 host_le r)"
| "read_field host_le r S32 = access_map F32 (read_u32 host_le r)"
| "read_field host_le r S64 = access_map F64 (read_u64 host_le r)"
| "read_field host_le r (SBytes n) = access_map FBytes (read_bytes r n)"
| "read_field host_le r (SString n) = access_map FString (read_string r n)"
| "read_field host_le r (SCString n) = access_map FCString (read_cstring r n)"

text \<open>A byte count is below \<open>PTRDIFF_MAX\<close>, and a C string has no zero byte inside.\<close>

fun field_ok :: "field \<Rightarrow> bool" where
  "field_ok (FBytes bs) = (length bs < 2 ^ 63)"
| "field_ok (FString s) = (length s < 2 ^ 63)"
| "field_ok (FCString s) = (length s < 2 ^ 63 \<and> CHR 0x00 \<notin> set s)"
| "field_ok f = True"

lemma mem_slice_at_cursor:
  "at_cursor r e \<Longrightarrow> mem_slice (r_buffer r) (unat (r_position r)) (length e) = Done e"
  by (simp add: at_cursor_def mem_slice_def)

lemma can_read_at_cursor:
  "reader_wf r \<Longrightarrow> at_cursor r e \<Longrightarrow> can_read r (of_nat (length e))"
  by (subst can_read_iff) (auto simp: at_cursor_def reader_wf_def unat_of_nat_small)

lemma read_value_at_cursor:
  assumes "reader_wf r" and "sized (v :: 'a::len word)"
    and "at_cursor r (order_bytes (r_little r) v)"
  shows "read_value h r = Done (v, skip_bytes r (sizeof v))"
proof -
  have n: "LENGTH('a) div 8 = length (order_bytes (r_little r) v)"
    by (simp add: sizeof_def)
  show ?thesis
    using can_read_at_cursor [OF assms(1,3)] mem_slice_at_cursor [OF assms(3)]
    unfolding read_value_def Let_def n
    by (simp add: convert_mem_word assms(2) skip_bytes_def)
qed

lemma write_value_eq:
  assumes "writer_wf w" and "sized (v :: 'a::len word)"
  shows "write_value h w v =
    (if unat (w_position w) + sizeof v \<le> length (w_buffer w)
     then mem_store w (order_bytes (w_little w) v) else Refused)"
proof -
  have "sizeof v \<le> 2 ^ 63"
    using assms(2) by (auto simp: sized_def)
  then show ?thesis
    by (simp add: write_value_def can_write_iff assms mem_bytes_convert unat_of_nat_small)
qed

lemma nul_scan_found:
  assumes "p + i + length s < length buf"
    and "\<And>j. j < length s \<Longrightarrow> buf ! (p + i + j) \<noteq> 0"
    and "buf ! (p + i + length s) = 0" and "length s < k"
  shows "nul_scan buf p i k = Done (i + length s)"
  using assms
proof (induction s arbitrary: i k)
  case Nil
  then show ?case by (cases k) auto
next
  case (Cons c s)
  from Cons.prems(4) obtain k' where k: "k = Suc k'" and k': "length s < k'"
    by (cases k) auto
  have "buf ! (p + i) \<noteq> 0"
    using Cons.prems(2) [of 0] by simp
  moreover have "nul_scan buf p (Suc i) k' = Done (Suc i + length s)"
  proof (rule Cons.IH)
    show "buf ! (p + Suc i + j) \<noteq> 0" if "j < length s" for j
      using Cons.prems(2) [of "Suc j"] that by simp
  qed (use Cons.prems k' in auto)
  ultimately show ?case
    using Cons.prems(1) by (simp add: k)
qed

lemma read_cstring_at_cursor:
  assumes "reader_wf r" and "CHR 0x00 \<notin> set s"
    and "at_cursor r (map byte_of_char s @ [0])"
  shows "read_cstring r (- 1) = Done (s, skip_bytes r (Suc (length s)))"
proof -
  let ?p = "unat (r_position r)" and ?b = "r_buffer r"
  from assms(3) have le: "?p + Suc (length s) \<le> length ?b"
    and eq: "take (Suc (length s)) (drop ?p ?b) = map byte_of_char s @ [0]"
    by (simp_all add: at_cursor_def)
  have nth: "?b ! (?p + j) = (map byte_of_char s @ [0]) ! j" if "j < Suc (length s)" for j
    using that le by (simp flip: eq)
  have rem: "unat (r_remaining r) = length ?b - ?p"
    using assms(1) unat_sub [of "r_position r" "r_size r"]
    by (simp add: r_remaining_def reader_wf_def word_le_nat_alt)
  have nz: "byte_of_char c \<noteq> 0" if "c \<in> set s" for c
    using that assms(2) byte_of_char_inj [of c "CHR 0x00"] by (auto simp: byte_of_char_def)
  have scan: "nul_scan ?b ?p 0 (length ?b - ?p) = Done (0 + length s)"
  proof (rule nul_scan_found)
    show "?b ! (?p + 0 + j) \<noteq> 0" if "j < length s" for j
      using nth [of j] that nz by (simp add: nth_append)
    show "?b ! (?p + 0 + length s) = 0"
      using nth [of "length s"] by (simp add: nth_append)
  qed (use le in auto)
  have "take (length s) (drop ?p ?b) = take (length s) (take (Suc (length s)) (drop ?p ?b))"
    by simp
  also have "\<dots> = map byte_of_char s"
    by (simp only: eq) simp
  finally have tk: "take (length s) (drop ?p ?b) = map byte_of_char s" .
  show ?thesis
    by (simp add: read_cstring_def Let_def rem scan [simplified] tk skip_bytes_def)
qed

lemma write_cstring_eq:
  assumes "writer_wf w" and "length s < 2 ^ 63"
  shows "write_cstring w s =
    (if unat (w_position w) + length (map byte_of_char s @ [0]) \<le> length (w_buffer w)
     then mem_store w (map byte_of_char s @ [0]) else Refused)"
proof -
  have n: "(of_nat (length s) + 1 :: size_t) = of_nat (Suc (length s))"
    by simp
  have u: "unat (of_nat (Suc (length s)) :: size_t) = Suc (length s)"
    using assms(2) by (intro unat_of_nat_small) simp
  have c: "can_write w (of_nat (length s) + 1) \<longleftrightarrow>
      unat (w_position w) + Suc (length s) \<le> length (w_buffer w)"
    unfolding n using assms(2) by (subst can_write_iff [OF assms(1)]) (simp_all add: u del: of_nat_Suc)
  show ?thesis
    by (simp add: write_cstring_def c mem_store_append assms(1))
qed

interpretation field_io: buffer_codec enc_field "write_field h" "read_field h" shape_of field_ok
  for h
proof
  fix w :: writer and f
  assume wf: "writer_wf w" and ok: "field_ok f"
  show "write_field h w f =
      (if unat (w_position w) + length (enc_field (w_little w) f) \<le> length (w_buffer w)
       then mem_store w (enc_field (w_little w) f) else Refused)"
  proof (cases f)
    case (F8 v)
    then show ?thesis using can_write_iff [OF wf, of 1] by (simp add: write_u8_def)
  next
    case (FBytes bs)
    then show ?thesis
      using ok wf by (simp add: write_bytes_def can_write_iff unat_of_nat_small mem_slice_def)
  next
    case (FString s)
    then show ?thesis
      using ok wf by (simp add: write_string_def can_write_iff unat_of_nat_small)
  next
    case (FCString s)
    then show ?thesis
      using ok wf by (simp add: write_cstring_eq)
  qed (simp_all add: write_u16_def write_u32_def write_u64_def write_value_eq wf)
next
  fix r :: reader and f
  assume wf: "reader_wf r" and ok: "field_ok f" and cur: "at_cursor r (enc_field (r_little r) f)"
  show "read_field h r (shape_of f) = Done (f, skip_bytes r (length (enc_field (r_little r) f)))"
  proof (cases f)
    case (F8 v)
    with cur have le: "unat (r_position r) + 1 \<le> length (r_buffer r)"
      and eq: "take 1 (drop (unat (r_position r)) (r_buffer r)) = [v]"
      by (simp_all add: at_cursor_def)
    then have "r_buffer r ! unat (r_position r) = v"
      using nth_take [of 0 1 "drop (unat (r_position r)) (r_buffer r)"] by simp
    with F8 le show ?thesis
      using can_read_iff [OF wf, of 1]
      by (simp add: read_u8_def access_map_def skip_bytes_def)
  next
    case (FBytes bs)
    with ok cur wf show ?thesis
      using mem_slice_at_cursor [of r bs] can_read_at_cursor [of r bs]
      by (simp add: read_bytes_def access_map_def skip_bytes_def unat_of_nat_small)
  next
    case (FString s)
    with ok cur wf show ?thesis
      using mem_slice_at_cursor [of r "map byte_of_char s"]
        can_read_at_cursor [of r "map byte_of_char s"]
      by (simp add: read_string_def access_map_def skip_bytes_def unat_of_nat_small o_def)
  next
    case (FCString s)
    with ok cur wf show ?thesis
      by (simp add: read_cstring_at_cursor [of r s] access_map_def)
  qed (use cur in \<open>simp_all add: read_u16_def read_u32_def read_u64_def
      read_value_at_cursor [OF wf] access_map_def\<close>)
qed


section \<open>Properties\<close>

text \<open>Property C6. Whatever sequence of integers (of any width), byte blocks, strings and C strings a
  \<open>ByteWriter\<close> accepts, in either byte order and on a host of either byte order, a \<open>ByteReader\<close>
  placed at the writer's starting position with the same byte order reads back exactly those
  values and stops where the writer stopped.\<close>

theorem write_read_fields:
  assumes "writer_wf w" and "list_all field_ok fs"
    and "write_seq (write_field host_le) w fs = Done w'"
  shows "read_seq (read_field host_le) (reader_of w' (w_position w)) (map shape_of fs) =
    Done (fs, reader_of w' (w_position w'))"
  by (rule field_io.write_read_seq [OF assms])

theorem write_read_fields_witness:
  "\<exists>w'. write_seq (write_field True) (new_writer (replicate 12 0) 12 False)
      [F16 0x1234, FCString ''ab'', F32 7] = Done w' \<and>
    w_buffer w' = [0x12, 0x34, 97, 98, 0, 0, 0, 0, 7, 0, 0, 0] \<and>
    read_seq (read_field True) (reader_of w' 0) [S16, SCString (- 1), S32] =
      Done ([F16 0x1234, FCString ''ab'', F32 7], reader_of w' (w_position w'))"
proof -
  let ?w = "new_writer (replicate 12 0) 12 False"
  let ?fs = "[F16 0x1234, FCString ''ab'', F32 7]"
  let ?w' = "?w\<lparr>w_buffer := [0x12, 0x34, 97, 98, 0, 0, 0, 0, 7, 0, 0, 0], w_position := 9\<rparr>"
  have w: "write_seq (write_field True) ?w ?fs = Done ?w'"
    by code_simp
  have wf: "writer_wf ?w" and ok: "list_all field_ok ?fs"
    by (simp_all add: writer_wf_def new_writer_def)
  have "read_seq (read_field True) (reader_of ?w' (w_position ?w)) (map shape_of ?fs) =
      Done (?fs, reader_of ?w' (w_position ?w'))"
    by (rule write_read_fields [OF wf ok w])
  with w show ?thesis
    by (auto simp: new_writer_def)
qed

text \<open>A \<open>ByteWriter\<close> whose cursor invariant holds never writes outside its buffer: a sequence of
  writes is either refused or keeps the invariant, leaves the bytes before the old and after
  the new position alone, and puts the values, in the requested byte order, between them.\<close>

theorem write_fields_frame:
  assumes "writer_wf w" and "list_all field_ok fs"
  shows "write_seq (write_field host_le) w fs \<noteq> Fault \<and>
    (\<forall>w'. write_seq (write_field host_le) w fs = Done w' \<longrightarrow>
      writer_wf w' \<and>
      w_buffer w' = take (unat (w_position w)) (w_buffer w) @
        concat (map (enc_field (w_little w)) fs) @ drop (unat (w_position w')) (w_buffer w))"
proof (intro conjI allI impI)
  show "write_seq (write_field host_le) w fs \<noteq> Fault"
    by (rule field_io.write_seq_no_fault [OF assms])
  fix w'
  assume "write_seq (write_field host_le) w fs = Done w'"
  from field_io.write_seq_Done [OF assms this]
  have st: "mem_store w (concat (map (enc_field (w_little w)) fs)) = Done w'" .
  note d = mem_store_Done [OF assms(1) st]
  show "writer_wf w'"
    by (rule d(4))
  show "w_buffer w' = take (unat (w_position w)) (w_buffer w) @
      concat (map (enc_field (w_little w)) fs) @ drop (unat (w_position w')) (w_buffer w)"
    by (simp add: d(1,2) splice_at_def)
qed

theorem write_fields_frame_witness:
  "write_seq (write_field False) (new_writer [1, 2, 3] 3 True) [F8 9, F16 0x0102] =
     Done (new_writer [9, 2, 1] 3 True\<lparr>w_position := 3\<rparr>) \<and>
   writer_wf (new_writer [9, 2, 1] 3 True\<lparr>w_position := 3\<rparr>)"
proof -
  let ?w = "new_writer [1, 2, 3] 3 True"
  have run: "write_seq (write_field False) ?w [F8 9, F16 0x0102] =
      Done (new_writer [9, 2, 1] 3 True\<lparr>w_position := 3\<rparr>)"
    by code_simp
  have "writer_wf ?w" and "list_all field_ok [F8 9, F16 0x0102]"
    by (simp_all add: writer_wf_def new_writer_def)
  from write_fields_frame [OF this, of False] run show ?thesis
    by simp
qed

text \<open>The bounds check \<open>CanRead\<close> computes \<open>position_ + bytes\<close> in \<open>size_t\<close> and wraps: with the
  cursor past the start of a well-formed reader, a request for \<open>2^64 - position_\<close> bytes is not
  refused, and the copy runs outside the buffer.\<close>

theorem read_bytes_wraps:
  assumes "reader_wf r" and "r_position r \<noteq> 0"
  shows "can_read r (- r_position r) \<and> read_bytes r (- r_position r) = Fault"
proof -
  have "\<not> unat (r_position r) + unat (- r_position r) \<le> length (r_buffer r)"
  proof
    assume "unat (r_position r) + unat (- r_position r) \<le> length (r_buffer r)"
    then have "unat (r_position r) + unat (- r_position r) < 2 ^ LENGTH(64)"
      using assms(1) by (simp add: reader_wf_def)
    then have "unat (r_position r) + unat (- r_position r) = 0"
      by (subst (asm) unat_add_lem) simp
    with assms(2) show False
      by (simp add: unat_eq_zero)
  qed
  then show ?thesis
    by (simp add: can_read_def read_bytes_def mem_slice_def)
qed

theorem read_bytes_wraps_witness:
  "read_bytes (new_reader [1, 2, 3, 4] 4 True\<lparr>r_position := 1\<rparr>) (- 1) = Fault"
  using read_bytes_wraps [of "new_reader [1, 2, 3, 4] 4 True\<lparr>r_position := 1\<rparr>"]
  by (simp add: reader_wf_def new_reader_def)

end
