(* ===== verification/String_Utils.thy ===== *)
theory String_Utils
  imports Decimal
begin

text \<open>
  String helpers (\<open>utils/string_utils.h\<close>, \<open>utils/string_utils.cc\<close>).

  A \<open>std::string\<close> is a list of characters; a \<open>std::string_view\<close> passed to a C function is read up to
  its first NUL there (\<open>strncmp_eq\<close>, \<open>strncasecmp_eq\<close>, \<open>c_str\<close>). \<open>XTILS_CHECK\<close> aborts: \<open>None\<close>.
  UTF-8 cleaning works on bytes. The parser \<open>strtod_l\<close> is a parameter, as is the text \<open>vsnprintf\<close>
  produces for a format.
\<close>

section \<open>Characters\<close>

definition ch :: "char \<Rightarrow> nat" where
  "ch c = of_char c"

definition lowercase :: "char \<Rightarrow> char" where
  "lowercase c = (if ch CHR ''A'' \<le> ch c \<and> ch c \<le> ch CHR ''Z'' then char_of (ch c + 32) else c)"

definition uppercase :: "char \<Rightarrow> char" where
  "uppercase c = (if ch CHR ''a'' \<le> ch c \<and> ch c \<le> ch CHR ''z'' then char_of (ch c - 32) else c)"

definition nul :: char where
  "nul = CHR 0x00"

text \<open>What a C function sees of a string.\<close>

definition c_str :: "string \<Rightarrow> string" where
  "c_str s = takeWhile (\<lambda>c. c \<noteq> nul) s"

fun strncmp_eq :: "nat \<Rightarrow> string \<Rightarrow> string \<Rightarrow> bool" where
  "strncmp_eq 0 a b = True"
| "strncmp_eq (Suc n) (x # a) (y # b) = (x = y \<and> (x = nul \<or> strncmp_eq n a b))"
| "strncmp_eq (Suc n) a b = (a = [] \<and> b = [])"

fun strncasecmp_eq :: "nat \<Rightarrow> string \<Rightarrow> string \<Rightarrow> bool" where
  "strncasecmp_eq 0 a b = True"
| "strncasecmp_eq (Suc n) (x # a) (y # b) =
     (lowercase x = lowercase y \<and> (x = nul \<or> strncasecmp_eq n a b))"
| "strncasecmp_eq (Suc n) a b = (a = [] \<and> b = [])"

section \<open>Prefixes, suffixes, searching\<close>

definition starts_with :: "string \<Rightarrow> string \<Rightarrow> bool" where
  "starts_with str prefix \<longleftrightarrow> take (length prefix) str = prefix"

definition starts_with_any :: "string \<Rightarrow> string list \<Rightarrow> bool" where
  "starts_with_any str prefixes \<longleftrightarrow> list_ex (starts_with str) prefixes"

definition ends_with :: "string \<Rightarrow> string \<Rightarrow> bool" where
  "ends_with str suffix \<longleftrightarrow>
     (if length suffix > length str then False else drop (length str - length suffix) str = suffix)"

text \<open>The overloads on views.\<close>

definition view_starts_with :: "string \<Rightarrow> string \<Rightarrow> bool" where
  "view_starts_with sv prefix \<longleftrightarrow>
     (if prefix = [] then True else if sv = [] then False
      else if length prefix > length sv then False else take (length prefix) sv = prefix)"

definition view_ends_with :: "string \<Rightarrow> string \<Rightarrow> bool" where
  "view_ends_with sv suffix \<longleftrightarrow>
     (if suffix = [] then True else if sv = [] then False
      else if length suffix > length sv then False
      else take (length suffix) (drop (length sv - length suffix) sv) = suffix)"

text \<open>\<open>std::string::find\<close>: the first position of the needle.\<close>

fun find_sub :: "string \<Rightarrow> string \<Rightarrow> nat option" where
  "find_sub needle [] = (if needle = [] then Some 0 else None)"
| "find_sub needle (c # cs) =
     (if starts_with (c # cs) needle then Some 0 else map_option Suc (find_sub needle cs))"

definition contains_string :: "string \<Rightarrow> string \<Rightarrow> bool" where
  "contains_string haystack needle \<longleftrightarrow> find_sub needle haystack \<noteq> None"

definition contains_char :: "string \<Rightarrow> char \<Rightarrow> bool" where
  "contains_char haystack needle \<longleftrightarrow> find_sub [needle] haystack \<noteq> None"

text \<open>\<open>Find\<close>: \<open>n\<close> is the number of positions left to try.\<close>

fun find_loop :: "nat \<Rightarrow> nat \<Rightarrow> string \<Rightarrow> string \<Rightarrow> nat option" where
  "find_loop 0 i needle rest = None"
| "find_loop (Suc n) i needle rest =
     (if strncmp_eq (length needle) rest needle then Some i
      else find_loop n (Suc i) needle (tl rest))"

definition find_view :: "string \<Rightarrow> string \<Rightarrow> nat option" where
  "find_view needle haystack =
     (if needle = [] then Some 0
      else if length needle > length haystack then None
      else find_loop (length haystack - (length needle - 1)) 0 needle haystack)"

definition case_insensitive_equal :: "string \<Rightarrow> string \<Rightarrow> bool" where
  "case_insensitive_equal a b \<longleftrightarrow> length a = length b \<and> list_all2 (\<lambda>x y. lowercase x = lowercase y) a b"

definition case_insensitive_eq :: "string \<Rightarrow> string \<Rightarrow> bool" where
  "case_insensitive_eq a b \<longleftrightarrow>
     (if length a \<noteq> length b then False else if length a = 0 then True
      else strncasecmp_eq (length a) a b)"

definition case_insensitive_one_of :: "string \<Rightarrow> string list \<Rightarrow> bool" where
  "case_insensitive_one_of sv others \<longleftrightarrow> list_ex (case_insensitive_eq sv) others"

section \<open>Joining, splitting, replacing\<close>

fun join_strings :: "string list \<Rightarrow> string \<Rightarrow> string" where
  "join_strings [] delim = []"
| "join_strings (p # ps) delim = p @ (if ps = [] then [] else delim @ join_strings ps delim)"

text \<open>The loop of \<open>SplitString\<close>, on the text from \<open>start\<close> on.\<close>

function split_loop :: "string \<Rightarrow> string \<Rightarrow> string list" where
  "split_loop delim rest =
     (if delim = [] then []
      else case find_sub delim rest of
        None \<Rightarrow> if rest = [] then [] else [rest]
      | Some i \<Rightarrow>
          (if 0 < i then [take i rest] else []) @
          (if length rest \<le> i + length delim then [] else split_loop delim (drop (i + length delim) rest)))"
  by pat_completeness auto
termination
  by (relation "measure (\<lambda>(d, r). length r)") (auto simp flip: length_greater_0_conv)

declare split_loop.simps [simp del]

definition split_string :: "string \<Rightarrow> string \<Rightarrow> string list option" where
  "split_string text delim = (if delim = [] then None else Some (split_loop delim text))"

function replace_loop :: "string \<Rightarrow> string \<Rightarrow> string \<Rightarrow> string" where
  "replace_loop from to rest =
     (if from = [] then rest
      else case find_sub from rest of
        None \<Rightarrow> rest
      | Some i \<Rightarrow> take i rest @ to @ replace_loop from to (drop (i + length from) rest))"
  by pat_completeness auto
termination
proof (relation "measure (\<lambda>(f, t, r). length r)")
  fix needle to rest :: string and i
  assume "needle \<noteq> []" and "find_sub needle rest = Some i"
  then have "0 < length needle" and "rest \<noteq> []"
    by auto
  then show "((needle, to, drop (i + length needle) rest), needle, to, rest) \<in> measure (\<lambda>(f, t, r). length r)"
    by simp
qed simp

declare replace_loop.simps [simp del]

definition replace_all :: "string \<Rightarrow> string \<Rightarrow> string \<Rightarrow> string option" where
  "replace_all str from to = (if from = [] then None else Some (replace_loop from to str))"

definition is_trimmed_char :: "char \<Rightarrow> bool" where
  "is_trimmed_char c \<longleftrightarrow> c = CHR 0x09 \<or> c = CHR 0x0A \<or> c = CHR 0x20"

definition trim_whitespace :: "string \<Rightarrow> string" where
  "trim_whitespace str =
     (let front_trimmed = dropWhile is_trimmed_char str
      in rev (dropWhile is_trimmed_char (rev front_trimmed)))"

definition strip_string_prefix :: "string \<Rightarrow> string \<Rightarrow> string" where
  "strip_string_prefix str prefix = (if starts_with str prefix then drop (length prefix) str else str)"

definition strip_string_suffix :: "string \<Rightarrow> string \<Rightarrow> string" where
  "strip_string_suffix str suffix =
     (if ends_with str suffix then take (length str - length suffix) str else str)"

definition to_upper :: "string \<Rightarrow> string" where
  "to_upper str = map uppercase str"

definition to_lower :: "string \<Rightarrow> string" where
  "to_lower str = map lowercase str"

text \<open>\<open>StripChars\<close> stops at a NUL, as \<open>strpbrk\<close> does.\<close>

fun strip_chars :: "string \<Rightarrow> string \<Rightarrow> char \<Rightarrow> string" where
  "strip_chars [] chars r = []"
| "strip_chars (c # cs) chars r =
     (if c = nul then c # cs
      else (if c \<in> set (c_str chars) then r else c) # strip_chars cs chars r)"

section \<open>Hexadecimal\<close>

fun show_hex :: "nat \<Rightarrow> string" where
  "show_hex n = (if n < 16 then [xdigit_char n] else show_hex (n div 16) @ [xdigit_char (n mod 16)])"

declare show_hex.simps [simp del]

definition hex2 :: "char \<Rightarrow> string" where
  "hex2 c = [xdigit_char (ch c div 16), xdigit_char (ch c mod 16)]"

definition to_hex :: "string \<Rightarrow> string" where
  "to_hex data = concat (map hex2 data)"

definition int_to_hex_string :: "u32 \<Rightarrow> string" where
  "int_to_hex_string n =
     ''0x'' @ (let h = show_hex (unat n) in if length h < 2 then CHR ''0'' # h else h)"

definition uint64_to_hex_string_no_prefix :: "u64 \<Rightarrow> string" where
  "uint64_to_hex_string_no_prefix n = show_hex (unat n)"

definition uint64_to_hex_string :: "u64 \<Rightarrow> string" where
  "uint64_to_hex_string n = ''0x'' @ uint64_to_hex_string_no_prefix n"

section \<open>Numbers\<close>

text \<open>The value of a character as a digit of \<open>base\<close>.\<close>

definition alnum_value :: "char \<Rightarrow> nat option" where
  "alnum_value c =
     (if ch CHR ''0'' \<le> ch c \<and> ch c \<le> ch CHR ''9'' then Some (ch c - 48)
      else if ch CHR ''a'' \<le> ch c \<and> ch c \<le> ch CHR ''z'' then Some (ch c - 87)
      else if ch CHR ''A'' \<le> ch c \<and> ch c \<le> ch CHR ''Z'' then Some (ch c - 55)
      else None)"

definition is_digit_of :: "nat \<Rightarrow> char \<Rightarrow> bool" where
  "is_digit_of base c \<longleftrightarrow> (case alnum_value c of None \<Rightarrow> False | Some d \<Rightarrow> d < base)"

definition value_of :: "nat \<Rightarrow> string \<Rightarrow> nat" where
  "value_of base s = foldl (\<lambda>a c. base * a + the (alnum_value c)) 0 s"

text \<open>
  \<open>strtol\<close> and its variants: whitespace, a sign, the prefix of base 16, digits. The result is the
  sign, the unbounded value and what follows, or \<open>None\<close> if there is no digit.
\<close>

definition take_sign :: "string \<Rightarrow> bool \<times> string" where
  "take_sign s =
     (case s of [] \<Rightarrow> (False, []) | c # cs \<Rightarrow>
        if c = CHR ''-'' then (True, cs) else if c = CHR ''+'' then (False, cs) else (False, s))"

definition skip_base_prefix :: "nat \<Rightarrow> string \<Rightarrow> string" where
  "skip_base_prefix base s =
     (case s of
        z # x # d # cs \<Rightarrow>
          if base = 16 \<and> z = CHR ''0'' \<and> (x = CHR ''x'' \<or> x = CHR ''X'') \<and> is_digit_of 16 d then d # cs else s
      | _ \<Rightarrow> s)"

definition scan_integer :: "nat \<Rightarrow> string \<Rightarrow> (bool \<times> nat \<times> string) option" where
  "scan_integer base s =
     (let (neg, s1) = take_sign (dropWhile is_space s);
          s2 = skip_base_prefix base s1;
          digits = takeWhile (is_digit_of base) s2
      in if digits = [] then None
         else Some (neg, value_of base digits, dropWhile (is_digit_of base) s2))"

definition clamp :: "int \<Rightarrow> int \<Rightarrow> int \<Rightarrow> int" where
  "clamp lo hi v = max lo (min hi v)"

definition strto_signed :: "nat \<Rightarrow> string \<Rightarrow> int \<times> string" where
  "strto_signed base s =
     (case scan_integer base s of
        None \<Rightarrow> (0, s)
      | Some (neg, v, rest) \<Rightarrow> (clamp (- (2 ^ 63)) (2 ^ 63 - 1) (if neg then - int v else int v), rest))"

definition strto_unsigned :: "nat \<Rightarrow> string \<Rightarrow> u64 \<times> string" where
  "strto_unsigned base s =
     (case scan_integer base s of
        None \<Rightarrow> (0, s)
      | Some (neg, v, rest) \<Rightarrow>
          (if 2 ^ 64 \<le> v then - 1 else if neg then - of_nat v else of_nat v, rest))"

text \<open>The whole string has to be a number.\<close>

definition whole :: "string \<Rightarrow> string \<Rightarrow> 'a \<Rightarrow> 'a option" where
  "whole s rest v = (if s \<noteq> [] \<and> rest = [] then Some v else None)"

definition c_string_to_uint32 :: "string \<Rightarrow> nat \<Rightarrow> u32 option" where
  "c_string_to_uint32 s base = (let (v, rest) = strto_unsigned base s in whole s rest (ucast v))"

definition c_string_to_int32 :: "string \<Rightarrow> nat \<Rightarrow> i32 option" where
  "c_string_to_int32 s base = (let (v, rest) = strto_signed base s in whole s rest (word_of_int v))"

definition c_string_to_int64 :: "string \<Rightarrow> nat \<Rightarrow> u64 option" where
  "c_string_to_int64 s base = (let (v, rest) = strto_signed base s in whole s rest (word_of_int v))"

definition c_string_to_uint64 :: "string \<Rightarrow> nat \<Rightarrow> u64 option" where
  "c_string_to_uint64 s base = (let (v, rest) = strto_unsigned base s in whole s rest v)"

definition c_string_to_double :: "(string \<Rightarrow> f64 \<times> string) \<Rightarrow> string \<Rightarrow> f64 option" where
  "c_string_to_double strtod s = (let (v, rest) = strtod s in whole s rest v)"

definition string_to_uint32 :: "string \<Rightarrow> nat \<Rightarrow> u32 option" where
  "string_to_uint32 s base = c_string_to_uint32 (c_str s) base"

definition string_to_int32 :: "string \<Rightarrow> nat \<Rightarrow> i32 option" where
  "string_to_int32 s base = c_string_to_int32 (c_str s) base"

definition string_to_uint64 :: "string \<Rightarrow> nat \<Rightarrow> u64 option" where
  "string_to_uint64 s base = c_string_to_uint64 (c_str s) base"

definition string_to_int64 :: "string \<Rightarrow> nat \<Rightarrow> u64 option" where
  "string_to_int64 s base = c_string_to_int64 (c_str s) base"

definition string_to_double :: "(string \<Rightarrow> f64 \<times> string) \<Rightarrow> string \<Rightarrow> f64 option" where
  "string_to_double strtod s = c_string_to_double strtod (c_str s)"

text \<open>\<open>std::from_chars\<close> on the whole view: no whitespace, no \<open>+\<close>, \<open>-\<close> for signed types only.\<close>

definition from_chars :: "int \<Rightarrow> int \<Rightarrow> nat \<Rightarrow> string \<Rightarrow> int option" where
  "from_chars lo hi base s =
     (let (neg, digits) = (case s of c # cs \<Rightarrow> if c = CHR ''-'' \<and> lo < 0 then (True, cs) else (False, s)
                                   | [] \<Rightarrow> (False, s));
          v = (if neg then - int (value_of base digits) else int (value_of base digits))
      in if digits \<noteq> [] \<and> list_all (is_digit_of base) digits \<and> lo \<le> v \<and> v \<le> hi then Some v else None)"

definition string_view_to_number :: "int \<Rightarrow> int \<Rightarrow> nat \<Rightarrow> string \<Rightarrow> int option" where
  "string_view_to_number lo hi base sv =
     (let start_offset = (if sv \<noteq> [] \<and> hd sv = CHR ''+'' then 1 else 0)
      in from_chars lo hi base (drop start_offset sv))"

definition string_view_to_int32 :: "string \<Rightarrow> nat \<Rightarrow> i32 option" where
  "string_view_to_int32 sv base =
     map_option word_of_int (string_view_to_number (- (2 ^ 31)) (2 ^ 31 - 1) base sv)"

definition string_view_to_int64 :: "string \<Rightarrow> nat \<Rightarrow> u64 option" where
  "string_view_to_int64 sv base =
     map_option word_of_int (string_view_to_number (- (2 ^ 63)) (2 ^ 63 - 1) base sv)"

definition string_view_to_uint32 :: "string \<Rightarrow> nat \<Rightarrow> u32 option" where
  "string_view_to_uint32 sv base =
     (if sv \<noteq> [] \<and> hd sv = CHR ''-'' then string_view_to_int32 sv base
      else map_option word_of_int (string_view_to_number 0 (2 ^ 32 - 1) base sv))"

definition string_view_to_uint64 :: "string \<Rightarrow> nat \<Rightarrow> u64 option" where
  "string_view_to_uint64 sv base =
     (if sv \<noteq> [] \<and> hd sv = CHR ''-'' then string_view_to_int64 sv base
      else map_option word_of_int (string_view_to_number 0 (2 ^ 64 - 1) base sv))"

section \<open>UTF-8\<close>

text \<open>The length a first byte announces.\<close>

definition utf8_length :: "byte \<Rightarrow> nat option" where
  "utf8_length c =
     (if c AND 0x80 = 0 then Some 1
      else if c AND 0xE0 = 0xC0 then Some 2
      else if c AND 0xF0 = 0xE0 then Some 3
      else if c AND 0xF8 = 0xF0 then Some 4
      else None)"

text \<open>Overlong encodings, surrogates and values above \<open>0x10FFFF\<close>, from the first two bytes.\<close>

definition utf8_excluded :: "nat \<Rightarrow> byte \<Rightarrow> byte \<Rightarrow> bool" where
  "utf8_excluded n c byte2 \<longleftrightarrow>
     n = 2 \<and> c < 0xC2 \<or>
     n = 3 \<and> (c = 0xE0 \<and> byte2 < 0xA0 \<or> c = 0xED \<and> byte2 \<ge> 0xA0) \<or>
     n = 4 \<and> (c = 0xF0 \<and> byte2 < 0x90 \<or> c = 0xF4 \<and> byte2 > 0x8F)"

definition is_continuation :: "byte \<Rightarrow> bool" where
  "is_continuation b \<longleftrightarrow> b AND 0xC0 = 0x80"

text \<open>Is there a sequence at the front, and how many bytes does the loop go on?\<close>

definition utf8_step :: "byte list \<Rightarrow> bool \<times> nat" where
  "utf8_step s =
     (case utf8_length (hd s) of
        None \<Rightarrow> (False, 1)
      | Some n \<Rightarrow>
          if n > length s then (False, 1)
          else (\<not> utf8_excluded n (hd s) (s ! 1) \<and> list_all is_continuation (tl (take n s)), n))"

lemma utf8_step_pos: "0 < snd (utf8_step s)"
  by (auto simp: utf8_step_def utf8_length_def split: option.splits if_splits)

function utf8_clean :: "byte list \<Rightarrow> byte list" where
  "utf8_clean s =
     (if s = [] then []
      else let (valid, n) = utf8_step s
           in (if valid then take n s else []) @ utf8_clean (drop n s))"
  by pat_completeness auto
termination
proof (relation "measure length")
  fix s :: "byte list" and p :: "bool \<times> nat" and valid n
  assume "s \<noteq> []" and "p = utf8_step s" and "(valid, n) = p"
  then have "0 < n"
    using utf8_step_pos [of s] by (metis snd_conv)
  with \<open>s \<noteq> []\<close> show "(drop n s, s) \<in> measure length"
    by simp
qed simp

declare utf8_clean.simps [simp del]

definition check_ascii_and_remove_invalid_utf8 :: "byte list \<Rightarrow> byte list \<Rightarrow> bool \<times> byte list" where
  "check_ascii_and_remove_invalid_utf8 str out =
     (if list_all (\<lambda>c. c AND 0x80 = 0) str then (True, out) else (False, utf8_clean str))"

section \<open>Buffers and lines\<close>

text \<open>\<open>StringCopy\<close> of a C string: \<open>src\<close> is its characters up to the NUL.\<close>

definition string_copy :: "string \<Rightarrow> string \<Rightarrow> string" where
  "string_copy dst src =
     (if length src < length dst then splice_at 0 (src @ [nul]) dst
      else if length dst > 0 then take (length dst - 1) src @ [nul] else dst)"

text \<open>\<open>SprintfTrunc\<close>, given the text of the format (\<open>None\<close> if \<open>vsnprintf\<close> fails).\<close>

definition sprintf_trunc :: "string \<Rightarrow> string option \<Rightarrow> string \<times> nat" where
  "sprintf_trunc dst formatted =
     (if dst = [] then (dst, 0)
      else case formatted of
        None \<Rightarrow> (splice_at 0 [nul] dst, 0)
      | Some src \<Rightarrow>
          if src = [] then (splice_at 0 [nul] dst, 0)
          else if length src < length dst then (splice_at 0 (src @ [nul]) dst, length src)
          else (take (length dst - 1) src @ [nul], length dst - 1))"

record line_with_offset =
  line_text :: string
  line_offset :: nat
  line_num :: nat

text \<open>The loop is at position \<open>i\<close>, \<open>rest\<close> follows; texts are shorter than \<open>2^32\<close>.\<close>

fun find_line_loop :: "string \<Rightarrow> nat \<Rightarrow> nat \<Rightarrow> nat \<Rightarrow> nat \<Rightarrow> string \<Rightarrow> line_with_offset option" where
  "find_line_loop str offset start num i [] = None"
| "find_line_loop str offset start num i (c # rest) =
     (if c = CHR 0x0A then find_line_loop str offset (i + 1) (num + 1) (i + 1) rest
      else if i = offset then
        (let end_offset = i + length (takeWhile (\<lambda>c. c \<noteq> CHR 0x0A) (c # rest))
         in Some \<lparr>line_text = take (end_offset - start) (drop start str), line_offset = offset - start,
                  line_num = num\<rparr>)
      else find_line_loop str offset start num (i + 1) rest)"

definition find_line_with_offset :: "string \<Rightarrow> nat \<Rightarrow> line_with_offset option" where
  "find_line_with_offset str offset = find_line_loop str offset 0 1 0 str"

end
