(* ===== verification/Config.thy ===== *)
theory Config
  imports Json_Text String_Utils
begin

text \<open>
  Configuration (\<open>config/config.h\<close>, \<open>config/config.cc\<close>, \<open>config/config_watcher.cc\<close>): options with defaults, values at
  dotted paths in a JSON object, and their sources: a file, the command line, the environment.

  The conversions of floating-point numbers and the file system are the record \<open>conf_lib\<close>. What goes to the log and to
  standard output is left out; \<open>_Exit\<close> is an outcome.
\<close>

record conf_lib =
  l_stod :: "string \<Rightarrow> f64 option"
  l_strtod :: "string \<Rightarrow> f64 \<times> string"
  l_format :: "f64 \<Rightarrow> string"
  l_read :: "string \<Rightarrow> string option"
  l_can_write :: "string \<Rightarrow> bool"

section \<open>State\<close>

record conf_option =
  o_name :: string
  o_short :: string
  o_description :: string
  o_default :: json
  o_required :: bool

definition make_option :: "string \<Rightarrow> string \<Rightarrow> json \<Rightarrow> bool \<Rightarrow> conf_option" where
  "make_option name description default_value required =
     \<lparr>o_name = name, o_short = [], o_description = description, o_default = default_value, o_required = required\<rparr>"

record config =
  c_options :: "(string, conf_option) omap"
  c_data :: json
  c_loaded :: bool
  c_no_parsed :: "string list"

definition new_config :: config where
  "new_config = \<lparr>c_options = [], c_data = json_object, c_loaded = False, c_no_parsed = []\<rparr>"

section \<open>Paths\<close>

text \<open>\<open>std::getline\<close> with a dot as the end of a line; empty parts are dropped.\<close>

lemma shorter_rest: "s \<noteq> [] \<Longrightarrow> length (drop (Suc 0) (dropWhile P s)) < length s"
  using length_dropWhile_le [of P s] by (cases s) (simp_all del: dropWhile.simps)

function split_dots :: "string \<Rightarrow> string list" where
  "split_dots s =
     (if s = [] then []
      else takeWhile (\<lambda>c. c \<noteq> CHR ''.'') s # split_dots (drop 1 (dropWhile (\<lambda>c. c \<noteq> CHR ''.'') s)))"
  by pat_completeness auto
termination
  by (relation "measure length")
    (simp_all add: shorter_rest del: length_drop)

declare split_dots.simps [simp del]

definition split_path :: "string \<Rightarrow> string list" where
  "split_path path = filter (\<lambda>part. part \<noteq> []) (split_dots path)"

text \<open>The loops of \<open>Get\<close> and \<open>Set\<close> along the parts.\<close>

fun get_at :: "json \<Rightarrow> string list \<Rightarrow> json option" where
  "get_at current [] = Some current"
| "get_at current (part # parts) =
     (if \<not> is_object current then None
      else if \<not> has_key current part then None
      else case at_key current part of Inl e \<Rightarrow> None | Inr j \<Rightarrow> get_at j parts)"

text \<open>A value that is not an object gives way to an empty one.\<close>

definition members_of :: "json \<Rightarrow> (string, json) omap" where
  "members_of j = (case j of JObject m \<Rightarrow> m | _ \<Rightarrow> [])"

fun set_at :: "string list \<Rightarrow> json \<Rightarrow> json \<Rightarrow> json" where
  "set_at [] v current = current"
| "set_at [part] v current = JObject (omap_set part v (members_of current))"
| "set_at (part # next_part # parts) v current =
     (let m = members_of current;
          child = (case omap_find m part of Some j \<Rightarrow> j | None \<Rightarrow> json_object)
      in JObject (omap_set part (set_at (next_part # parts) v child) m))"

definition config_get :: "config \<Rightarrow> string \<Rightarrow> json option" where
  "config_get c path = (let parts = split_path path in if parts = [] then None else get_at (c_data c) parts)"

definition config_has :: "config \<Rightarrow> string \<Rightarrow> bool" where
  "config_has c path \<longleftrightarrow> config_get c path \<noteq> None"

definition config_set :: "string \<Rightarrow> json \<Rightarrow> config \<Rightarrow> config" where
  "config_set path v c = (let parts = split_path path in if parts = [] then c else c\<lparr>c_data := set_at parts v (c_data c)\<rparr>)"

section \<open>Typed access\<close>

text \<open>\<open>to_json_value\<close> and \<open>from_json_value\<close>, type by type; an \<open>int\<close> takes the low 32 bits.\<close>

definition to_json_string :: "string \<Rightarrow> json" where
  "to_json_string s = JString s"

definition to_json_i32 :: "i32 \<Rightarrow> json" where
  "to_json_i32 i = JInt (scast i)"

definition to_json_i64 :: "u64 \<Rightarrow> json" where
  "to_json_i64 i = JInt i"

definition to_json_double :: "f64 \<Rightarrow> json" where
  "to_json_double d = JFloat d"

definition to_json_bool :: "bool \<Rightarrow> json" where
  "to_json_bool b = JBool b"

definition to_json_vector :: "('a \<Rightarrow> json) \<Rightarrow> 'a list \<Rightarrow> json" where
  "to_json_vector elem xs = JArray (map elem xs)"

definition from_json_string :: "json \<Rightarrow> string option" where
  "from_json_string j = (case j of JString s \<Rightarrow> Some s | _ \<Rightarrow> None)"

definition from_json_i64 :: "json \<Rightarrow> u64 option" where
  "from_json_i64 j = (case j of JInt i \<Rightarrow> Some i | _ \<Rightarrow> None)"

definition from_json_i32 :: "json \<Rightarrow> i32 option" where
  "from_json_i32 j = (case j of JInt i \<Rightarrow> Some (ucast i) | _ \<Rightarrow> None)"

definition from_json_double :: "(u64 \<Rightarrow> f64) \<Rightarrow> json \<Rightarrow> f64 option" where
  "from_json_double i2d j = (case j of JFloat d \<Rightarrow> Some d | JInt i \<Rightarrow> Some (i2d i) | _ \<Rightarrow> None)"

definition from_json_bool :: "json \<Rightarrow> bool option" where
  "from_json_bool j = (case j of JBool b \<Rightarrow> Some b | _ \<Rightarrow> None)"

definition from_json_vector :: "(json \<Rightarrow> 'a option) \<Rightarrow> json \<Rightarrow> 'a list option" where
  "from_json_vector elem j = (case j of JArray a \<Rightarrow> Some (List.map_filter elem a) | _ \<Rightarrow> None)"

definition config_get_as :: "(json \<Rightarrow> 'a option) \<Rightarrow> config \<Rightarrow> string \<Rightarrow> 'a option" where
  "config_get_as from_json c path = (case config_get c path of None \<Rightarrow> None | Some j \<Rightarrow> from_json j)"

definition config_get_string :: "config \<Rightarrow> string \<Rightarrow> string option" where
  "config_get_string = config_get_as from_json_string"

definition config_get_int :: "config \<Rightarrow> string \<Rightarrow> u64 option" where
  "config_get_int = config_get_as from_json_i64"

definition config_get_double :: "(u64 \<Rightarrow> f64) \<Rightarrow> config \<Rightarrow> string \<Rightarrow> f64 option" where
  "config_get_double i2d = config_get_as (from_json_double i2d)"

definition config_get_bool :: "config \<Rightarrow> string \<Rightarrow> bool option" where
  "config_get_bool = config_get_as from_json_bool"

text \<open>\<open>GetOr\<close>: \<open>Inl\<close> the path when it throws.\<close>

definition get_or_default :: "(json \<Rightarrow> 'a option) \<Rightarrow> config \<Rightarrow> string \<Rightarrow> string + 'a" where
  "get_or_default from_json c path =
     (case config_get_as from_json c path of
        Some v \<Rightarrow> Inr v
      | None \<Rightarrow>
          (case omap_find (c_options c) path of
             None \<Rightarrow> Inl path
           | Some opt \<Rightarrow> (case from_json (o_default opt) of Some d \<Rightarrow> Inr d | None \<Rightarrow> Inl path)))"

definition get_or_fallback :: "(json \<Rightarrow> 'a option) \<Rightarrow> config \<Rightarrow> string \<Rightarrow> 'a \<Rightarrow> 'a" where
  "get_or_fallback from_json c path fallback =
     (case config_get_as from_json c path of Some v \<Rightarrow> v | None \<Rightarrow> fallback)"

section \<open>Options\<close>

definition define_option :: "string \<Rightarrow> string \<Rightarrow> json \<Rightarrow> bool \<Rightarrow> config \<Rightarrow> config" where
  "define_option name description default_value required c =
     (let c1 = c\<lparr>c_options := omap_set name (make_option name description default_value required) (c_options c)\<rparr>
      in if \<not> required \<and> \<not> config_has c1 name then config_set name default_value c1 else c1)"

definition short_taken :: "config \<Rightarrow> string \<Rightarrow> string \<Rightarrow> bool" where
  "short_taken c name alias \<longleftrightarrow> list_ex (\<lambda>(n, opt). n \<noteq> name \<and> o_short opt = alias) (c_options c)"

definition set_short :: "string \<Rightarrow> string \<Rightarrow> config \<Rightarrow> config" where
  "set_short name alias c =
     (case omap_find (c_options c) name of
        None \<Rightarrow> c
      | Some opt \<Rightarrow>
          if alias \<noteq> [] \<and> length alias \<noteq> 1 then c
          else if alias \<noteq> [] \<and> short_taken c name alias then c
          else c\<lparr>c_options := omap_set name (opt\<lparr>o_short := alias\<rparr>) (c_options c)\<rparr>)"

definition apply_defaults :: "config \<Rightarrow> config" where
  "apply_defaults c =
     fold (\<lambda>(name, opt) c. if \<not> o_required opt \<and> \<not> config_has c name then config_set name (o_default opt) c else c)
       (c_options c) c"

definition missing_required :: "config \<Rightarrow> string list" where
  "missing_required c = map fst (filter (\<lambda>(name, opt). o_required opt \<and> \<not> config_has c name) (c_options c))"

definition config_validate :: "config \<Rightarrow> bool" where
  "config_validate c \<longleftrightarrow> missing_required c = []"

section \<open>Files\<close>

lemma size_member: "(k, v) \<in> set m \<Longrightarrow> size v < size (JObject m)"
  by (induction m) auto

function merge_objects :: "json \<Rightarrow> json \<Rightarrow> json" where
  "merge_objects base overlay =
     (case (base, overlay) of
        (JObject m, JObject m') \<Rightarrow>
          JObject (fold (\<lambda>(k, v) r.
             (case omap_find r k of
                Some old \<Rightarrow> if is_object old \<and> is_object v then omap_set k (merge_objects old v) r else omap_set k v r
              | None \<Rightarrow> omap_set k v r)) m' m)
      | _ \<Rightarrow> overlay)"
  by pat_completeness auto
termination
  by (relation "measure (size \<circ> snd)") (auto dest: size_member)

declare merge_objects.simps [simp del]

definition parse_json_config :: "json \<Rightarrow> config \<Rightarrow> bool \<times> config" where
  "parse_json_config j c =
     (let c1 = apply_defaults c;
          c2 = (if is_object j then c1\<lparr>c_data := merge_objects (c_data c1) j\<rparr> else c1)
      in (config_validate c2, c2))"

definition parse_config :: "conf_lib \<Rightarrow> string \<Rightarrow> config \<Rightarrow> bool \<times> config" where
  "parse_config L json_content c =
     (case json_parse (l_stod L) json_content of
        None \<Rightarrow> (False, c)
      | Some j \<Rightarrow> parse_json_config j c)"

definition load_file :: "conf_lib \<Rightarrow> string \<Rightarrow> config \<Rightarrow> bool \<times> config" where
  "load_file L filename c =
     (case l_read L filename of None \<Rightarrow> (False, c) | Some content \<Rightarrow> parse_config L content c)"

definition config_to_string :: "conf_lib \<Rightarrow> config \<Rightarrow> string" where
  "config_to_string L c = json_dump (l_format L) (c_data c) 2"

text \<open>\<open>Save\<close>: what the file holds afterwards, if it could be opened.\<close>

definition config_save :: "conf_lib \<Rightarrow> string \<Rightarrow> config \<Rightarrow> string option" where
  "config_save L filename c = (if \<not> l_can_write L filename then None else Some (config_to_string L c))"

section \<open>The command line\<close>

definition is_flag :: "string \<Rightarrow> bool" where
  "is_flag arg \<longleftrightarrow> length arg \<ge> 2 \<and> arg ! 0 = CHR ''-'' \<and> (arg ! 1 = CHR ''-'' \<or> \<not> is_digit (arg ! 1))"

text \<open>\<open>std::stoll\<close>: reads a prefix of the text; throws without digits and out of range.\<close>

definition std_stoll :: "string \<Rightarrow> u64 option" where
  "std_stoll s =
     (case scan_integer 10 (c_str s) of
        None \<Rightarrow> None
      | Some (neg, v, rest) \<Rightarrow>
          (let i = (if neg then - int v else int v)
           in if i < - (2 ^ 63) \<or> 2 ^ 63 \<le> i then None else Some (word_of_int i)))"

definition parse_option_value :: "conf_lib \<Rightarrow> string \<Rightarrow> json \<Rightarrow> json option" where
  "parse_option_value L value_str default_value =
     (case default_value of
        JString _ \<Rightarrow> Some (JString value_str)
      | JInt _ \<Rightarrow> map_option JInt (std_stoll value_str)
      | JFloat _ \<Rightarrow> map_option JFloat (l_stod L value_str)
      | JBool _ \<Rightarrow>
          (let lower = to_lower value_str
           in if lower \<in> {''true'', ''1'', ''yes'', ''on''} then Some (JBool True)
              else if lower \<in> {''false'', ''0'', ''no'', ''off''} then Some (JBool False)
              else None)
      | JArray _ \<Rightarrow> json_parse (l_stod L) value_str
      | JObject _ \<Rightarrow> json_parse (l_stod L) value_str
      | JNull \<Rightarrow> None)"

definition short_to_long :: "config \<Rightarrow> (string, string) omap" where
  "short_to_long c = fold (\<lambda>(n, opt) m. if o_short opt \<noteq> [] then omap_set (o_short opt) n m else m) (c_options c) []"

text \<open>The first pass: the file to load; only the first one is.\<close>

definition config_file_flag :: string where
  "config_file_flag = ''--config-file''"

definition load_once :: "conf_lib \<Rightarrow> string \<Rightarrow> config \<Rightarrow> bool \<times> config" where
  "load_once L file c =
     (if file = [] \<or> c_loaded c then (True, c)
      else case load_file L file c of
        (False, c1) \<Rightarrow> (False, c1)
      | (True, c1) \<Rightarrow> (True, c1\<lparr>c_loaded := True\<rparr>))"

definition config_file_of :: "string \<Rightarrow> string" where
  "config_file_of arg = (if take 14 arg = config_file_flag @ ''='' then drop 14 arg else [])"

fun first_pass :: "conf_lib \<Rightarrow> string list \<Rightarrow> config \<Rightarrow> bool \<times> config" where
  "first_pass L [] c = (True, c)"
| "first_pass L [arg] c = load_once L (config_file_of arg) c"
| "first_pass L (arg # file # args) c =
     (if arg = config_file_flag
      then (case load_once L file c of (ok, c1) \<Rightarrow> if ok then first_pass L args c1 else (False, c1))
      else (case load_once L (config_file_of arg) c of (ok, c1) \<Rightarrow> if ok then first_pass L (file # args) c1 else (False, c1)))"

text \<open>
  The second pass reads an argument, and with it perhaps the next one, as one of: a chain of flags to switch on, an
  argument to be handed back, a key with or without a value.
\<close>

datatype arg_form = Chain "string list" | Unparsed | Keyed string "string option"

definition following_value :: "string list \<Rightarrow> string option \<times> string list" where
  "following_value args =
     (case args of [] \<Rightarrow> (None, []) | v # rest \<Rightarrow> if is_flag v then (None, args) else (Some v, rest))"

definition long_form :: "string \<Rightarrow> string list \<Rightarrow> arg_form \<times> string list" where
  "long_form long_arg args =
     (if CHR ''='' \<in> set long_arg
      then (Keyed (takeWhile (\<lambda>c. c \<noteq> CHR ''='') long_arg)
              (Some (drop 1 (dropWhile (\<lambda>c. c \<noteq> CHR ''='') long_arg))), args)
      else (case following_value args of (v, rest) \<Rightarrow> (Keyed long_arg v, rest)))"

definition bool_default :: "config \<Rightarrow> string \<Rightarrow> bool" where
  "bool_default c name \<longleftrightarrow> (case omap_find (c_options c) name of None \<Rightarrow> False | Some opt \<Rightarrow> is_bool (o_default opt))"

definition known_bool :: "config \<Rightarrow> (string, string) omap \<Rightarrow> char \<Rightarrow> bool" where
  "known_bool c short x \<longleftrightarrow> (case omap_find short [x] of None \<Rightarrow> False | Some name \<Rightarrow> bool_default c name)"

definition short_form :: "config \<Rightarrow> (string, string) omap \<Rightarrow> string \<Rightarrow> string list \<Rightarrow> arg_form \<times> string list" where
  "short_form c short body args =
     (if list_all (known_bool c short) body \<and> length body > 1
      then (Chain (map (\<lambda>x. the (omap_find short [x])) body), args)
      else case omap_find short [hd body] of
        None \<Rightarrow> (Unparsed, args)
      | Some name \<Rightarrow>
          if length body > 1
          then (Keyed name (Some (if body ! 1 = CHR ''='' then drop 2 body else drop 1 body)), args)
          else if bool_default c name then (Keyed name None, args)
          else (case following_value args of (v, rest) \<Rightarrow> (Keyed name v, rest)))"

definition read_arg :: "config \<Rightarrow> (string, string) omap \<Rightarrow> string \<Rightarrow> string list \<Rightarrow> arg_form \<times> string list" where
  "read_arg c short arg args =
     (if length arg \<ge> 2 \<and> take 2 arg = ''--'' then long_form (drop 2 arg) args
      else if length arg \<ge> 2 \<and> arg ! 0 = CHR ''-'' \<and> arg ! 1 \<noteq> CHR ''-'' then short_form c short (drop 1 arg) args
      else (Unparsed, args))"

definition hand_back :: "string list \<Rightarrow> config \<Rightarrow> config" where
  "hand_back args c = c\<lparr>c_no_parsed := c_no_parsed c @ args\<rparr>"

text \<open>What an argument does: \<open>None\<close> when \<open>ParseArgs\<close> returns false.\<close>

definition set_option :: "conf_lib \<Rightarrow> string \<Rightarrow> conf_option \<Rightarrow> string option \<Rightarrow> config \<Rightarrow> config option" where
  "set_option L key opt v c =
     (case v of
        None \<Rightarrow> if is_bool (o_default opt) then Some (config_set key (JBool True) c) else None
      | Some value_str \<Rightarrow>
          if value_str = [] \<and> is_bool (o_default opt) then Some (config_set key (JBool True) c)
          else map_option (\<lambda>j. config_set key j c) (parse_option_value L value_str (o_default opt)))"

definition apply_arg :: "conf_lib \<Rightarrow> string \<Rightarrow> arg_form \<Rightarrow> config \<Rightarrow> config option" where
  "apply_arg L arg form c =
     (case form of
        Chain names \<Rightarrow> Some (fold (\<lambda>name. config_set name (JBool True)) names c)
      | Unparsed \<Rightarrow> Some (hand_back [arg] c)
      | Keyed key v \<Rightarrow>
          if key = [] then Some (hand_back [arg] c)
          else case omap_find (c_options c) key of
            None \<Rightarrow> Some (hand_back ((''--'' @ key) # (case v of None \<Rightarrow> [] | Some s \<Rightarrow> [s])) c)
          | Some opt \<Rightarrow> set_option L key opt v c)"

datatype args_result = Parsed bool | Exit_help | Exit_dump

lemma following_value_shorter: "length (snd (following_value args)) \<le> length args"
  by (simp add: following_value_def split: list.split)

lemma read_arg_shorter: "length (snd (read_arg c short arg args)) \<le> length args"
  by (auto simp: read_arg_def long_form_def short_form_def split: option.split prod.split
      dest: arg_cong [where f = snd] intro: order_trans [OF _ following_value_shorter])

function second_pass ::
    "conf_lib \<Rightarrow> (string, string) omap \<Rightarrow> bool \<Rightarrow> string list \<Rightarrow> config \<Rightarrow> args_result \<times> config" where
  "second_pass L short allow_exit args c =
     (case args of
        [] \<Rightarrow> (Parsed (config_validate c), c)
      | arg # rest \<Rightarrow>
          if arg \<in> {''-h'', ''--help''} \<and> allow_exit then (Exit_help, c)
          else if arg = ''--dump'' \<and> allow_exit then (Exit_dump, c)
          else if arg = config_file_flag then second_pass L short allow_exit (drop 1 rest) c
          else if take 14 arg = config_file_flag @ ''='' then second_pass L short allow_exit rest c
          else (case apply_arg L arg (fst (read_arg c short arg rest)) c of
                  None \<Rightarrow> (Parsed False, c)
                | Some c1 \<Rightarrow> second_pass L short allow_exit (snd (read_arg c short arg rest)) c1))"
  by pat_completeness auto
termination
  by (relation "measure (\<lambda>(L, short, allow_exit, args, c). length args)")
    (auto simp: less_Suc_eq_le read_arg_shorter)

declare second_pass.simps [simp del]

definition parse_args :: "conf_lib \<Rightarrow> bool \<Rightarrow> string list \<Rightarrow> config \<Rightarrow> args_result \<times> config" where
  "parse_args L allow_exit args c =
     (case args of
        [] \<Rightarrow> (Parsed True, c)
      | program # rest \<Rightarrow>
          (let c1 = (apply_defaults c)\<lparr>c_no_parsed := [program]\<rparr>; short = short_to_long c1
           in case first_pass L rest c1 of
                (False, c2) \<Rightarrow> (Parsed False, c2)
              | (True, c2) \<Rightarrow> second_pass L short allow_exit rest c2))"

section \<open>Help\<close>

definition newline :: char where
  "newline = CHR 0x0A"

definition help_option :: "conf_lib \<Rightarrow> conf_option \<Rightarrow> string" where
  "help_option L opt =
     ''  --'' @ o_name opt @ (if o_short opt \<noteq> [] then '', -'' @ o_short opt else []) @
     (if o_required opt then '' (required)''
      else '' (default: '' @
        (case o_default opt of JString s \<Rightarrow> s | j \<Rightarrow> json_dump (l_format L) j 0) @ '')'') @
     newline # ''      '' @ o_description opt @ [newline]"

definition config_help :: "conf_lib \<Rightarrow> config \<Rightarrow> string" where
  "config_help L c =
     ''Configuration Options:'' @ newline #
     ''  --config-file <file>'' @ newline #
     ''      Load configuration from JSON file. Command line arguments'' @ newline #
     ''      can override values from the config file.'' @ newline # newline #
     concat (map (help_option L \<circ> snd) (c_options c))"

section \<open>The environment\<close>

text \<open>The key of a variable, if it has the prefix; \<open>up_prefix\<close> is already in upper case.\<close>

definition env_key :: "string \<Rightarrow> string \<Rightarrow> string option" where
  "env_key up_prefix raw_key =
     (if up_prefix \<noteq> [] \<and> \<not> (length raw_key \<ge> length up_prefix + 1 \<and> take (length up_prefix) raw_key = up_prefix \<and>
            raw_key ! length up_prefix = CHR ''_'')
      then None
      else Some (map (\<lambda>x. if x = CHR ''_'' then CHR ''.'' else lowercase x) raw_key))"

definition env_value :: "conf_lib \<Rightarrow> string \<Rightarrow> json" where
  "env_value L v =
     (let lower = to_lower v
      in if lower = ''true'' \<or> lower = ''yes'' then JBool True
         else if lower = ''false'' \<or> lower = ''no'' then JBool False
         else case string_to_int64 v 10 of
           Some i \<Rightarrow> JInt i
         | None \<Rightarrow> (case string_to_double (l_strtod L) v of Some d \<Rightarrow> JFloat d | None \<Rightarrow> JString v))"

definition env_entry :: "conf_lib \<Rightarrow> string \<Rightarrow> string \<Rightarrow> nat \<times> config \<Rightarrow> nat \<times> config" where
  "env_entry L up_prefix entry ac =
     (case ac of (applied, c) \<Rightarrow>
        if CHR ''='' \<notin> set entry then ac
        else case env_key up_prefix (takeWhile (\<lambda>x. x \<noteq> CHR ''='') entry) of
          None \<Rightarrow> ac
        | Some key \<Rightarrow>
            if key = [] then ac
            else (Suc applied, config_set key (env_value L (drop 1 (dropWhile (\<lambda>x. x \<noteq> CHR ''='') entry))) c))"

definition load_env :: "conf_lib \<Rightarrow> string list \<Rightarrow> string \<Rightarrow> config \<Rightarrow> nat \<times> config" where
  "load_env L environ env_prefix c = fold (env_entry L (to_upper env_prefix)) environ (0, c)"

section \<open>Watching the file\<close>

text \<open>
  \<open>ConfigWatcher\<close>: the configuration file is watched through its directory. \<open>inotify\<close> delivers the names that changed;
  the callback, where one was given, is called with the configuration.
\<close>

record watcher =
  w_filename :: string
  w_base_name :: string
  w_watching :: bool
  w_on_reload :: bool

definition new_watcher :: watcher where
  "new_watcher = \<lparr>w_filename = [], w_base_name = [], w_watching = False, w_on_reload = False\<rparr>"

definition stop_watch :: "watcher \<Rightarrow> watcher" where
  "stop_watch w = (if w_watching w then w\<lparr>w_watching := False, w_on_reload := False\<rparr> else w)"

definition split_file_name :: "string \<Rightarrow> string \<times> string" where
  "split_file_name filename =
     (if CHR ''/'' \<notin> set filename then (''.'', filename)
      else (rev (drop 1 (dropWhile (\<lambda>x. x \<noteq> CHR ''/'') (rev filename))),
            rev (takeWhile (\<lambda>x. x \<noteq> CHR ''/'') (rev filename))))"

definition start_watch :: "bool \<Rightarrow> (string \<Rightarrow> bool) \<Rightarrow> string \<Rightarrow> bool \<Rightarrow> watcher \<Rightarrow> bool \<times> watcher" where
  "start_watch inotify_ok watch_ok filename on_reload w =
     (let w1 = stop_watch w; (dir, base) = split_file_name filename
      in if \<not> inotify_ok then (False, w1)
         else if \<not> watch_ok dir then (False, w1\<lparr>w_base_name := base\<rparr>)
         else (True, w1\<lparr>w_base_name := base, w_filename := filename, w_watching := True, w_on_reload := on_reload\<rparr>))"

text \<open>Whether the callback was called, and the configuration.\<close>

definition on_fd_ready :: "conf_lib \<Rightarrow> string list \<Rightarrow> watcher \<Rightarrow> config \<Rightarrow> bool \<times> config" where
  "on_fd_ready L names w c =
     (if \<not> (w_watching w \<and> w_on_reload w \<and> list_ex (\<lambda>n. n \<noteq> [] \<and> n = w_base_name w) names) then (False, c)
      else load_file L (w_filename w) c)"

end
