(* ===== verification/Json_Parsing.thy ===== *)
theory Json_Parsing
  imports Json_Text
begin

text \<open>
  The JSON parser consumes input and never runs out of fuel.

  What the loops over elements need of the element parser is the locale \<open>element_parser\<close>:
  it consumes at least one character and does not run out of fuel. The loops provide the same
  contract for arrays and objects, so \<open>parse_value\<close> provides it at every depth, by induction
  on the levels that are left.
\<close>

section \<open>Strings and numbers\<close>

lemma length_skip_ws: "length (skip_ws s) \<le> length s"
  by (induction s) auto

lemma skip_ws_Cons_less: "skip_ws s = c # t \<Longrightarrow> length t < length s"
  using length_skip_ws [of s] by simp

lemma take_hex4_len: "take_hex4 e s = Inr (n, s') \<Longrightarrow> length s' < length s"
  by (cases "(e, s)" rule: take_hex4.cases) (auto split: if_splits)

lemma take_hex4_err: "take_hex4 e s = Inl e' \<Longrightarrow> e' = e"
  by (cases "(e, s)" rule: take_hex4.cases) (auto split: if_splits)

lemma parse_unicode_len: "parse_unicode s = Inr (u, s') \<Longrightarrow> length s' < length s"
  by (auto simp: parse_unicode_def split: sum.splits if_splits list.splits
      dest!: take_hex4_len)

lemma parse_unicode_err: "parse_unicode s \<noteq> Inl Out_of_fuel"
  by (auto simp: parse_unicode_def split: sum.splits list.splits dest!: take_hex4_err)

lemma string_loop_len: "string_loop n res s = Inr (r, s') \<Longrightarrow> length s' < length s"
  by (induction n res s rule: string_loop.induct)
    (fastforce split: if_splits list.splits option.splits sum.splits dest: parse_unicode_len)+

lemma string_loop_fuel: "length s < n \<Longrightarrow> string_loop n res s \<noteq> Inl Out_of_fuel"
proof (induction n arbitrary: res s)
  case (Suc n)
  have small: "string_loop n r t \<noteq> Inl Out_of_fuel" if "length t < n" for r t
    using Suc.IH [OF that] .
  show ?case
  proof (cases s)
    case (Cons c t)
    with Suc.prems have t: "length t < n"
      by simp
    have u: "string_loop n r s2 \<noteq> Inl Out_of_fuel"
      if "parse_unicode s1 = Inr (u, s2)" "t = e # s1" for r u e s1 s2
      using that t parse_unicode_len [OF that(1)] by (intro small) simp
    show ?thesis
      using t small u parse_unicode_err
      by (cases t) (auto simp: Cons split: option.splits sum.splits)
  qed simp
qed simp

lemma parse_string_len: "parse_string d s = Inr (r, s') \<Longrightarrow> length s' < length s"
  by (auto simp: parse_string_def split: if_splits list.splits dest!: string_loop_len)

lemma parse_string_fuel: "parse_string d s \<noteq> Inl Out_of_fuel"
  using string_loop_fuel by (auto simp: parse_string_def split: list.splits)

lemma scan_int_len: "scan_int s = Inr (x, s') \<Longrightarrow> length s' < length s"
  by (auto simp: scan_int_def split: list.splits if_splits
      intro: le_imp_less_Suc length_dropWhile_le)

lemma scan_frac_len: "scan_frac s = Inr (x, s') \<Longrightarrow> length s' \<le> length s"
  by (auto simp: scan_frac_def split: list.splits if_splits
      intro: le_SucI length_dropWhile_le)

lemma scan_exp_len: "scan_exp s = Inr (x, s') \<Longrightarrow> length s' \<le> length s"
  by (auto simp: scan_exp_def split: list.splits if_splits
      intro: le_SucI length_dropWhile_le)

lemma scan_err:
  "scan_int s \<noteq> Inl Out_of_fuel" "scan_frac s \<noteq> Inl Out_of_fuel" "scan_exp s \<noteq> Inl Out_of_fuel"
  by (auto simp: scan_int_def scan_frac_def scan_exp_def split: list.splits)

text \<open>How \<open>parse_number\<close> ends: the text it read, and the value made of it.\<close>

definition number_value ::
    "(string \<Rightarrow> f64 option) \<Rightarrow> string \<Rightarrow> string \<Rightarrow> string \<Rightarrow> parse_error + json" where
  "number_value stod number_str fp ep =
     (if fp \<noteq> [] then
        (case stod number_str of None \<Rightarrow> Inl Number_out_of_range | Some d \<Rightarrow> Inr (JFloat d))
      else if ep \<noteq> [] then
        (case stod number_str of
           None \<Rightarrow> Inl Number_out_of_range
         | Some d \<Rightarrow> (case f64_whole d of Some i \<Rightarrow> Inr (JInt (word_of_int i)) | None \<Rightarrow> Inr (JFloat d)))
      else
        (case stoll number_str of
           None \<Rightarrow> Inl Number_out_of_range | Some i \<Rightarrow> Inr (JInt (word_of_int i))))"

definition split_sign :: "string \<Rightarrow> string \<times> string" where
  "split_sign s = (case s of [] \<Rightarrow> ([], s) | c # r \<Rightarrow> if c = CHR ''-'' then ([c], r) else ([], s))"

lemma parse_number_steps:
  "parse_number stod s =
     (case scan_int (snd (split_sign s)) of Inl e \<Rightarrow> Inl e | Inr (ip, s2) \<Rightarrow>
      case scan_frac s2 of Inl e \<Rightarrow> Inl e | Inr (fp, s3) \<Rightarrow>
      case scan_exp s3 of Inl e \<Rightarrow> Inl e | Inr (ep, s4) \<Rightarrow>
      case number_value stod (fst (split_sign s) @ ip @ fp @ ep) fp ep of
        Inl e \<Rightarrow> Inl e | Inr v \<Rightarrow> Inr (v, s4))"
proof -
  have end_eq: "(if fp \<noteq> [] then
        (case stod ns of None \<Rightarrow> Inl Number_out_of_range | Some d \<Rightarrow> Inr (JFloat d, s4))
      else if ep \<noteq> [] then
        (case stod ns of None \<Rightarrow> Inl Number_out_of_range
         | Some d \<Rightarrow> (case f64_whole d of
              Some i \<Rightarrow> Inr (JInt (word_of_int i), s4) | None \<Rightarrow> Inr (JFloat d, s4)))
      else (case stoll ns of
              None \<Rightarrow> Inl Number_out_of_range | Some i \<Rightarrow> Inr (JInt (word_of_int i), s4))) =
      (case number_value stod ns fp ep of Inl e \<Rightarrow> Inl e | Inr v \<Rightarrow> Inr (v, s4))"
    for ns fp ep s4
    by (simp add: number_value_def split: option.split)
  show ?thesis
    by (simp only: parse_number_def Let_def split_def end_eq fst_conv snd_conv
        split_sign_def [symmetric])
qed

lemma parse_number_len: "parse_number stod s = Inr (v, s') \<Longrightarrow> length s' < length s"
proof -
  assume "parse_number stod s = Inr (v, s')"
  then obtain ip s2 fp s3 ep where ip: "scan_int (snd (split_sign s)) = Inr (ip, s2)"
      and fp: "scan_frac s2 = Inr (fp, s3)" and ep: "scan_exp s3 = Inr (ep, s')"
    by (simp add: parse_number_steps split_def split: sum.splits) (metis prod.collapse)
  have "length (snd (split_sign s)) \<le> length s"
    by (simp add: split_sign_def split: list.splits)
  then show ?thesis
    using scan_int_len [OF ip] scan_frac_len [OF fp] scan_exp_len [OF ep] by simp
qed

lemma number_value_err: "number_value stod ns fp ep \<noteq> Inl Out_of_fuel"
  by (simp add: number_value_def split: option.splits)

lemma parse_number_fuel: "parse_number stod s \<noteq> Inl Out_of_fuel"
  using scan_err number_value_err by (auto simp: parse_number_steps split: sum.splits)

lemma strip_prefix_eq: "strip_prefix p s = Some r \<longleftrightarrow> s = p @ r"
  by (induction p s rule: strip_prefix.induct) auto

lemma parse_literal_len: "l \<noteq> [] \<Longrightarrow> parse_literal s l v = Inr (v', s') \<Longrightarrow> length s' < length s"
  by (auto simp: parse_literal_def strip_prefix_eq split: option.splits)

lemma parse_literal_fuel: "parse_literal s l v \<noteq> Inl Out_of_fuel"
  by (auto simp: parse_literal_def split: option.splits)

section \<open>The element parser's contract\<close>

locale element_parser =
  fixes pv :: "string \<Rightarrow> parse_error + (json \<times> string)"
  assumes consumes: "pv s = Inr (v, s') \<Longrightarrow> length s' < length s"
    and fuelled: "pv s \<noteq> Inl Out_of_fuel"
    and well_formed: "pv s = Inr (v, s') \<Longrightarrow> json_wf v"
begin

lemma array_loop_len: "array_loop pv n arr s = Inr (r, s') \<Longrightarrow> length s' < length s"
proof (induction n arbitrary: arr s)
  case (Suc n)
  then show ?case
    by (cases s)
      (fastforce split: if_splits sum.splits list.splits dest: skip_ws_Cons_less consumes Suc.IH)+
qed simp

lemma array_loop_fuel: "length s < n \<Longrightarrow> array_loop pv n arr s \<noteq> Inl Out_of_fuel"
proof (induction n arbitrary: arr s)
  case (Suc n)
  show ?case
    using Suc.prems fuelled
    by (cases s)
      (auto split: sum.splits list.splits dest!: skip_ws_Cons_less consumes intro!: Suc.IH)
qed simp

lemma array_loop_wf:
  "array_loop pv n arr s = Inr (r, s') \<Longrightarrow> list_all json_wf arr \<Longrightarrow> list_all json_wf r"
proof (induction n arbitrary: arr s)
  case (Suc n)
  then show ?case
    by (cases s) (auto split: if_splits sum.splits list.splits dest!: Suc.IH dest: well_formed)
qed simp

lemma parse_array_parser:
  "parse_array pv d s = Inr (v, s') \<Longrightarrow> length s' < length s"
  "parse_array pv d s \<noteq> Inl Out_of_fuel"
  "parse_array pv d s = Inr (v, s') \<Longrightarrow> json_wf v"
proof -
  have fuel: "array_loop pv (Suc (length t)) [] (skip_ws t) \<noteq> Inl Out_of_fuel" for t
    using length_skip_ws [of t] by (intro array_loop_fuel) simp
  have len: "length s' < length t" if "array_loop pv (Suc (length t)) [] (skip_ws t) = Inr (a, s')" for t a
    using array_loop_len [OF that] length_skip_ws [of t] by simp
  show "parse_array pv d s = Inr (v, s') \<Longrightarrow> length s' < length s"
    by (auto simp: parse_array_def split: if_splits list.splits sum.splits dest!: len)
  show "parse_array pv d s \<noteq> Inl Out_of_fuel"
    using fuel by (auto simp: parse_array_def split: list.splits sum.splits)
  show "parse_array pv d s = Inr (v, s') \<Longrightarrow> json_wf v"
    by (auto simp: parse_array_def split: if_splits list.splits sum.splits dest: array_loop_wf)
qed

lemma object_loop_len: "object_loop pv d n obj s = Inr (r, s') \<Longrightarrow> length s' < length s"
proof (induction n arbitrary: obj s)
  case (Suc n)
  show ?case
  proof (cases s)
    case (Cons c t)
    with Suc.prems show ?thesis
      by (auto split: if_splits sum.splits list.splits option.splits
          dest!: skip_ws_Cons_less consumes Suc.IH parse_string_len)
        (use length_skip_ws in \<open>fastforce dest: order.strict_trans1\<close>)+
  qed (use Suc.prems in simp)
qed simp

lemma member_rest:
  assumes "parse_string d s = Inr (key, s1)" and "skip_ws s1 = c # s2"
    and "pv (skip_ws s2) = Inr (v, s3)" and "skip_ws s3 = f # s4"
  shows "Suc (length s4) < length s"
  using parse_string_len [OF assms(1)] skip_ws_Cons_less [OF assms(2)] length_skip_ws [of s2]
    consumes [OF assms(3)] skip_ws_Cons_less [OF assms(4)]
  by linarith

lemma object_loop_fuel: "length s < n \<Longrightarrow> object_loop pv d n obj s \<noteq> Inl Out_of_fuel"
proof (induction n arbitrary: obj s)
  case (Suc n)
  have next_loop: "object_loop pv d n obj' (g # s5) \<noteq> Inl Out_of_fuel"
    if "parse_string (Suc d) s = Inr (key, s1)" "skip_ws s1 = c # s2"
      "pv (skip_ws s2) = Inr (v, s3)" "skip_ws s3 = f # s4" "skip_ws s4 = g # s5"
    for obj' key s1 c s2 v s3 f s4 g s5
    using member_rest [OF that(1-4)] skip_ws_Cons_less [OF that(5)] Suc.prems
    by (intro Suc.IH) simp
  have next_close: "object_loop pv d n obj' (f # s4) \<noteq> Inl Out_of_fuel"
    if "parse_string (Suc d) s = Inr (key, s1)" "skip_ws s1 = c # s2"
      "pv (skip_ws s2) = Inr (v, s3)" "skip_ws s3 = f # s4"
    for obj' key s1 c s2 v s3 f s4
    using member_rest [OF that(1-4)] Suc.prems by (intro Suc.IH) simp
  show ?case
    using next_loop next_close fuelled parse_string_fuel
    by (cases s) (auto split: sum.splits list.splits prod.splits)
qed simp

lemma object_loop_wf:
  "object_loop pv d n obj s = Inr (r, s') \<Longrightarrow> json_wf (JObject obj) \<Longrightarrow> json_wf (JObject r)"
proof (induction n arbitrary: obj s)
  case (Suc n)
  have keep: "json_wf (JObject r)"
    if "object_loop pv d n (omap_set k v obj) t = Inr (r, s')" "pv u = Inr (v, u')" for k v t u u'
    using that Suc.prems(2) by (blast intro: Suc.IH json_wf_set well_formed)
  show ?case
  proof (cases s)
    case (Cons c t)
    show ?thesis
      using Suc.prems(1) unfolding Cons object_loop.simps
      apply (simp del: json_wf.simps split: if_split_asm sum.split_asm list.split_asm prod.split_asm)
      subgoal using Suc.prems(2) by simp
      subgoal by (rule keep)
      subgoal by (rule keep)
      done
  qed (use Suc.prems in simp)
qed simp

lemma parse_object_parser:
  "parse_object pv d s = Inr (v, s') \<Longrightarrow> length s' < length s"
  "parse_object pv d s \<noteq> Inl Out_of_fuel"
  "parse_object pv d s = Inr (v, s') \<Longrightarrow> json_wf v"
proof -
  have fuel: "object_loop pv d (Suc (length t)) [] (skip_ws t) \<noteq> Inl Out_of_fuel" for t
    using length_skip_ws [of t] by (intro object_loop_fuel) simp
  have len: "length s' < length t"
    if "object_loop pv d (Suc (length t)) [] (skip_ws t) = Inr (a, s')" for t a
    using object_loop_len [OF that] length_skip_ws [of t] by simp
  show "parse_object pv d s = Inr (v, s') \<Longrightarrow> length s' < length s"
    by (auto simp: parse_object_def split: if_splits list.splits sum.splits dest!: len)
  show "parse_object pv d s \<noteq> Inl Out_of_fuel"
    using fuel by (auto simp: parse_object_def split: list.splits sum.splits)
  show "parse_object pv d s = Inr (v, s') \<Longrightarrow> json_wf v"
    by (auto simp: parse_object_def simp del: json_wf.simps(2)
        split: if_splits list.splits sum.splits dest!: object_loop_wf) simp
qed

end

section \<open>Values, at every depth\<close>

lemma parse_number_wf: "parse_number stod s = Inr (v, s') \<Longrightarrow> json_wf v"
  by (auto simp: parse_number_steps number_value_def split: sum.splits if_splits option.splits)

text \<open>The parser that accepted a value, and where it started.\<close>

lemma parse_value_accepted:
  assumes "parse_value stod depth s = Inr (v, s')"
  obtains (str) t str where "length t \<le> length s" "parse_string depth t = Inr (str, s')" "v = JString str"
    | (obj) t where "length t \<le> length s"
        "parse_object (parse_value stod (Suc depth)) depth t = Inr (v, s')"
    | (arr) t where "length t \<le> length s"
        "parse_array (parse_value stod (Suc depth)) depth t = Inr (v, s')"
    | (num) t where "length t \<le> length s" "parse_number stod t = Inr (v, s')"
    | (lit) t l w where "length t \<le> length s" "l \<noteq> []" "parse_literal t l w = Inr (v, s')" "json_wf v"
proof (cases "skip_ws s")
  case Nil
  then show ?thesis
    using assms by (simp add: parse_value.simps [of stod depth] split: if_split_asm)
next
  case (Cons c t)
  have len: "length (c # t) \<le> length s"
    using length_skip_ws [of s] Cons by simp
  have eq: "parse_literal (c # t) l w = Inr (v, s') \<Longrightarrow> w = v" for l w
    by (simp add: parse_literal_def split: option.splits)
  note parsed = assms [unfolded parse_value.simps [of stod depth] Cons list.case]
  show ?thesis
  proof (cases "c \<in> {CHR 0x22, CHR ''{'', CHR ''[''} \<or> is_digit c \<or> c = CHR ''-''")
    case True
    then show ?thesis
      using parsed str [OF len] obj [OF len] arr [OF len] num [OF len]
      by (simp split: if_split_asm sum.split_asm prod.split_asm)
  next
    case False
    then consider "parse_literal (c # t) ''true'' (JBool True) = Inr (v, s')"
      | "parse_literal (c # t) ''false'' (JBool False) = Inr (v, s')"
      | "parse_literal (c # t) ''null'' JNull = Inr (v, s')"
      using parsed by (simp split: if_split_asm)
    then obtain l w where l: "l \<noteq> []" "parse_literal (c # t) l w = Inr (v, s')" "json_wf w"
      by cases (metis list.distinct(1) json_wf.simps(3-7))+
    then show ?thesis
      using lit [OF len] eq [OF l(2)] by simp
  qed
qed

lemma parse_value_parser_step:
  assumes "element_parser (parse_value stod (Suc depth))"
  shows "element_parser (parse_value stod depth)"
proof
  note arr = element_parser.parse_array_parser [OF assms]
    and obj = element_parser.parse_object_parser [OF assms]
  show "length s' < length s" if "parse_value stod depth s = Inr (v, s')" for s v s'
    using that
    by (cases rule: parse_value_accepted)
      (auto dest!: parse_string_len arr(1) obj(1) parse_number_len parse_literal_len [rotated])
  show "parse_value stod depth s \<noteq> Inl Out_of_fuel" for s
    using arr(2) obj(2) parse_string_fuel [of depth "skip_ws s"] parse_number_fuel parse_literal_fuel
    by (cases "skip_ws s") (simp_all add: parse_value.simps [of stod depth] split: sum.split, metis)
  show "json_wf v" if "parse_value stod depth s = Inr (v, s')" for s v s'
    using that by (cases rule: parse_value_accepted) (auto dest: arr(3) obj(3) parse_number_wf)
qed

interpretation json_value: element_parser "parse_value stod depth"
proof (induction "Suc max_parse_depth - depth" arbitrary: depth)
  case 0
  then show ?case
    by unfold_locales (auto simp: parse_value.simps [of stod depth])
next
  case (Suc n)
  then show ?case
    by (intro parse_value_parser_step [of stod depth] Suc.hyps(1) [of "Suc depth"]) simp
qed

text \<open>Property C7. Parsing always ends with a value or one of the errors the code throws: the loops over
  strings, elements and members, whose fuel is the length of the text, never exhaust it.\<close>

theorem parse_never_out_of_fuel: "parse_value stod depth s \<noteq> Inl Out_of_fuel"
  by (rule json_value.fuelled)

text \<open>Property C10. Whatever \<open>parse\<close> accepts is a well-formed value (in every object the keys are unique and in
  order), and the two overloads of \<open>parse\<close> agree: the one with an error code reports
  \<open>invalid_argument\<close> and null exactly when the other returns no value.\<close>

theorem parse_well_formed:
  "(case json_parse stod s of
      Some j \<Rightarrow> json_wf j \<and> json_parse_ec stod s = (j, False)
    | None \<Rightarrow> json_parse_ec stod s = (JNull, True))"
  by (auto simp: json_parse_def json_parse_ec_def split: sum.splits option.splits if_splits
      intro: json_value.well_formed)

end
