(* ===== verification/Config_Props.thy ===== *)
theory Config_Props
  imports Config Json_Parsing Char_Search "HOL-Library.Sublist"
begin

text \<open>
  Values at paths, the precedence of the sources of a configuration, and the command line.
\<close>

section \<open>Paths\<close>

lemma get_at_object:
  "get_at (JObject m) (part # parts) = (case omap_find m part of None \<Rightarrow> None | Some j \<Rightarrow> get_at j parts)"
  by (simp add: is_object_def has_key_def at_key_def split: option.split)

lemma get_at_other: "\<not> is_object j \<Longrightarrow> parts \<noteq> [] \<Longrightarrow> get_at j parts = None"
  by (cases parts) simp_all

lemma get_at_members:
  "get_at j (part # parts) = (case omap_find (members_of j) part of None \<Rightarrow> None | Some i \<Rightarrow> get_at i parts)"
  by (cases j) (simp_all add: get_at_object members_of_def get_at_other is_object_def del: get_at.simps)

declare get_at.simps(2) [simp del]

lemma get_set_below: "parts \<noteq> [] \<Longrightarrow> get_at (set_at parts v j) (parts @ below) = get_at v below"
  by (induction parts v j rule: set_at.induct) (simp_all add: get_at_object omap_find_set Let_def)

lemma get_set_apart:
  "\<not> prefix parts others \<Longrightarrow> \<not> prefix others parts \<Longrightarrow> get_at (set_at parts v j) others = get_at j others"
proof (induction parts v j arbitrary: others rule: set_at.induct)
  case (1 v current)
  then show ?case by simp
next
  case (2 part v current)
  then show ?case
    by (cases others) (auto simp: get_at_object get_at_members [of current] omap_find_set)
next
  case (3 part more_part parts v current)
  then obtain x xs where others: "others = x # xs"
    by (cases others) simp_all
  show ?case
  proof (cases "x = part")
    case True
    then have xs: "\<not> prefix (more_part # parts) xs" "\<not> prefix xs (more_part # parts)"
      using 3 others by simp_all
    then have "get_at (JObject []) xs = None"
      by (cases xs) (simp_all add: get_at_object)
    then show ?thesis
      using 3(1) [of "members_of current" _ xs] xs True
      by (auto simp: others get_at_object get_at_members [of current] omap_find_set Let_def
          json_object_def split: option.split)
  next
    case False
    then show ?thesis
      by (simp add: others get_at_object get_at_members [of current] omap_find_set Let_def)
  qed
qed

definition apart :: "string \<Rightarrow> string \<Rightarrow> bool" where
  "apart p q \<longleftrightarrow> \<not> prefix (split_path p) (split_path q) \<and> \<not> prefix (split_path q) (split_path p)"

lemma apart_sym: "apart p q \<Longrightarrow> apart q p"
  by (simp add: apart_def)

lemma config_get_set_same: "split_path p \<noteq> [] \<Longrightarrow> config_get (config_set p v c) p = Some v"
  using get_set_below [of "split_path p" v "c_data c" "[]"] by (simp add: config_get_def config_set_def Let_def)

lemma config_get_set_apart: "apart p q \<Longrightarrow> config_get (config_set p v c) q = config_get c q"
  by (auto simp: config_get_def config_set_def Let_def apart_def get_set_apart)

lemma config_set_fields [simp]:
  "c_options (config_set p v c) = c_options c" "c_loaded (config_set p v c) = c_loaded c"
  "c_no_parsed (config_set p v c) = c_no_parsed c"
  by (simp_all add: config_set_def Let_def)

text \<open>What clients of a store with paths rely on.\<close>

locale path_store =
  fixes get :: "'s \<Rightarrow> 'p \<Rightarrow> 'v option"
    and put :: "'p \<Rightarrow> 'v \<Rightarrow> 's \<Rightarrow> 's"
    and usable :: "'p \<Rightarrow> bool"
    and separate :: "'p \<Rightarrow> 'p \<Rightarrow> bool"
  assumes get_put_same: "usable p \<Longrightarrow> get (put p v s) p = Some v"
    and get_put_separate: "separate p q \<Longrightarrow> get (put p v s) q = get s q"
begin

lemma get_puts:
  "usable q \<Longrightarrow> \<forall>(p, v) \<in> set es. p = q \<or> separate p q \<Longrightarrow>
    get (fold (\<lambda>(p, v). put p v) es s) q = (case map_of (rev es) q of Some v \<Rightarrow> Some v | None \<Rightarrow> get s q)"
proof (induction es rule: rev_induct)
  case Nil
  then show ?case by simp
next
  case (snoc e es)
  obtain p v where e: "e = (p, v)"
    by (cases e)
  have "get (fold (\<lambda>(p, v). put p v) es s) q = (case map_of (rev es) q of Some v \<Rightarrow> Some v | None \<Rightarrow> get s q)"
    using snoc by auto
  then show ?case
    using snoc.prems by (auto simp: e get_put_same get_put_separate)
qed

text \<open>Filling in what is missing.\<close>

lemma get_fill:
  "usable q \<Longrightarrow> \<forall>e \<in> set es. path e = q \<or> separate (path e) q \<Longrightarrow>
    get (fold (\<lambda>e s. if need e \<and> get s (path e) = None then put (path e) (val e) s else s) es s) q =
      (case get s q of Some v \<Rightarrow> Some v | None \<Rightarrow> map_option val (List.find (\<lambda>e. path e = q \<and> need e) es))"
proof (induction es arbitrary: s)
  case Nil
  then show ?case by (simp split: option.split)
next
  case (Cons e es)
  let ?s = "if need e \<and> get s (path e) = None then put (path e) (val e) s else s"
  have "get ?s q = (if path e = q \<and> need e \<and> get s q = None then Some (val e) else get s q)"
    using Cons.prems by (auto simp: get_put_same get_put_separate)
  then show ?case
    using Cons by (auto split: option.split)
qed

end

interpretation cfg: path_store config_get config_set "\<lambda>p. split_path p \<noteq> []" apart
  by unfold_locales (simp_all add: config_get_set_same config_get_set_apart)

text \<open>
  A value that is set at a path is read back there, and below it its own members are; values at paths that
  neither begin the path nor go on from it are not touched.
\<close>

theorem set_values_are_read:
  assumes "split_path p \<noteq> []"
  shows "config_get (config_set p v c) p = Some v \<and>
    (\<forall>q below. split_path q = split_path p @ below \<longrightarrow> config_get (config_set p v c) q = get_at v below) \<and>
    (\<forall>q. apart p q \<longrightarrow> config_get (config_set p v c) q = config_get c q)"
  using assms config_get_set_same [OF assms] config_get_set_apart [of p _ v c]
  by (auto simp: config_get_def config_set_def Let_def get_set_below)

theorem set_values_are_read_witness:
  "config_get (config_set ''a.b'' (JBool True) (config_set ''a.c'' JNull new_config)) ''a.c'' = Some JNull"
proof -
  have p: "split_path ''a.b'' = [''a'', ''b'']" "split_path ''a.c'' = [''a'', ''c'']"
    by (simp_all add: split_path_def split_dots.simps)
  then show ?thesis
    using set_values_are_read [of "''a.b''" "JBool True" "config_set ''a.c'' JNull new_config"]
      set_values_are_read [of "''a.c''" JNull new_config]
    by (simp add: apart_def)
qed

section \<open>Merging\<close>

lemma merge_other: "\<not> (is_object a \<and> is_object b) \<Longrightarrow> merge_objects a b = b"
  by (cases a; cases b) (simp_all add: merge_objects.simps is_object_def)

definition merge_entry :: "string \<times> json \<Rightarrow> (string, json) omap \<Rightarrow> (string, json) omap" where
  "merge_entry e r =
     omap_set (fst e) (case omap_find r (fst e) of Some old \<Rightarrow> merge_objects old (snd e) | None \<Rightarrow> snd e) r"

lemma merge_both: "merge_objects (JObject m) (JObject m') = JObject (fold merge_entry m' m)"
proof -
  have "(case omap_find r k of
      Some old \<Rightarrow> if is_object old \<and> is_object v then omap_set k (merge_objects old v) r else omap_set k v r
    | None \<Rightarrow> omap_set k v r) = merge_entry (k, v) r" for r k v
    by (auto simp: merge_entry_def merge_other split: option.split)
  then show ?thesis
    by (subst merge_objects.simps) (auto intro!: fold_cong)
qed

lemma find_merged:
  "distinct (map fst m') \<Longrightarrow> omap_find (fold merge_entry m' m) k =
    (case omap_find m' k of
       None \<Rightarrow> omap_find m k
     | Some v \<Rightarrow> Some (case omap_find m k of Some old \<Rightarrow> merge_objects old v | None \<Rightarrow> v))"
proof (induction m' arbitrary: m)
  case Nil
  then show ?case by simp
next
  case (Cons e m')
  obtain k' v' where e: "e = (k', v')"
    by (cases e)
  have absent: "omap_find m' k' = None"
    using Cons.prems by (auto simp: e omap_find_def map_of_eq_None_iff)
  show ?case
    using Cons.IH [of "merge_entry e m"] Cons.prems absent
    by (auto simp: e merge_entry_def omap_find_set split: option.split)
qed

text \<open>The overlay has something other than an object on the way to a path.\<close>

fun blocked :: "json \<Rightarrow> string list \<Rightarrow> bool" where
  "blocked j [] = False"
| "blocked j (part # parts) =
     (\<not> is_object j \<or> (case omap_find (members_of j) part of None \<Rightarrow> False | Some i \<Rightarrow> blocked i parts))"

lemma json_wf_members: "json_wf (JObject m) \<Longrightarrow> distinct (map fst m)"
  by (auto simp: omap_wf_def strict_sorted_iff)

lemma get_merged:
  "json_wf b \<Longrightarrow> get_at (merge_objects a b) parts =
    (case get_at b parts of
       Some v \<Rightarrow> Some (case get_at a parts of Some u \<Rightarrow> merge_objects u v | None \<Rightarrow> v)
     | None \<Rightarrow> if blocked b parts then None else get_at a parts)"
proof (induction parts arbitrary: a b)
  case Nil
  then show ?case by simp
next
  case (Cons part parts)
  show ?case
  proof (cases "is_object a \<and> is_object b")
    case True
    then obtain m m' where ab: "a = JObject m" "b = JObject m'"
      by (cases a; cases b) (auto simp: is_object_def)
    have "json_wf v" if "omap_find m' part = Some v" for v
      using Cons.prems that ab json_wf_find by blast
    then show ?thesis
      using Cons.IH find_merged [OF json_wf_members, of m' m part] Cons.prems ab
      by (auto simp: merge_both get_at_object members_of_def is_object_def split: option.split)
  next
    case False
    then show ?thesis
      using get_at_other [of a "part # parts"] get_at_other [of b "part # parts"]
      by (auto simp: merge_other get_at_members members_of_def split: option.split json.split)
  qed
qed

section \<open>Defaults\<close>

lemma fold_fill_fields:
  "c_options (fold (\<lambda>(name, opt) c. if P name opt c then config_set name (f opt) c else c) es c) = c_options c"
  "c_loaded (fold (\<lambda>(name, opt) c. if P name opt c then config_set name (f opt) c else c) es c) = c_loaded c"
  "c_no_parsed (fold (\<lambda>(name, opt) c. if P name opt c then config_set name (f opt) c else c) es c) = c_no_parsed c"
  by (induction es arbitrary: c) (auto split: if_splits)

lemma apply_defaults_fields [simp]:
  "c_options (apply_defaults c) = c_options c" "c_loaded (apply_defaults c) = c_loaded c"
  "c_no_parsed (apply_defaults c) = c_no_parsed c"
  by (simp_all add: apply_defaults_def fold_fill_fields)

text \<open>Names of options that do not begin each other, and are not empty.\<close>

definition names_apart :: "config \<Rightarrow> bool" where
  "names_apart c \<longleftrightarrow> omap_wf (c_options c) \<and>
     (\<forall>n \<in> fst ` set (c_options c). split_path n \<noteq> [] \<and> (\<forall>m \<in> fst ` set (c_options c). m = n \<or> apart m n))"

lemma names_apartD:
  assumes "names_apart c" and "n \<in> fst ` set (c_options c)"
  shows "split_path n \<noteq> []" "m \<in> fst ` set (c_options c) \<Longrightarrow> m = n \<or> apart m n"
  using assms unfolding names_apart_def by blast+

lemma omap_wf_distinct: "omap_wf m \<Longrightarrow> distinct (map fst m)"
  by (simp add: omap_wf_def strict_sorted_iff)

lemma find_named:
  "distinct (map fst es) \<Longrightarrow>
    List.find (\<lambda>e. fst e = n \<and> P (snd e)) es = (case map_of es n of None \<Rightarrow> None | Some x \<Rightarrow> if P x then Some (n, x) else None)"
proof (induction es)
  case Nil
  then show ?case by simp
next
  case (Cons e es)
  then show ?case
    by (cases e) (auto split: option.split simp: map_of_eq_None_iff, force dest: map_of_SomeD)
qed

text \<open>An option's value once the defaults are applied.\<close>

definition with_default :: "config \<Rightarrow> string \<Rightarrow> json option" where
  "with_default c n =
     (case config_get c n of
        Some v \<Rightarrow> Some v
      | None \<Rightarrow> (case omap_find (c_options c) n of
          Some opt \<Rightarrow> if o_required opt then None else Some (o_default opt)
        | None \<Rightarrow> None))"

lemma get_defaults:
  assumes "names_apart c" and "n \<in> fst ` set (c_options c)"
  shows "config_get (apply_defaults c) n = with_default c n"
proof -
  have eq: "apply_defaults c = fold (\<lambda>e c. if \<not> o_required (snd e) \<and> config_get c (fst e) = None
      then config_set (fst e) (o_default (snd e)) c else c) (c_options c) c"
    unfolding apply_defaults_def config_has_def by (rule fold_cong) (auto simp: fun_eq_iff)
  have "config_get (apply_defaults c) n = (case config_get c n of Some v \<Rightarrow> Some v
      | None \<Rightarrow> map_option (\<lambda>e. o_default (snd e)) (List.find (\<lambda>e. fst e = n \<and> \<not> o_required (snd e)) (c_options c)))"
    unfolding eq using assms by (intro cfg.get_fill) (auto simp: names_apart_def)
  then show ?thesis
    using assms find_named [OF omap_wf_distinct, of "c_options c" n "\<lambda>opt. \<not> o_required opt"]
    by (auto simp: with_default_def names_apart_def omap_find_def split: option.split)
qed

section \<open>The command line\<close>

definition setting_arg :: "string \<times> string \<Rightarrow> string" where
  "setting_arg e = ''--'' @ fst e @ ''='' @ snd e"

text \<open>The value a text has for an option.\<close>

definition option_reads :: "conf_lib \<Rightarrow> config \<Rightarrow> string \<times> string \<Rightarrow> json option" where
  "option_reads L c e =
     (case omap_find (c_options c) (fst e) of
        None \<Rightarrow> None
      | Some opt \<Rightarrow> if snd e = [] \<and> is_bool (o_default opt) then Some (JBool True)
          else parse_option_value L (snd e) (o_default opt))"

definition good_setting :: "conf_lib \<Rightarrow> config \<Rightarrow> string \<times> string \<Rightarrow> bool" where
  "good_setting L c e \<longleftrightarrow>
     fst e \<noteq> [] \<and> CHR ''='' \<notin> set (fst e) \<and> fst e \<noteq> ''config-file'' \<and> option_reads L c e \<noteq> None"

lemma config_file_name:
  assumes "CHR ''='' \<notin> set n" and "take 14 (''--'' @ n @ ''='' @ v) = config_file_flag @ ''=''"
  shows "n = ''config-file''"
proof -
  have "''--'' @ n @ ''='' @ v = config_file_flag @ CHR ''='' # drop 14 (''--'' @ n @ ''='' @ v)"
    using assms(2) by (metis append.assoc append_Cons append_Nil append_take_drop_id)
  moreover have "CHR ''='' \<notin> set config_file_flag"
    by (simp add: config_file_flag_def)
  ultimately have "takeWhile (\<lambda>x. x \<noteq> CHR ''='') (''--'' @ n @ ''='' @ v) = config_file_flag"
    by (metis takeWhile_upto)
  moreover have "takeWhile (\<lambda>x. x \<noteq> CHR ''='') (''--'' @ n @ ''='' @ v) = ''--'' @ n"
    using assms(1) takeWhile_upto [of "CHR ''=''" "''--'' @ n" v] by simp
  ultimately show ?thesis
    by (simp add: config_file_flag_def)
qed

lemma setting_arg_neq:
  assumes "good_setting L c e"
  shows "setting_arg e \<noteq> config_file_flag" "take 14 (setting_arg e) \<noteq> config_file_flag @ ''=''"
    "setting_arg e \<noteq> ''-h''" "setting_arg e \<noteq> ''--help''" "setting_arg e \<noteq> ''--dump''"
proof -
  have eq: "CHR ''='' \<in> set (setting_arg e)"
    by (simp add: setting_arg_def)
  show "setting_arg e \<noteq> config_file_flag" "setting_arg e \<noteq> ''-h''" "setting_arg e \<noteq> ''--help''" "setting_arg e \<noteq> ''--dump''"
    using eq by (auto simp: config_file_flag_def)
  show "take 14 (setting_arg e) \<noteq> config_file_flag @ ''=''"
    using assms config_file_name [of "fst e" "snd e"] by (auto simp: setting_arg_def good_setting_def)
qed

lemma read_setting:
  assumes "good_setting L c e"
  shows "read_arg c' short (setting_arg e) args = (Keyed (fst e) (Some (snd e)), args)"
  using assms takeWhile_upto [of "CHR ''=''" "fst e" "snd e"] dropWhile_upto [of "CHR ''=''" "fst e" "snd e"]
  by (simp add: setting_arg_def read_arg_def long_form_def good_setting_def)

lemma apply_setting:
  assumes "good_setting L c e" and "option_reads L c e = Some j"
  shows "apply_arg L (setting_arg e) (Keyed (fst e) (Some (snd e))) c = Some (config_set (fst e) j c)"
  using assms by (auto simp: good_setting_def apply_arg_def option_reads_def set_option_def split: option.splits if_splits)

lemma second_pass_setting:
  assumes "good_setting L c e" and "option_reads L c e = Some j"
  shows "second_pass L short x (setting_arg e # args) c = second_pass L short x args (config_set (fst e) j c)"
  using assms(1) setting_arg_neq [OF assms(1)] apply_setting [OF assms]
  by (subst second_pass.simps) (simp add: read_setting [OF assms(1)])

lemma option_reads_cong: "c_options c' = c_options c \<Longrightarrow> option_reads L c' e = option_reads L c e"
  by (simp add: option_reads_def)

lemma good_setting_cong: "c_options c' = c_options c \<Longrightarrow> good_setting L c' e = good_setting L c e"
  by (simp add: good_setting_def option_reads_cong [of c' c])

definition put_settings :: "conf_lib \<Rightarrow> config \<Rightarrow> (string \<times> string) list \<Rightarrow> config \<Rightarrow> config" where
  "put_settings L c0 es c = fold (\<lambda>(p, v). config_set p v) (map (\<lambda>e. (fst e, the (option_reads L c0 e))) es) c"

lemma second_pass_settings:
  "\<forall>e \<in> set es. good_setting L c e \<Longrightarrow>
    second_pass L short x (map setting_arg es @ args) c = second_pass L short x args (put_settings L c es c)"
proof -
  have "second_pass L short x (map setting_arg es @ args) c' = second_pass L short x args (put_settings L c es c')"
    if "\<forall>e \<in> set es. good_setting L c e" and "c_options c' = c_options c" for es c'
    using that
  proof (induction es arbitrary: c')
    case Nil
    then show ?case by (simp add: put_settings_def)
  next
    case (Cons e es)
    then have good: "good_setting L c' e" "option_reads L c' e = option_reads L c e"
      using good_setting_cong [OF Cons.prems(2)] option_reads_cong [OF Cons.prems(2)] by simp_all
    then obtain j where j: "option_reads L c' e = Some j"
      by (auto simp: good_setting_def)
    have "second_pass L short x (map setting_arg (e # es) @ args) c' =
        second_pass L short x (map setting_arg es @ args) (config_set (fst e) j c')"
      using second_pass_setting [OF good(1) j] by simp
    also have "\<dots> = second_pass L short x args (put_settings L c es (config_set (fst e) j c'))"
      by (rule Cons.IH) (use Cons.prems in simp_all)
    also have "put_settings L c es (config_set (fst e) j c') = put_settings L c (e # es) c'"
      using j by (simp add: put_settings_def good(2) [symmetric])
    finally show ?case .
  qed
  then show "\<forall>e \<in> set es. good_setting L c e \<Longrightarrow> ?thesis"
    by simp
qed

lemma put_settings_fields [simp]:
  "c_options (put_settings L c0 es c) = c_options c" "c_no_parsed (put_settings L c0 es c) = c_no_parsed c"
proof -
  have "c_options (fold (\<lambda>(p, v). config_set p v) xs c) = c_options c"
    "c_no_parsed (fold (\<lambda>(p, v). config_set p v) xs c) = c_no_parsed c" for xs c
    by (induction xs arbitrary: c) auto
  then show "c_options (put_settings L c0 es c) = c_options c" "c_no_parsed (put_settings L c0 es c) = c_no_parsed c"
    by (simp_all add: put_settings_def)
qed

lemma option_known: "option_reads L c e \<noteq> None \<Longrightarrow> fst e \<in> fst ` set (c_options c)"
  by (auto simp: option_reads_def omap_find_def split: option.splits dest!: map_of_SomeD intro: rev_image_eqI)

lemma map_of_settings:
  "\<forall>e \<in> set es. option_reads L c e \<noteq> None \<Longrightarrow>
    map_of (map (\<lambda>e. (fst e, the (option_reads L c e))) es) n =
      (case map_of es n of None \<Rightarrow> None | Some s \<Rightarrow> option_reads L c (n, s))"
  by (induction es) auto

text \<open>The last setting of an option counts.\<close>

lemma get_settings:
  assumes "names_apart c" and "n \<in> fst ` set (c_options c)" and "\<forall>e \<in> set es. good_setting L c e"
  shows "config_get (put_settings L c es c') n =
    (case map_of (rev es) n of Some s \<Rightarrow> option_reads L c (n, s) | None \<Rightarrow> config_get c' n)"
proof -
  have known: "\<forall>e \<in> set es. option_reads L c e \<noteq> None"
    using assms(3) by (auto simp: good_setting_def)
  then have "\<forall>e \<in> set es. fst e \<in> fst ` set (c_options c)"
    using option_known by blast
  then have names: "split_path n \<noteq> []" "\<forall>e \<in> set es. fst e = n \<or> apart (fst e) n"
    using assms(1,2) names_apartD by blast+
  then have "config_get (put_settings L c es c') n =
      (case map_of (rev (map (\<lambda>e. (fst e, the (option_reads L c e))) es)) n of Some v \<Rightarrow> Some v | None \<Rightarrow> config_get c' n)"
    unfolding put_settings_def using names by (intro cfg.get_puts) auto
  moreover have "option_reads L c (n, s) \<noteq> None" if "map_of (rev es) n = Some s" for s
    using that known map_of_SomeD by fastforce
  ultimately show ?thesis
    using known map_of_settings [of "rev es" L c n] by (auto simp: rev_map split: option.splits)
qed

lemma first_pass_Cons:
  "arg \<noteq> config_file_flag \<Longrightarrow> first_pass L (arg # args) c =
    (case load_once L (config_file_of arg) c of (ok, c1) \<Rightarrow> if ok then first_pass L args c1 else (False, c1))"
  by (cases args) (auto split: prod.split)

lemma first_pass_settings:
  "\<forall>e \<in> set es. good_setting L c e \<Longrightarrow> first_pass L (map setting_arg es) c' = (True, c')"
proof (induction es)
  case Nil
  then show ?case by simp
next
  case (Cons e es)
  then show ?case
    using setting_arg_neq [of L c e] by (simp add: first_pass_Cons config_file_of_def load_once_def)
qed

section \<open>The precedence of the sources\<close>

lemma json_parse_wf: "json_parse stod s = Some j \<Longrightarrow> json_wf j"
  by (auto simp: json_parse_def split: sum.splits option.splits if_splits intro: json_value.well_formed)

lemma config_get_no_parsed [simp]: "config_get (c\<lparr>c_no_parsed := xs\<rparr>) p = config_get c p"
  by (simp add: config_get_def Let_def)

lemma config_get_loaded [simp]: "config_get (c\<lparr>c_loaded := b\<rparr>) p = config_get c p"
  by (simp add: config_get_def Let_def)

lemma names_apart_cong: "c_options c' = c_options c \<Longrightarrow> names_apart c' = names_apart c"
  by (simp add: names_apart_def)

text \<open>Applying the defaults a second time changes nothing.\<close>

lemma fold_fill_id:
  "\<forall>(n, opt) \<in> set es. o_required opt \<or> config_has c n \<Longrightarrow>
    fold (\<lambda>(name, opt) c. if \<not> o_required opt \<and> \<not> config_has c name then config_set name (o_default opt) c else c) es c = c"
  by (induction es) auto

lemma apply_defaults_again:
  assumes "names_apart c"
  shows "apply_defaults ((apply_defaults c)\<lparr>c_no_parsed := xs\<rparr>) = (apply_defaults c)\<lparr>c_no_parsed := xs\<rparr>"
proof -
  have "o_required opt \<or> config_get (apply_defaults c) n \<noteq> None" if e: "(n, opt) \<in> set (c_options c)" for n opt
  proof -
    have "n \<in> fst ` set (c_options c)" "omap_find (c_options c) n = Some opt"
      using e assms omap_wf_distinct by (force simp: names_apart_def omap_find_def)+
    then show ?thesis
      using get_defaults [OF assms, of n] by (auto simp: with_default_def split: option.splits)
  qed
  then show ?thesis
    by (subst apply_defaults_def, subst fold_fill_id) (auto simp: config_has_def)
qed

text \<open>What an option's value becomes when a file is loaded over it.\<close>

definition after_file :: "json \<Rightarrow> string list \<Rightarrow> json option \<Rightarrow> json option" where
  "after_file j parts before =
     (case get_at j parts of
        Some v \<Rightarrow> Some (case before of Some u \<Rightarrow> merge_objects u v | None \<Rightarrow> v)
      | None \<Rightarrow> if blocked j parts then None else before)"

lemma parse_json_config_fields:
  "c_options (snd (parse_json_config j c)) = c_options c" "c_loaded (snd (parse_json_config j c)) = c_loaded c"
  "c_no_parsed (snd (parse_json_config j c)) = c_no_parsed c"
  by (simp_all add: parse_json_config_def Let_def)

lemma get_parse_json:
  assumes "is_object j" and "json_wf j" and "split_path n \<noteq> []"
  shows "config_get (snd (parse_json_config j c)) n = after_file j (split_path n) (config_get (apply_defaults c) n)"
  using assms by (simp add: parse_json_config_def after_file_def config_get_def Let_def get_merged)

lemma config_validate_has:
  "config_validate c \<longleftrightarrow> (\<forall>(n, opt) \<in> set (c_options c). o_required opt \<longrightarrow> config_get c n \<noteq> None)"
  by (auto simp: config_validate_def missing_required_def config_has_def filter_empty_conv)

definition config_file_arg :: "string \<Rightarrow> string" where
  "config_file_arg file = config_file_flag @ ''='' @ file"

lemma config_file_arg_first:
  assumes "file \<noteq> []" and "\<not> c_loaded c"
  shows "first_pass L (config_file_arg file # args) c =
    (case load_file L file c of (False, c1) \<Rightarrow> (False, c1) | (True, c1) \<Rightarrow> first_pass L args (c1\<lparr>c_loaded := True\<rparr>))"
  using assms by (simp add: first_pass_Cons config_file_arg_def config_file_of_def load_once_def config_file_flag_def
      split: prod.split bool.split)

lemma config_file_arg_second:
  "second_pass L short x (config_file_arg file # args) c = second_pass L short x args c"
  by (subst second_pass.simps) (simp add: config_file_arg_def config_file_flag_def)

text \<open>
  Property C33. The command line comes before the file, and the file before the defaults: when the options have names that
  do not begin each other and the file holds an object that leaves no required option unset, \<open>ParseArgs\<close> succeeds, hands
  only the program's name back, and every option has the value of its last setting, or else what merging the file gives
  over its value so far or its default. The hypothesis on the required options is about the file alone, although the
  comments promise that they may be given on the command line.
\<close>

theorem cli_over_file_over_default:
  assumes "names_apart c" and "\<not> c_loaded c" and "file \<noteq> []" and "l_read L file = Some content"
    and "json_parse (l_stod L) content = Some j" and "is_object j"
    and "\<forall>(n, opt) \<in> set (c_options c). o_required opt \<longrightarrow> after_file j (split_path n) (config_get c n) \<noteq> None"
    and "\<forall>e \<in> set settings. good_setting L c e"
  shows "\<exists>c'. parse_args L allow_exit (program # config_file_arg file # map setting_arg settings) c = (Parsed True, c') \<and>
    c_no_parsed c' = [program] \<and>
    (\<forall>n \<in> fst ` set (c_options c). config_get c' n =
       (case map_of (rev settings) n of
          Some s \<Rightarrow> option_reads L c (n, s)
        | None \<Rightarrow> after_file j (split_path n) (with_default c n)))"
proof -
  define c1 where "c1 = (apply_defaults c)\<lparr>c_no_parsed := [program]\<rparr>"
  define c2 where "c2 = (snd (parse_json_config j c1))\<lparr>c_loaded := True\<rparr>"
  define c3 where "c3 = put_settings L c settings c2"
  have opts: "c_options c1 = c_options c" "c_options c2 = c_options c" "c_options c3 = c_options c"
    by (simp_all add: c1_def c2_def c3_def parse_json_config_fields)
  have wf: "json_wf j"
    using assms(5) by (rule json_parse_wf)
  have loaded: "config_get c2 n = after_file j (split_path n) (with_default c n)" if "n \<in> fst ` set (c_options c)" for n
    using get_parse_json [OF assms(6) wf, of n c1] names_apartD(1) [OF assms(1) that] get_defaults [OF assms(1) that]
      apply_defaults_again [OF assms(1), of "[program]"]
    by (simp add: c1_def c2_def)
  have unset: "with_default c n = config_get c n" if "(n, opt) \<in> set (c_options c)" "o_required opt" for n opt
    using that assms(1) omap_wf_distinct [of "c_options c"]
    by (auto simp: with_default_def names_apart_def omap_find_def split: option.split)
  have valid2: "config_validate c2"
    using assms(7) loaded unset by (fastforce simp: config_validate_has opts)
  have "load_file L file c1 = (True, snd (parse_json_config j c1))"
    using valid2 assms(4,5) by (simp add: load_file_def parse_config_def parse_json_config_def c2_def Let_def config_validate_has)
  then have first: "first_pass L (config_file_arg file # map setting_arg settings) c1 = (True, c2)"
    using config_file_arg_first [of _ c1 L] assms(2,3) first_pass_settings [OF assms(8)]
    by (simp add: c1_def c2_def)
  have good: "\<forall>e \<in> set settings. good_setting L c2 e"
    using assms(8) good_setting_cong [OF opts(2)] by simp
  have same: "put_settings L c2 settings c2 = c3"
    using option_reads_cong [OF opts(2)] by (simp add: c3_def put_settings_def)
  have result: "config_get c3 n = (case map_of (rev settings) n of Some s \<Rightarrow> option_reads L c (n, s)
      | None \<Rightarrow> after_file j (split_path n) (with_default c n))" if "n \<in> fst ` set (c_options c)" for n
    using get_settings [OF assms(1) that assms(8)] loaded [OF that] by (simp add: c3_def split: option.split)
  have "option_reads L c (n, s) \<noteq> None" if "map_of (rev settings) n = Some s" for n s
    using that assms(8) map_of_SomeD [of "rev settings" n s] by (auto simp: good_setting_def)
  then have "config_get c3 n \<noteq> None" if "(n, opt) \<in> set (c_options c)" "o_required opt" for n opt
    using result [of n] assms(7) unset [OF that] that by (force split: option.split)
  then have valid3: "config_validate c3"
    by (auto simp: config_validate_has opts)
  have "second_pass L short allow_exit (map setting_arg settings @ []) c2 = second_pass L short allow_exit [] c3" for short
    using second_pass_settings [OF good, of short allow_exit "[]"] same by simp
  then have "second_pass L short allow_exit (config_file_arg file # map setting_arg settings) c2 = (Parsed True, c3)" for short
    using valid3 by (simp add: config_file_arg_second second_pass.simps [of _ _ _ "[]"])
  then have "parse_args L allow_exit (program # config_file_arg file # map setting_arg settings) c = (Parsed True, c3)"
    using first by (simp add: parse_args_def c1_def [symmetric] Let_def)
  moreover have "c_no_parsed c3 = [program]"
    by (simp add: c3_def c2_def c1_def parse_json_config_fields)
  ultimately show ?thesis
    using result by blast
qed

text \<open>
  Property C35. With \<open>--config-file\<close> the required options are checked when the file has been loaded, before the rest of the
  command line is read: when the file leaves one of them unset, \<open>ParseArgs\<close> returns false for all further arguments, also
  those that set it. What the file holds has been merged nevertheless.
\<close>

theorem required_option_must_be_in_file:
  assumes "names_apart c" and "\<not> c_loaded c" and "file \<noteq> []" and "l_read L file = Some content"
    and "json_parse (l_stod L) content = Some j" and "is_object j"
    and "(n, opt) \<in> set (c_options c)" and "o_required opt" and "after_file j (split_path n) (config_get c n) = None"
  shows "\<exists>c'. parse_args L allow_exit (program # config_file_arg file # args) c = (Parsed False, c') \<and>
    (\<forall>m \<in> fst ` set (c_options c). config_get c' m = after_file j (split_path m) (with_default c m))"
proof -
  define c1 where "c1 = (apply_defaults c)\<lparr>c_no_parsed := [program]\<rparr>"
  define c2 where "c2 = snd (parse_json_config j c1)"
  have wf: "json_wf j"
    using assms(5) by (rule json_parse_wf)
  have loaded: "config_get c2 m = after_file j (split_path m) (with_default c m)" if "m \<in> fst ` set (c_options c)" for m
    using get_parse_json [OF assms(6) wf, of m c1] names_apartD(1) [OF assms(1) that] get_defaults [OF assms(1) that]
      apply_defaults_again [OF assms(1), of "[program]"]
    by (simp add: c1_def c2_def)
  have "with_default c n = config_get c n"
    using assms(1,7,8) omap_wf_distinct [of "c_options c"]
    by (auto simp: with_default_def names_apart_def omap_find_def split: option.split)
  then have "config_get c2 n = None"
    using loaded [of n] assms(7,9) by force
  moreover have "c_options c2 = c_options c"
    by (simp add: c2_def c1_def parse_json_config_fields)
  ultimately have "\<not> config_validate c2"
    using assms(7,8) unfolding config_validate_has by fastforce
  then have "load_file L file c1 = (False, c2)"
    using assms(4,5) by (simp add: load_file_def parse_config_def parse_json_config_def c2_def Let_def)
  then have "first_pass L (config_file_arg file # args) c1 = (False, c2)"
    using config_file_arg_first [of _ c1 L] assms(2,3) by (simp add: c1_def)
  then have "parse_args L allow_exit (program # config_file_arg file # args) c = (Parsed False, c2)"
    by (simp add: parse_args_def c1_def [symmetric] Let_def)
  then show ?thesis
    using loaded by blast
qed

section \<open>Ways to write an option\<close>

text \<open>Arguments without a meaning of their own.\<close>

definition plain_arg :: "bool \<Rightarrow> string \<Rightarrow> bool" where
  "plain_arg allow_exit arg \<longleftrightarrow>
     (arg \<notin> {''-h'', ''--help'', ''--dump''} \<or> \<not> allow_exit) \<and> arg \<noteq> config_file_flag \<and>
     take 14 arg \<noteq> config_file_flag @ ''=''"

lemma second_pass_read:
  assumes "plain_arg allow_exit arg" and "read_arg c short arg args = (form, rest)"
  shows "second_pass L short allow_exit (arg # args) c =
    (case apply_arg L arg form c of None \<Rightarrow> (Parsed False, c) | Some c1 \<Rightarrow> second_pass L short allow_exit rest c1)"
  using assms by (subst second_pass.simps) (auto simp: plain_arg_def split: option.split)

lemma plain_long_value: "CHR ''='' \<notin> set n \<Longrightarrow> n \<noteq> ''config-file'' \<Longrightarrow> plain_arg x (''--'' @ n @ ''='' @ v)"
proof -
  assume n: "CHR ''='' \<notin> set n" "n \<noteq> ''config-file''"
  have "CHR ''='' \<in> set (''--'' @ n @ ''='' @ v)"
    by simp
  then have "''--'' @ n @ ''='' @ v \<notin> {''-h'', ''--help'', ''--dump'', config_file_flag}"
    by (auto simp: config_file_flag_def simp del: set_append)
  then show ?thesis
    using config_file_name [OF n(1)] n(2) unfolding plain_arg_def by blast
qed

lemma plain_long:
  "CHR ''='' \<notin> set n \<Longrightarrow> n \<noteq> ''config-file'' \<Longrightarrow> x \<longrightarrow> n \<notin> {''help'', ''dump''} \<Longrightarrow> plain_arg x (''--'' @ n)"
proof -
  assume n: "CHR ''='' \<notin> set n" "n \<noteq> ''config-file''" "x \<longrightarrow> n \<notin> {''help'', ''dump''}"
  then have "CHR ''='' \<notin> set (take 14 (''--'' @ n))"
    by (auto dest: in_set_takeD)
  then have "take 14 (''--'' @ n) \<noteq> config_file_flag @ ''=''"
    by (metis in_set_conv_decomp)
  then show ?thesis
    using n by (auto simp: plain_arg_def config_file_flag_def)
qed

lemma plain_short:
  "y \<noteq> CHR ''-'' \<Longrightarrow> x \<longrightarrow> y \<noteq> CHR ''h'' \<or> rest \<noteq> [] \<Longrightarrow> plain_arg x (''-'' @ [y] @ rest)"
  by (auto simp: plain_arg_def config_file_flag_def)

lemma plain_flag: "y \<noteq> CHR ''-'' \<Longrightarrow> x \<longrightarrow> y \<noteq> CHR ''h'' \<Longrightarrow> plain_arg x (''-'' @ [y])"
  using plain_short [of y x "[]"] by simp

lemma apply_keyed:
  assumes "omap_find (c_options c) n = Some opt" and "n \<noteq> []" and "v \<noteq> []"
  shows "apply_arg L arg (Keyed n (Some v)) c = map_option (\<lambda>j. config_set n j c) (parse_option_value L v (o_default opt))"
  using assms by (simp add: apply_arg_def set_option_def)

lemma long_forms:
  assumes "CHR ''='' \<notin> set n"
  shows "read_arg c short (''--'' @ n @ ''='' @ v) args = (Keyed n (Some v), args)"
    "\<not> is_flag v \<Longrightarrow> read_arg c short (''--'' @ n) (v # args) = (Keyed n (Some v), args)"
  using assms takeWhile_upto [OF assms, of v] dropWhile_upto [OF assms, of v]
  by (simp_all add: read_arg_def long_form_def following_value_def)

lemma short_forms:
  assumes "omap_find short [x] = Some n" and "x \<noteq> CHR ''-''" and "\<not> bool_default c n"
  shows "read_arg c short (''-'' @ [x] @ ''='' @ v) args = (Keyed n (Some v), args)"
    "v \<noteq> [] \<Longrightarrow> hd v \<noteq> CHR ''='' \<Longrightarrow> read_arg c short (''-'' @ [x] @ v) args = (Keyed n (Some v), args)"
    "\<not> is_flag v \<Longrightarrow> read_arg c short (''-'' @ [x]) (v # args) = (Keyed n (Some v), args)"
proof -
  have unknown: "\<not> known_bool c short x"
    using assms by (simp add: known_bool_def)
  show "read_arg c short (''-'' @ [x] @ ''='' @ v) args = (Keyed n (Some v), args)"
    "\<not> is_flag v \<Longrightarrow> read_arg c short (''-'' @ [x]) (v # args) = (Keyed n (Some v), args)"
    using assms unknown by (simp_all add: read_arg_def short_form_def following_value_def)
  show "read_arg c short (''-'' @ [x] @ v) args = (Keyed n (Some v), args)" if "v \<noteq> []" and "hd v \<noteq> CHR ''=''"
    using assms unknown that by (cases v) (simp_all add: read_arg_def short_form_def)
qed

lemma read_flag:
  assumes "known_bool c short x" and "x \<noteq> CHR ''-''"
  shows "read_arg c short (''-'' @ [x]) args = (Keyed (the (omap_find short [x])) None, args)"
  using assms by (simp add: read_arg_def short_form_def known_bool_def split: option.splits)

lemma apply_flag:
  assumes "bool_default c n" and "n \<noteq> []"
  shows "apply_arg L arg (Keyed n None) c = Some (config_set n (JBool True) c)"
  using assms by (auto simp: apply_arg_def set_option_def bool_default_def split: option.splits)

lemma short_to_long_known: "omap_find (short_to_long c) s = Some n \<Longrightarrow> n \<in> fst ` set (c_options c)"
proof -
  have "omap_find (fold (\<lambda>(n, opt) m. if o_short opt \<noteq> [] then omap_set (o_short opt) n m else m) es m) s = Some n \<Longrightarrow>
      n \<in> fst ` set es \<or> omap_find m s = Some n" for es m
  proof (induction es arbitrary: m)
    case Nil
    then show ?case by simp
  next
    case (Cons e es)
    obtain k opt where e: "e = (k, opt)"
      by (cases e)
    show ?case
      using Cons.IH [of "if o_short opt \<noteq> [] then omap_set (o_short opt) k m else m"] Cons.prems
      by (auto simp: e omap_find_set split: if_splits)
  qed
  from this [of "c_options c" "[]"] show "omap_find (short_to_long c) s = Some n \<Longrightarrow> ?thesis"
    by (simp add: short_to_long_def)
qed

lemma known_bool_cong: "c_options c' = c_options c \<Longrightarrow> known_bool c' short x = known_bool c short x"
  by (simp add: known_bool_def bool_default_def cong: option.case_cong)

lemma flags_one_by_one:
  assumes "list_all (known_bool c short) xs" and "CHR ''-'' \<notin> set xs" and "\<forall>n. omap_find short n \<noteq> Some []"
    and "c_options c' = c_options c" and "allow_exit \<longrightarrow> CHR ''h'' \<notin> set xs"
  shows "second_pass L short allow_exit (map (\<lambda>x. ''-'' @ [x]) xs @ args) c' =
    second_pass L short allow_exit args (fold (\<lambda>name. config_set name (JBool True)) (map (\<lambda>x. the (omap_find short [x])) xs) c')"
  using assms
proof (induction xs arbitrary: c')
  case Nil
  then show ?case by simp
next
  case (Cons x xs)
  define n where "n = the (omap_find short [x])"
  have known: "known_bool c' short x"
    using Cons.prems known_bool_cong [OF Cons.prems(4)] by simp
  have n: "bool_default c' n" "n \<noteq> []"
    using known Cons.prems(3) by (auto simp: known_bool_def n_def split: option.splits)
  have "second_pass L short allow_exit ((''-'' @ [x]) # map (\<lambda>x. ''-'' @ [x]) xs @ args) c' =
      second_pass L short allow_exit (map (\<lambda>x. ''-'' @ [x]) xs @ args) (config_set n (JBool True) c')"
    using second_pass_read [OF plain_flag read_flag [OF known]] apply_flag [OF n] Cons.prems(2,5)
    by (auto simp: n_def)
  then show ?case
    using Cons.IH [of "config_set n (JBool True) c'"] Cons.prems by (simp add: n_def)
qed

text \<open>
  Property C34. The five ways to give an option a value, \<open>--name=value\<close>, \<open>--name value\<close>, \<open>-x=value\<close>, \<open>-xvalue\<close> and
  \<open>-x value\<close>, do the same, for options that are not boolean and values that do not look like a flag; and a chain of
  boolean flags \<open>-xyz\<close> does the same as the flags one by one.
\<close>

theorem option_forms_agree:
  assumes "short = short_to_long c"
  shows "(omap_find (c_options c) n = Some opt \<and> omap_find short [x] = Some n \<and> x \<noteq> CHR ''-'' \<and> n \<noteq> [] \<and>
        CHR ''='' \<notin> set n \<and> n \<noteq> ''config-file'' \<and> \<not> is_bool (o_default opt) \<and>
        (allow_exit \<longrightarrow> x \<noteq> CHR ''h'' \<and> n \<notin> {''help'', ''dump''}) \<and>
        v \<noteq> [] \<and> hd v \<noteq> CHR ''='' \<and> \<not> is_flag v \<longrightarrow>
      (\<forall>arg \<in> {[''--'' @ n @ ''='' @ v], [''--'' @ n, v], [''-'' @ [x] @ ''='' @ v], [''-'' @ [x] @ v], [''-'' @ [x], v]}.
         second_pass L short allow_exit (arg @ args) c =
           (case parse_option_value L v (o_default opt) of
              None \<Rightarrow> (Parsed False, c)
            | Some j \<Rightarrow> second_pass L short allow_exit args (config_set n j c)))) \<and>
    (list_all (known_bool c short) xs \<and> length xs > 1 \<and> CHR ''-'' \<notin> set xs \<and> \<not> allow_exit \<and> [] \<notin> fst ` set (c_options c) \<longrightarrow>
      second_pass L short allow_exit ((''-'' @ xs) # args) c =
        second_pass L short allow_exit (map (\<lambda>x. ''-'' @ [x]) xs @ args) c)"
proof (intro conjI impI)
  assume *: "omap_find (c_options c) n = Some opt \<and> omap_find short [x] = Some n \<and> x \<noteq> CHR ''-'' \<and> n \<noteq> [] \<and>
        CHR ''='' \<notin> set n \<and> n \<noteq> ''config-file'' \<and> \<not> is_bool (o_default opt) \<and>
        (allow_exit \<longrightarrow> x \<noteq> CHR ''h'' \<and> n \<notin> {''help'', ''dump''}) \<and>
        v \<noteq> [] \<and> hd v \<noteq> CHR ''='' \<and> \<not> is_flag v"
  have bool: "\<not> bool_default c n"
    using * by (simp add: bool_default_def)
  have h: "omap_find short [x] = Some n" "x \<noteq> CHR ''-''" "CHR ''='' \<notin> set n" "v \<noteq> []" "hd v \<noteq> CHR ''=''" "\<not> is_flag v"
    "n \<noteq> []" "n \<noteq> ''config-file''" "omap_find (c_options c) n = Some opt"
    "allow_exit \<longrightarrow> x \<noteq> CHR ''h'' \<and> n \<notin> {''help'', ''dump''}"
    using * by blast+
  have run: "second_pass L short allow_exit (arg # args') c =
      (case parse_option_value L v (o_default opt) of
         None \<Rightarrow> (Parsed False, c)
       | Some j \<Rightarrow> second_pass L short allow_exit args (config_set n j c))"
    if "plain_arg allow_exit arg" and "read_arg c short arg args' = (Keyed n (Some v), args)" for arg args'
    using second_pass_read [OF that] apply_keyed [OF h(9,7,4)] by (simp split: option.split)
  note short_x = short_forms [OF h(1,2) bool]
  note long = run [OF plain_long_value [OF h(3,8)] long_forms(1) [OF h(3)]] run [OF plain_long long_forms(2) [OF h(3,6)], OF h(3,8)]
  note dash = run [OF plain_short short_x(1), OF h(2)] run [OF plain_short short_x(2) [OF h(4,5)], OF h(2)]
    run [OF plain_flag short_x(3) [OF h(6)], OF h(2)]
  show "\<forall>arg \<in> {[''--'' @ n @ ''='' @ v], [''--'' @ n, v], [''-'' @ [x] @ ''='' @ v], [''-'' @ [x] @ v], [''-'' @ [x], v]}.
         second_pass L short allow_exit (arg @ args) c =
           (case parse_option_value L v (o_default opt) of
              None \<Rightarrow> (Parsed False, c)
            | Some j \<Rightarrow> second_pass L short allow_exit args (config_set n j c))"
    using long dash h(4,10) by simp
next
  assume *: "list_all (known_bool c short) xs \<and> length xs > 1 \<and> CHR ''-'' \<notin> set xs \<and> \<not> allow_exit \<and>
    [] \<notin> fst ` set (c_options c)"
  then obtain x ys where xs: "xs = x # ys" "x \<noteq> CHR ''-''"
    by (cases xs) auto
  have "read_arg c short (''-'' @ xs) args = (Chain (map (\<lambda>x. the (omap_find short [x])) xs), args)"
    using * xs by (simp add: read_arg_def short_form_def)
  then have "second_pass L short allow_exit ((''-'' @ xs) # args) c =
      second_pass L short allow_exit args (fold (\<lambda>name. config_set name (JBool True)) (map (\<lambda>x. the (omap_find short [x])) xs) c)"
    using second_pass_read [of allow_exit "''-'' @ xs" c short args _ args L] plain_short [of x allow_exit ys] * xs
    by (simp add: apply_arg_def)
  moreover have "\<forall>s. omap_find short s \<noteq> Some []"
    using * short_to_long_known assms by blast
  ultimately show "second_pass L short allow_exit ((''-'' @ xs) # args) c =
        second_pass L short allow_exit (map (\<lambda>x. ''-'' @ [x]) xs @ args) c"
    using flags_one_by_one [of c short xs c allow_exit] * by simp
qed

section \<open>What is handed back\<close>

definition positional :: "string \<Rightarrow> bool" where
  "positional arg \<longleftrightarrow> arg = [] \<or> hd arg \<noteq> CHR ''-''"

lemma positional_read:
  assumes "positional arg"
  shows "read_arg c short arg args = (Unparsed, args)" "plain_arg x arg" "\<not> is_flag arg"
  using assms by (auto simp: positional_def read_arg_def plain_arg_def config_file_flag_def is_flag_def hd_conv_nth take_Suc_conv_app_nth)
    (cases arg; simp)+

lemma second_pass_positional:
  "list_all positional args \<Longrightarrow>
    second_pass L short x args c = (Parsed (config_validate c), c\<lparr>c_no_parsed := c_no_parsed c @ args\<rparr>)"
proof (induction args arbitrary: c)
  case Nil
  then show ?case by (simp add: second_pass.simps)
next
  case (Cons arg args)
  have "second_pass L short x (arg # args) c = second_pass L short x args (hand_back [arg] c)"
    using second_pass_read [OF positional_read(2,1) [of arg]] Cons.prems by (simp add: apply_arg_def)
  then show ?case
    using Cons by (simp add: hand_back_def config_validate_has)
qed

lemma first_pass_positional: "list_all positional args \<Longrightarrow> first_pass L args c = (True, c)"
proof (induction args)
  case Nil
  then show ?case by simp
next
  case (Cons arg args)
  then show ?case
    using positional_read(2) [of arg True] by (simp add: first_pass_Cons plain_arg_def config_file_of_def load_once_def)
qed

text \<open>
  Property C36. Arguments that do not begin with a dash are handed back in order, after the program's name; but the
  argument after a bare \<open>--\<close> is lost: it is neither used nor handed back.
\<close>

theorem bare_dashes_lose_an_argument:
  assumes "list_all positional args" and "config_validate (apply_defaults c)"
  shows "parse_args L x (program # args) c = (Parsed True, (apply_defaults c)\<lparr>c_no_parsed := program # args\<rparr>) \<and>
    parse_args L x (program # ''--'' # args) c =
      (Parsed True, (apply_defaults c)\<lparr>c_no_parsed := program # ''--'' # drop 1 args\<rparr>)"
proof -
  define c1 where "c1 = (apply_defaults c)\<lparr>c_no_parsed := [program]\<rparr>"
  have valid: "config_validate c1"
    using assms(2) by (simp add: c1_def config_validate_has)
  have "plain_arg x ''--''"
    by (simp add: plain_arg_def config_file_flag_def)
  moreover have "read_arg c1 short ''--'' args = (Keyed [] (if args = [] then None else Some (hd args)), drop 1 args)" for short
    using assms(1) positional_read(3) by (cases args) (simp_all add: read_arg_def long_form_def following_value_def)
  ultimately have "second_pass L short x (''--'' # args) c1 = second_pass L short x (drop 1 args) (hand_back [''--''] c1)" for short
    by (simp add: second_pass_read apply_arg_def)
  moreover have "list_all positional (drop 1 args)"
    using assms(1) by (cases args) simp_all
  ultimately have second: "second_pass L short x (''--'' # args) c1 =
      (Parsed True, (apply_defaults c)\<lparr>c_no_parsed := program # ''--'' # drop 1 args\<rparr>)" for short
    using valid by (simp add: second_pass_positional hand_back_def config_validate_has c1_def)
  have "first_pass L (''--'' # args) c1 = (True, c1)"
    using first_pass_positional [OF assms(1)] by (simp add: first_pass_Cons config_file_flag_def config_file_of_def load_once_def)
  then show ?thesis
    using second valid first_pass_positional [OF assms(1)] second_pass_positional [OF assms(1)]
    by (simp add: parse_args_def Let_def c1_def config_validate_has)
qed

section \<open>The invariant\<close>

definition conf_inv :: "config \<Rightarrow> bool" where
  "conf_inv c \<longleftrightarrow> is_object (c_data c) \<and> json_wf (c_data c) \<and> omap_wf (c_options c) \<and>
     (\<forall>(n, opt) \<in> set (c_options c). o_name opt = n \<and> length (o_short opt) \<le> 1 \<and> json_wf (o_default opt) \<and>
        (\<forall>(n', opt') \<in> set (c_options c). o_short opt' = o_short opt \<and> o_short opt \<noteq> [] \<longrightarrow> n' = n))"

lemma json_wf_members_of: "json_wf j \<Longrightarrow> json_wf (JObject (members_of j))"
  by (cases j) (simp_all add: members_of_def)

lemma set_at_wf: "json_wf v \<Longrightarrow> json_wf j \<Longrightarrow> json_wf (set_at parts v j)"
proof (induction parts v j rule: set_at.induct)
  case (3 part more_part parts v current)
  have "json_wf (case omap_find (members_of current) part of Some j \<Rightarrow> j | None \<Rightarrow> json_object)"
    using json_wf_find [OF json_wf_members_of [OF 3(3)]] by (auto simp: json_object_def split: option.split)
  then show ?case
    using 3 by (auto simp: Let_def simp del: json_wf.simps intro: json_wf_set json_wf_members_of)
qed (auto simp del: json_wf.simps intro: json_wf_set json_wf_members_of)

lemma set_at_object: "parts \<noteq> [] \<Longrightarrow> is_object (set_at parts v j)"
  by (induction parts v j rule: set_at.induct) (simp_all add: is_object_def Let_def)

lemma conf_inv_set: "conf_inv c \<Longrightarrow> json_wf v \<Longrightarrow> conf_inv (config_set p v c)"
  by (simp add: conf_inv_def config_set_def Let_def set_at_wf set_at_object)

lemma merge_wf: "json_wf a \<Longrightarrow> json_wf b \<Longrightarrow> json_wf (merge_objects a b)"
proof (induction b arbitrary: a rule: measure_induct_rule [of size])
  case (less b)
  show ?case
  proof (cases "is_object a \<and> is_object b")
    case True
    then obtain m m' where ab: "a = JObject m" "b = JObject m'"
      by (cases a; cases b) (auto simp: is_object_def)
    have "json_wf (JObject (fold merge_entry es m))"
      if "set es \<subseteq> set m'" and "json_wf (JObject m)" for es m
      using that
    proof (induction es arbitrary: m)
      case Nil
      then show ?case by simp
    next
      case (Cons e es)
      have "json_wf (snd e)" "size (snd e) < size b"
        using Cons.prems less.prems ab size_member [of "fst e" "snd e" m'] by (auto simp: list_all_iff)
      then have "json_wf (JObject (merge_entry e m))"
        using less.IH json_wf_find [OF Cons.prems(2)] json_wf_set [OF Cons.prems(2)]
        by (auto simp: merge_entry_def simp del: json_wf.simps split: option.split)
      then show ?case
        using Cons by simp
    qed
    then show ?thesis
      using less.prems by (simp add: ab merge_both)
  next
    case False
    then show ?thesis
      using less.prems by (simp add: merge_other)
  qed
qed

datatype conf_call =
    Call_define string string json bool | Call_short string string | Call_args bool "string list" | Call_load string
  | Call_json json | Call_env "string list" string | Call_set string json

fun run_call :: "conf_lib \<Rightarrow> conf_call \<Rightarrow> config \<Rightarrow> config" where
  "run_call L (Call_define n d j r) c = define_option n d j r c"
| "run_call L (Call_short n s) c = set_short n s c"
| "run_call L (Call_args x args) c = snd (parse_args L x args c)"
| "run_call L (Call_load f) c = snd (load_file L f c)"
| "run_call L (Call_json j) c = snd (parse_json_config j c)"
| "run_call L (Call_env es p) c = snd (load_env L es p c)"
| "run_call L (Call_set p j) c = config_set p j c"

fun call_wf :: "conf_call \<Rightarrow> bool" where
  "call_wf (Call_define n d j r) = json_wf j"
| "call_wf (Call_json j) = json_wf j"
| "call_wf (Call_set p j) = json_wf j"
| "call_wf _ = True"

lemma conf_inv_defaults: "conf_inv c \<Longrightarrow> conf_inv (apply_defaults c)"
proof -
  have "conf_inv (fold (\<lambda>(n, opt) c. if \<not> o_required opt \<and> \<not> config_has c n then config_set n (o_default opt) c else c) es c)"
    if "conf_inv c" and "\<forall>(n, opt) \<in> set es. json_wf (o_default opt)" for es c
    using that
  proof (induction es arbitrary: c)
    case Nil
    then show ?case by simp
  next
    case (Cons e es)
    then show ?case
      by (cases e) (simp add: conf_inv_set)
  qed
  moreover have "\<forall>(n, opt) \<in> set (c_options c). json_wf (o_default opt)" if "conf_inv c"
    using that unfolding conf_inv_def by blast
  ultimately show "conf_inv c \<Longrightarrow> conf_inv (apply_defaults c)"
    unfolding apply_defaults_def by blast
qed

lemma merge_object: "is_object a \<Longrightarrow> is_object b \<Longrightarrow> is_object (merge_objects a b)"
  by (cases a; cases b) (simp_all add: is_object_def merge_both)

lemma conf_inv_data:
  "conf_inv c \<Longrightarrow> is_object (c_data c) \<and> json_wf (c_data c)"
  "conf_inv c \<Longrightarrow> is_object d \<Longrightarrow> json_wf d \<Longrightarrow> conf_inv (c\<lparr>c_data := d\<rparr>)"
  by (simp_all add: conf_inv_def)

lemma conf_inv_json:
  assumes "conf_inv c" and "json_wf j"
  shows "conf_inv (snd (parse_json_config j c))"
proof -
  have "conf_inv (apply_defaults c)"
    using assms(1) by (rule conf_inv_defaults)
  then show ?thesis
    using conf_inv_data(1) conf_inv_data(2) [OF _ merge_object merge_wf] assms(2)
    by (simp add: parse_json_config_def Let_def)
qed

lemma conf_inv_load: "conf_inv c \<Longrightarrow> conf_inv (snd (load_file L f c))"
  by (auto simp: load_file_def parse_config_def split: option.split intro: conf_inv_json json_parse_wf)

lemma conf_inv_fields: "conf_inv (c\<lparr>c_no_parsed := xs\<rparr>) = conf_inv c" "conf_inv (c\<lparr>c_loaded := b\<rparr>) = conf_inv c"
  by (simp_all add: conf_inv_def)

lemma conf_inv_option:
  "conf_inv c \<Longrightarrow> omap_find (c_options c) n = Some opt \<Longrightarrow>
    o_name opt = n \<and> length (o_short opt) \<le> 1 \<and> json_wf (o_default opt)"
  using omap_find_mem [of "c_options c" n opt] by (auto simp: conf_inv_def)

lemma parse_option_value_wf: "parse_option_value L s d = Some j \<Longrightarrow> json_wf j"
  by (auto simp: parse_option_value_def Let_def split: json.splits if_splits intro: json_parse_wf)

lemma conf_inv_arg: "conf_inv c \<Longrightarrow> apply_arg L arg form c = Some c' \<Longrightarrow> conf_inv c'"
proof -
  have chain: "conf_inv c \<Longrightarrow> conf_inv (fold (\<lambda>name. config_set name (JBool True)) names c)" for names c
    by (induction names arbitrary: c) (simp_all add: conf_inv_set)
  show "conf_inv c \<Longrightarrow> apply_arg L arg form c = Some c' \<Longrightarrow> ?thesis"
    by (auto simp: apply_arg_def set_option_def hand_back_def conf_inv_fields chain conf_inv_set
        split: arg_form.splits if_splits option.splits dest: parse_option_value_wf)
qed

lemma conf_inv_load_once: "conf_inv c \<Longrightarrow> conf_inv (snd (load_once L f c))"
  using conf_inv_load [of c L f] by (auto simp: load_once_def conf_inv_fields split: prod.split bool.split)

lemma conf_inv_first: "conf_inv c \<Longrightarrow> conf_inv (snd (first_pass L args c))"
proof (induction L args c rule: first_pass.induct)
  case (2 L arg c)
  then show ?case by (simp add: conf_inv_load_once)
next
  case (3 L arg f args c)
  then show ?case
    using conf_inv_load_once [of c L f] conf_inv_load_once [of c L "config_file_of arg"]
    by (auto split: prod.split)
qed simp

lemma conf_inv_second: "conf_inv c \<Longrightarrow> conf_inv (snd (second_pass L short x args c))"
proof (induction L short x args c rule: second_pass.induct)
  case (1 L short x args c)
  show ?case
  proof (cases args)
    case Nil
    then show ?thesis
      using 1(4) by (simp add: second_pass.simps [of _ _ _ "[]"])
  next
    case (Cons arg rest)
    show ?thesis
      unfolding Cons second_pass.simps [of L short x "arg # rest" c]
      using 1(1,2) [OF Cons] 1(3) [OF Cons] 1(4) conf_inv_arg [OF 1(4)]
      by (auto split: option.split)
  qed
qed

lemma conf_inv_env: "conf_inv c \<Longrightarrow> conf_inv (snd (load_env L es p c))"
proof -
  have wf: "json_wf (env_value L v)" for v
    by (auto simp: env_value_def Let_def split: option.split)
  have "conf_inv (snd (env_entry L q e (k, c)))" if "conf_inv c" for q e k c
    using that by (auto simp: env_entry_def wf intro: conf_inv_set split: option.split)
  then have "conf_inv (snd ac) \<Longrightarrow> conf_inv (snd (fold (env_entry L q) es ac))" for q ac
    by (induction es arbitrary: ac) (auto, metis prod.collapse)
  then show "conf_inv c \<Longrightarrow> ?thesis"
    by (simp add: load_env_def)
qed

lemma in_omap_set:
  "omap_wf m \<Longrightarrow> (n, x) \<in> set (omap_set k v m) \<longleftrightarrow> (if n = k then x = v else (n, x) \<in> set m)"
proof -
  have "(n, x) \<in> set m \<longleftrightarrow> omap_find m n = Some x" if "omap_wf m" for m
    using omap_wf_distinct [OF that] by (auto simp: omap_find_def dest: map_of_SomeD)
  then show "omap_wf m \<Longrightarrow> ?thesis"
    using omap_wf_set [of m k v] by (auto simp: omap_find_set)
qed

lemma conf_inv_new_option:
  assumes "conf_inv c" and "o_name opt = n" and "length (o_short opt) \<le> 1" and "json_wf (o_default opt)"
    and "o_short opt \<noteq> [] \<longrightarrow> \<not> short_taken c n (o_short opt)"
  shows "conf_inv (c\<lparr>c_options := omap_set n opt (c_options c)\<rparr>)"
proof -
  have wf: "omap_wf (c_options c)"
    and old: "\<And>k x. (k, x) \<in> set (c_options c) \<Longrightarrow> o_name x = k \<and> length (o_short x) \<le> 1 \<and> json_wf (o_default x)"
    and unique: "\<And>k x k' x'. (k, x) \<in> set (c_options c) \<Longrightarrow> (k', x') \<in> set (c_options c) \<Longrightarrow>
      o_short x' = o_short x \<Longrightarrow> o_short x \<noteq> [] \<Longrightarrow> k' = k"
    using assms(1) unfolding conf_inv_def by blast+
  have free: "(k, x) \<in> set (c_options c) \<Longrightarrow> k \<noteq> n \<Longrightarrow> o_short opt \<noteq> [] \<Longrightarrow> o_short x \<noteq> o_short opt" for k x
    using assms(5) by (auto simp: short_taken_def list_ex_iff)
  have entries: "o_name x = k \<and> length (o_short x) \<le> 1 \<and> json_wf (o_default x)"
    if "(k, x) \<in> set (omap_set n opt (c_options c))" for k x
    using that assms(2-4) old by (auto simp: in_omap_set [OF wf] split: if_splits)
  have "k' = k" if "(k, x) \<in> set (omap_set n opt (c_options c))" "(k', x') \<in> set (omap_set n opt (c_options c))"
    "o_short x' = o_short x" "o_short x \<noteq> []" for k x k' x'
    using that unique [of k x k' x'] free by (fastforce simp: in_omap_set [OF wf] split: if_splits)
  then show ?thesis
    using entries assms(1) omap_wf_set [OF wf] unfolding conf_inv_def by (auto split: prod.splits)
qed

lemma conf_inv_call: "conf_inv c \<Longrightarrow> call_wf call \<Longrightarrow> conf_inv (run_call L call c)"
proof (cases call)
  case (Call_define n d j r)
  assume "conf_inv c" "call_wf call"
  then have "conf_inv (c\<lparr>c_options := omap_set n (make_option n d j r) (c_options c)\<rparr>)"
    using Call_define by (intro conf_inv_new_option) (simp_all add: make_option_def)
  then show ?thesis
    using Call_define \<open>call_wf call\<close> conf_inv_set by (cases r) (simp_all add: define_option_def Let_def)
next
  case (Call_short n s)
  assume "conf_inv c"
  then show ?thesis
    using Call_short conf_inv_option [of c n]
    by (auto simp: set_short_def intro!: conf_inv_new_option split: option.split)
next
  case (Call_args x args)
  assume inv: "conf_inv c"
  show ?thesis
    using Call_args inv conf_inv_first [of "(apply_defaults c)\<lparr>c_no_parsed := [hd args]\<rparr>" L "tl args"] conf_inv_defaults [OF inv]
    by (auto simp: parse_args_def Let_def conf_inv_fields split: list.split prod.split bool.split intro: conf_inv_second)
qed (auto intro: conf_inv_load conf_inv_json conf_inv_env conf_inv_set)

text \<open>
  Property C37. Whatever calls are made on a new configuration, with well-formed values: its data stay an object whose
  keys are unique and in order, every option stands under its own name, short names have at most one character, and no
  two options share one.
\<close>

theorem config_calls_keep_invariant:
  "list_all call_wf calls \<Longrightarrow> conf_inv (fold (run_call L) calls new_config)"
proof -
  have "conf_inv c \<Longrightarrow> list_all call_wf calls \<Longrightarrow> conf_inv (fold (run_call L) calls c)" for c
    by (induction calls arbitrary: c) (simp_all add: conf_inv_call)
  moreover have "conf_inv new_config"
    by (simp add: conf_inv_def new_config_def json_object_def is_object_def)
  ultimately show "list_all call_wf calls \<Longrightarrow> ?thesis"
    by blast
qed

section \<open>Concrete inputs\<close>

definition two_files :: conf_lib where
  "two_files = \<lparr>l_stod = (\<lambda>_. None), l_strtod = (\<lambda>s. (0, s)), l_format = (\<lambda>_. []),
     l_read = (\<lambda>f. if f = ''f'' then Some ''{\"p\":81}'' else if f = ''g'' then Some ''{\"v\":false}'' else None),
     l_can_write = (\<lambda>_. False)\<rparr>"

definition two_options :: config where
  "two_options = set_short ''p'' ''P'' (define_option ''p'' [] (JInt 80) True (define_option ''v'' [] (JBool True) False new_config))"

lemma two_options_eq:
  "two_options =
     \<lparr>c_options = [(''p'', \<lparr>o_name = ''p'', o_short = ''P'', o_description = [], o_default = JInt 80, o_required = True\<rparr>),
        (''v'', \<lparr>o_name = ''v'', o_short = [], o_description = [], o_default = JBool True, o_required = False\<rparr>)],
      c_data = JObject [(''v'', JBool True)], c_loaded = False, c_no_parsed = []\<rparr>"
  by code_simp

lemma one_letter_paths [simp]: "split_path ''p'' = [''p'']" "split_path ''v'' = [''v'']"
  by (simp_all add: split_path_def split_dots.simps)

lemma file_contents:
  "json_parse (l_stod two_files) ''{\"p\":81}'' = Some (JObject [(''p'', JInt 81)])"
  "json_parse (l_stod two_files) ''{\"v\":false}'' = Some (JObject [(''v'', JBool False)])"
  by code_simp+

lemma two_options_apart: "names_apart two_options"
  by (simp add: two_options_eq names_apart_def omap_wf_def apart_def List_Lexorder.list_less_def)

theorem cli_over_file_over_default_witness:
  "\<exists>c'. parse_args two_files False [''prog'', config_file_arg ''f'', setting_arg (''v'', ''no'')] two_options = (Parsed True, c') \<and>
     config_get c' ''p'' = Some (JInt 81) \<and> config_get c' ''v'' = Some (JBool False)"
proof -
  have reads: "option_reads two_files two_options (''v'', ''no'') = Some (JBool False)"
    by code_simp
  have from_f: "after_file (JObject [(''p'', JInt 81)]) [''p''] b = Some (case b of Some u \<Rightarrow> merge_objects u (JInt 81) | None \<Rightarrow> JInt 81)" for b
    by (simp add: after_file_def get_at_object)
  have "config_get two_options ''p'' = None"
    by (simp add: config_get_def two_options_eq get_at_object)
  then have "with_default two_options ''p'' = None"
    by (simp add: with_default_def two_options_eq)
  then show ?thesis
    using cli_over_file_over_default [of two_options "''f''" two_files "''{\"p\":81}''" "JObject [(''p'', JInt 81)]" "[(''v'', ''no'')]" False "''prog''"]
      two_options_apart reads from_f file_contents(1)
    by (simp add: two_options_eq two_files_def good_setting_def is_object_def) blast
qed

theorem required_option_must_be_in_file_witness:
  "fst (parse_args two_files False [''prog'', config_file_arg ''g'', ''-P'', ''81''] two_options) = Parsed False"
proof -
  have "config_get two_options ''p'' = None"
    by (simp add: config_get_def two_options_eq get_at_object)
  then show ?thesis
    using required_option_must_be_in_file [of two_options "''g''" two_files "''{\"v\":false}''" "JObject [(''v'', JBool False)]" "''p''"
        "\<lparr>o_name = ''p'', o_short = ''P'', o_description = [], o_default = JInt 80, o_required = True\<rparr>" False "''prog''" "[''-P'', ''81'']"]
      two_options_apart file_contents(2)
    by (auto simp: two_options_eq two_files_def is_object_def after_file_def get_at_object members_of_def)
qed

theorem option_forms_agree_witness:
  "second_pass two_files (short_to_long two_options) False [''-P81''] two_options =
     second_pass two_files (short_to_long two_options) False [''--p'', ''81''] two_options"
proof -
  have "omap_find (short_to_long two_options) ''P'' = Some ''p''"
    by code_simp
  then show ?thesis
    using option_forms_agree [of "short_to_long two_options" two_options "''p''"
        "\<lparr>o_name = ''p'', o_short = ''P'', o_description = [], o_default = JInt 80, o_required = True\<rparr>" "CHR ''P''" False "''81''" two_files "[]" "[]"]
    by (simp add: two_options_eq is_bool_def is_flag_def)
qed

theorem bare_dashes_lose_an_argument_witness:
  "c_no_parsed (snd (parse_args two_files False [''prog'', ''--'', ''a'', ''b''] new_config)) = [''prog'', ''--'', ''b'']"
proof -
  have "list_all positional [''a'', ''b'']" "config_validate (apply_defaults new_config)"
    by (simp_all add: positional_def config_validate_has new_config_def)
  then show ?thesis
    using bare_dashes_lose_an_argument [of "[''a'', ''b'']" new_config two_files False "''prog''"] by simp
qed

theorem config_calls_keep_invariant_witness:
  "conf_inv (fold (run_call two_files) [Call_set ''a.b'' JNull, Call_short ''v'' ''x'', Call_load ''f''] new_config)"
  by (rule config_calls_keep_invariant) simp

end
