(* ===== verification/Cron.thy ===== *)
theory Cron
  imports Ordered_Map Decimal "HOL-Library.AList"
begin

text \<open>
  The cron scheduler (\<open>tasks/cron_scheduler.h\<close>, \<open>tasks/cron_scheduler.cc\<close>): the calendar functions of the C
  library, the next run of a task, the table of tasks, one round of a scheduler in test mode, and the worker thread
  as a step relation.

  A time point is an integer number of nanoseconds since the epoch, as in \<open>system_clock\<close>; the arithmetic stays within
  64 bits for the years of that clock and intervals below about 292 years. A \<open>std::set<int>\<close> is its sorted list. Tasks stand in a list in the order in
  which iterating the hash table yields them; functions are handles.
\<close>

section \<open>Calendar\<close>

text \<open>Days since the epoch; months are numbered \<open>12 * year + month\<close>, with January as 0.\<close>

definition leap_year :: "int \<Rightarrow> bool" where
  "leap_year y \<longleftrightarrow> y mod 4 = 0 \<and> y mod 100 \<noteq> 0 \<or> y mod 400 = 0"

definition year_start :: "int \<Rightarrow> int" where
  "year_start y = 365 * (y - 1970) + (y - 1) div 4 - (y - 1) div 100 + (y - 1) div 400 - 477"

definition month_offset :: "int \<Rightarrow> int" where
  "month_offset m = [0, 31, 59, 90, 120, 151, 181, 212, 243, 273, 304, 334] ! nat m"

definition month_start :: "int \<Rightarrow> int" where
  "month_start mon =
     (let y = mon div 12; m = mon mod 12
      in year_start y + month_offset m + (if m \<ge> 2 \<and> leap_year y then 1 else 0))"

definition month_length :: "int \<Rightarrow> int" where
  "month_length mon =
     (if mon mod 12 = 1 then (if leap_year (mon div 12) then 29 else 28)
      else if mon mod 12 \<in> {3, 5, 8, 10} then 30 else 31)"

lemma div_previous: "0 < n \<Longrightarrow> y div n = (y - 1) div n + (if y mod n = 0 then 1 else 0)" for n y :: int
proof -
  assume n: "0 < n"
  have "(y - 1) div n = (if y mod n = 0 then y div n - 1 else y div n)"
  proof (cases "y mod n = 0")
    case True
    then have "y - 1 = n * (y div n - 1) + (n - 1)"
      using mult_div_mod_eq [of n y] by (simp add: algebra_simps)
    then have "(y - 1) div n = y div n - 1"
      by (rule int_div_pos_eq) (use n in simp_all)
    then show ?thesis
      using True by simp
  next
    case False
    then have "y - 1 = n * (y div n) + (y mod n - 1)" "0 \<le> y mod n - 1" "y mod n - 1 < n"
      using mult_div_mod_eq [of n y] pos_mod_bound [OF n, of y] pos_mod_sign [OF n, of y] by auto
    then have "(y - 1) div n = y div n"
      by (rule int_div_pos_eq)
    then show ?thesis
      using False by simp
  qed
  then show ?thesis
    by simp
qed

lemma year_start_next: "year_start (y + 1) = year_start y + (if leap_year y then 366 else 365)"
proof -
  have "(4 :: int) dvd 100" "(100 :: int) dvd 400"
    by simp_all
  then have "400 dvd y \<Longrightarrow> 100 dvd y" "100 dvd y \<Longrightarrow> 4 dvd y"
    using dvd_trans by blast+
  then have leap: "(if leap_year y then 1 else 0) = (if 4 dvd y then 1 else 0) - (if 100 dvd y then 1 else 0) + (if 400 dvd y then 1 else (0 :: int))"
    by (auto simp: leap_year_def dvd_eq_mod_eq_0 [symmetric])
  have step: "y div n - (y - 1) div n = (if n dvd y then 1 else 0)" if "0 < n" for n
    using div_previous [OF that, of y] by (simp add: dvd_eq_mod_eq_0)
  have "year_start (y + 1) - year_start y =
      365 + (y div 4 - (y - 1) div 4) - (y div 100 - (y - 1) div 100) + (y div 400 - (y - 1) div 400)"
    by (simp add: year_start_def)
  then have "year_start (y + 1) - year_start y = 365 + (if leap_year y then 1 else 0)"
    unfolding leap using step [of 4] step [of 100] step [of 400] by simp
  then show ?thesis
    by (auto split: if_splits)
qed

lemma month_start_in_year:
  "0 \<le> m \<Longrightarrow> m < 12 \<Longrightarrow> month_start (12 * y + m) = year_start y + month_offset m + (if m \<ge> 2 \<and> leap_year y then 1 else 0)"
  by (simp add: month_start_def Let_def)

lemma month_start_next: "month_start (mon + 1) = month_start mon + month_length mon"
proof -
  define y m where "y = mon div 12" and "m = mon mod 12"
  have m: "0 \<le> m" "m < 12" "mon = 12 * y + m"
    by (simp_all add: m_def y_def)
  have len: "month_length (12 * y + m) = (if m = 1 then (if leap_year y then 29 else 28) else if m \<in> {3, 5, 8, 10} then 30 else 31)"
    using m by (simp add: month_length_def)
  show ?thesis
  proof (cases "m = 11")
    case True
    have "month_start (mon + 1) = month_start (12 * (y + 1) + 0)"
      using m True by (simp add: algebra_simps)
    then show ?thesis
      using month_start_in_year [of 0 "y + 1"] month_start_in_year [of 11 y] year_start_next [of y] len m True
      by (simp add: month_offset_def)
  next
    case False
    then have "m \<in> {0, 1, 2, 3, 4, 5, 6, 7, 8, 9, 10}"
      using m unfolding insert_iff empty_iff by presburger
    moreover have "month_start (12 * y + m + 1) = year_start y + month_offset (m + 1) + (if m + 1 \<ge> 2 \<and> leap_year y then 1 else 0)"
      using month_start_in_year [of "m + 1" y] m False by (simp add: add.assoc)
    ultimately show ?thesis
      unfolding m(3) len month_start_in_year [OF m(1,2)] by (auto simp: month_offset_def)
  qed
qed

lemma month_length_bounds: "28 \<le> month_length mon" "month_length mon \<le> 31"
  by (auto simp: month_length_def)

lemma month_start_less: "month_start mon < month_start (mon + 1)"
  using month_start_next [of mon] month_length_bounds(1) [of mon] by simp

text \<open>The month of a day, from a guess.\<close>

function month_from :: "int \<Rightarrow> int \<Rightarrow> int" where
  "month_from day mon =
     (if day < month_start mon then month_from day (mon - 1)
      else if month_start (mon + 1) \<le> day then month_from day (mon + 1)
      else mon)"
  by pat_completeness auto
termination
proof (relation "measure (\<lambda>(day, mon). nat (max (month_start mon - day) (day - month_start (mon + 1) + 1)))")
  fix day mon :: int
  assume "day < month_start mon"
  then show "((day, mon - 1), day, mon) \<in> measure (\<lambda>(day, mon). nat (max (month_start mon - day) (day - month_start (mon + 1) + 1)))"
    using month_start_less [of "mon - 1"] month_start_less [of mon] by simp
next
  fix day mon :: int
  assume "month_start (mon + 1) \<le> day"
  then show "((day, mon + 1), day, mon) \<in> measure (\<lambda>(day, mon). nat (max (month_start mon - day) (day - month_start (mon + 1) + 1)))"
    using month_start_less [of "mon + 1"] month_start_less [of mon] by (simp add: add.assoc)
qed simp

declare month_from.simps [simp del]

definition month_of :: "int \<Rightarrow> int" where
  "month_of day = month_from day (12 * 1970 + day * 4800 div 146097)"

text \<open>\<open>struct tm\<close>, without the members the scheduler does not use.\<close>

record calendar =
  tm_sec :: int
  tm_min :: int
  tm_hour :: int
  tm_mday :: int
  tm_mon :: int
  tm_year :: int
  tm_wday :: int

definition gmtime :: "int \<Rightarrow> calendar" where
  "gmtime t =
     (let day = t div 86400; r = t mod 86400; mon = month_of day
      in \<lparr>tm_sec = r mod 60, tm_min = r div 60 mod 60, tm_hour = r div 3600,
          tm_mday = day - month_start mon + 1, tm_mon = mon mod 12, tm_year = mon div 12 - 1900,
          tm_wday = (day + 4) mod 7\<rparr>)"

definition timegm :: "calendar \<Rightarrow> int" where
  "timegm tm =
     ((month_start (12 * (tm_year tm + 1900) + tm_mon tm) + tm_mday tm - 1) * 24 + tm_hour tm) * 3600
       + tm_min tm * 60 + tm_sec tm"

text \<open>\<open>timegm\<close> also brings the members into their ranges.\<close>

definition normalized :: "calendar \<Rightarrow> calendar" where
  "normalized tm = gmtime (timegm tm)"

definition seconds_in_ns :: int where
  "seconds_in_ns = 1000000000"

definition to_time_t :: "int \<Rightarrow> int" where
  "to_time_t tp = (if tp \<ge> 0 then tp div seconds_in_ns else - (- tp div seconds_in_ns))"

definition advance_sec :: "calendar \<Rightarrow> int \<Rightarrow> calendar" where
  "advance_sec tm sec = gmtime (timegm tm + sec)"

definition to_local_tm :: "int \<Rightarrow> int \<Rightarrow> calendar" where
  "to_local_tm tp tz = gmtime (to_time_t (tp + tz * 60 * seconds_in_ns))"

definition from_local_tm :: "calendar \<Rightarrow> int \<Rightarrow> int" where
  "from_local_tm tm tz = (timegm tm - tz * 60) * seconds_in_ns"

section \<open>The next run of a task\<close>

datatype task_type = Interval | Cron_fields

record 'f task =
  k_id :: nat
  k_type :: task_type
  k_interval :: int
  k_seconds :: "int list"
  k_minutes :: "int list"
  k_hours :: "int list"
  k_days :: "int list"
  k_months :: "int list"
  k_weekdays :: "int list"
  k_fn :: 'f
  k_last_run :: int
  k_next_run :: int
  k_active :: bool

definition in_field :: "int list \<Rightarrow> int \<Rightarrow> bool" where
  "in_field s v \<longleftrightarrow> s = [] \<or> v \<in> set s"

definition lower_bound :: "int list \<Rightarrow> int \<Rightarrow> int option" where
  "lower_bound s v = List.find (\<lambda>x. v \<le> x) s"

definition first_or :: "int \<Rightarrow> int list \<Rightarrow> int" where
  "first_or d s = (case s of [] \<Rightarrow> d | x # xs \<Rightarrow> x)"

definition reset_clock :: "'f task \<Rightarrow> calendar \<Rightarrow> calendar" where
  "reset_clock t tm = tm\<lparr>tm_hour := first_or 0 (k_hours t), tm_min := first_or 0 (k_minutes t), tm_sec := first_or 0 (k_seconds t)\<rparr>"

text \<open>One round of the loop: \<open>None\<close> when every field fits.\<close>

definition cron_step :: "'f task \<Rightarrow> calendar \<Rightarrow> calendar option" where
  "cron_step t tm =
     (if \<not> in_field (k_seconds t) (tm_sec tm) then
        Some (normalized (case lower_bound (k_seconds t) (tm_sec tm + 1) of
            None \<Rightarrow> tm\<lparr>tm_min := tm_min tm + 1, tm_sec := first_or 0 (k_seconds t)\<rparr>
          | Some v \<Rightarrow> tm\<lparr>tm_sec := v\<rparr>))
      else if \<not> in_field (k_minutes t) (tm_min tm) then
        Some (normalized ((case lower_bound (k_minutes t) (tm_min tm + 1) of
            None \<Rightarrow> tm\<lparr>tm_hour := tm_hour tm + 1, tm_min := first_or 0 (k_minutes t)\<rparr>
          | Some v \<Rightarrow> tm\<lparr>tm_min := v\<rparr>)\<lparr>tm_sec := first_or 0 (k_seconds t)\<rparr>))
      else if \<not> in_field (k_hours t) (tm_hour tm) then
        Some (normalized ((case lower_bound (k_hours t) (tm_hour tm + 1) of
            None \<Rightarrow> tm\<lparr>tm_mday := tm_mday tm + 1, tm_hour := first_or 0 (k_hours t)\<rparr>
          | Some v \<Rightarrow> tm\<lparr>tm_hour := v\<rparr>)\<lparr>tm_min := first_or 0 (k_minutes t), tm_sec := first_or 0 (k_seconds t)\<rparr>))
      else if \<not> in_field (k_days t) (tm_mday tm) then
        Some (normalized (reset_clock t (tm\<lparr>tm_mday := tm_mday tm + 1\<rparr>)))
      else if \<not> in_field (k_months t) (tm_mon tm + 1) then
        Some (normalized (reset_clock t ((case lower_bound (k_months t) (tm_mon tm + 2) of
            None \<Rightarrow> tm\<lparr>tm_year := tm_year tm + 1, tm_mon := first_or 0 (k_months t) - 1\<rparr>
          | Some v \<Rightarrow> tm\<lparr>tm_mon := v - 1\<rparr>)\<lparr>tm_mday := first_or 1 (k_days t)\<rparr>)))
      else if \<not> in_field (k_weekdays t) (tm_wday tm) then
        Some (normalized (reset_clock t (tm\<lparr>tm_mday := tm_mday tm + 1\<rparr>)))
      else None)"

fun cron_loop :: "nat \<Rightarrow> 'f task \<Rightarrow> calendar \<Rightarrow> calendar option" where
  "cron_loop 0 t tm = None"
| "cron_loop (Suc rounds) t tm = (case cron_step t tm of None \<Rightarrow> Some tm | Some tm' \<Rightarrow> cron_loop rounds t tm')"

definition max_rounds :: nat where
  "max_rounds = 400"

definition calc_next_run_time :: "int \<Rightarrow> 'f task \<Rightarrow> int \<Rightarrow> int" where
  "calc_next_run_time tz t from_time =
     (case k_type t of
        Interval \<Rightarrow> from_time + k_interval t * seconds_in_ns
      | Cron_fields \<Rightarrow>
          (case cron_loop max_rounds t (to_local_tm (from_time + seconds_in_ns) tz) of
             Some tm \<Rightarrow> from_local_tm tm tz
           | None \<Rightarrow> from_time + 24 * 365 * 3600 * seconds_in_ns))"

section \<open>The scheduler\<close>

record 'f scheduler =
  tasks :: "(nat \<times> 'f task) list"
  queue :: "nat list"
  next_id :: nat
  running :: bool
  tz_offset :: int
  test_mode :: bool

definition new_scheduler :: "int \<Rightarrow> bool \<Rightarrow> 'f scheduler" where
  "new_scheduler tz test = \<lparr>tasks = [], queue = [], next_id = 1, running = False, tz_offset = tz, test_mode = test\<rparr>"

text \<open>The queue holds the ids of its tasks; its top is one with the earliest next run.\<close>

definition rebuild_queue :: "'f scheduler \<Rightarrow> 'f scheduler" where
  "rebuild_queue s = s\<lparr>queue := map fst (filter (\<lambda>(i, t). k_active t) (tasks s))\<rparr>"

definition add_task ::
    "int \<Rightarrow> task_type \<Rightarrow> int \<Rightarrow> int list \<Rightarrow> int list \<Rightarrow> int list \<Rightarrow> int list \<Rightarrow> int list \<Rightarrow> int list \<Rightarrow> 'f \<Rightarrow>
     'f scheduler \<Rightarrow> nat \<times> 'f scheduler" where
  "add_task now ty interval seconds minutes hours days months weekdays fn s =
     (let i = next_id s;
          t = \<lparr>k_id = i, k_type = ty, k_interval = interval, k_seconds = seconds, k_minutes = minutes, k_hours = hours,
               k_days = days, k_months = months, k_weekdays = weekdays, k_fn = fn, k_last_run = 0, k_next_run = 0,
               k_active = True\<rparr>;
          t1 = t\<lparr>k_next_run := calc_next_run_time (tz_offset s) t now\<rparr>
      in (i, rebuild_queue (s\<lparr>next_id := i + 1, tasks := AList.update i t1 (tasks s)\<rparr>)))"

definition every_interval :: "int \<Rightarrow> int \<Rightarrow> 'f \<Rightarrow> 'f scheduler \<Rightarrow> nat \<times> 'f scheduler" where
  "every_interval now interval fn = add_task now Interval interval [] [] [] [] [] [] fn"

definition add_cron ::
    "int \<Rightarrow> int list \<Rightarrow> int list \<Rightarrow> int list \<Rightarrow> int list \<Rightarrow> int list \<Rightarrow> int list \<Rightarrow> 'f \<Rightarrow> 'f scheduler \<Rightarrow> nat \<times> 'f scheduler" where
  "add_cron now seconds minutes hours days months weekdays fn =
     add_task now Cron_fields 0 seconds minutes hours days months weekdays fn"

definition start_scheduler :: "'f scheduler \<Rightarrow> 'f scheduler" where
  "start_scheduler s = s\<lparr>running := True\<rparr>"

definition stop_scheduler :: "'f scheduler \<Rightarrow> 'f scheduler" where
  "stop_scheduler s = s\<lparr>running := False\<rparr>"

definition cancel :: "nat \<Rightarrow> 'f scheduler \<Rightarrow> bool \<times> 'f scheduler" where
  "cancel i s =
     (case map_of (tasks s) i of
        None \<Rightarrow> (False, s)
      | Some t \<Rightarrow> (True, rebuild_queue (s\<lparr>tasks := AList.update i (t\<lparr>k_active := False\<rparr>) (tasks s)\<rparr>)))"

definition join_ints :: "int list \<Rightarrow> string" where
  "join_ints s = (if s = [] then ''*'' else butlast (concat (map (\<lambda>v. show_int v @ '','') s)))"

definition describe_task :: "'f task \<Rightarrow> string" where
  "describe_task t =
     (case k_type t of
        Interval \<Rightarrow> ''every '' @ show_int (k_interval t) @ ''s''
      | Cron_fields \<Rightarrow> ''cron '' @ join_ints (k_seconds t) @ '' '' @ join_ints (k_minutes t) @ '' '' @
          join_ints (k_hours t) @ '' '' @ join_ints (k_days t) @ '' '' @ join_ints (k_months t) @ '' '' @
          join_ints (k_weekdays t))"

record task_info =
  i_id :: nat
  i_type :: string
  i_active :: bool
  i_schedule :: string
  i_last_run :: int
  i_next_run :: int

definition get_task_info :: "nat \<Rightarrow> 'f scheduler \<Rightarrow> task_info option" where
  "get_task_info i s =
     map_option (\<lambda>t. \<lparr>i_id = k_id t, i_type = (case k_type t of Interval \<Rightarrow> ''Interval'' | Cron_fields \<Rightarrow> ''Cron''),
       i_active = k_active t, i_schedule = describe_task t,
       i_last_run = (if k_last_run t \<noteq> 0 then to_time_t (k_last_run t) else 0),
       i_next_run = (if k_next_run t \<noteq> 0 then to_time_t (k_next_run t) else 0)\<rparr>) (map_of (tasks s) i)"

text \<open>\<open>runOnce\<close>: the functions to run, in the order of the table; what they throw is caught and dropped.\<close>

definition is_due :: "int \<Rightarrow> 'f task \<Rightarrow> bool" where
  "is_due now t \<longleftrightarrow> k_active t \<and> k_next_run t \<le> now"

definition reschedule :: "int \<Rightarrow> int \<Rightarrow> 'f task \<Rightarrow> 'f task" where
  "reschedule tz now t = t\<lparr>k_last_run := k_next_run t, k_next_run := calc_next_run_time tz t now\<rparr>"

definition run_once :: "int \<Rightarrow> 'f scheduler \<Rightarrow> 'f list \<times> 'f scheduler" where
  "run_once now s =
     (map (k_fn \<circ> snd) (filter (\<lambda>(i, t). is_due now t) (tasks s)),
      s\<lparr>tasks := map (\<lambda>(i, t). (i, if is_due now t then reschedule (tz_offset s) now t else t)) (tasks s)\<rparr>)"

definition trigger_check :: "int \<Rightarrow> 'f scheduler \<Rightarrow> 'f list \<times> 'f scheduler" where
  "trigger_check now s = (if \<not> test_mode s then ([], s) else run_once now s)"

section \<open>The worker thread\<close>

text \<open>
  \<open>schedulerThread\<close> and the threads that use the scheduler, as steps between the places where the lock is free.
  \<open>Sleeping\<close> is \<open>wait_for\<close> with its end; its predicate looks at \<open>running_\<close> only. The log lists the tasks that were
  started, with the time.
\<close>

datatype phase = At_top | Waiting | Sleeping int | Running nat int int | Ended

record 'f worker =
  w_sched :: "'f scheduler"
  w_now :: int
  w_phase :: phase
  w_log :: "(nat \<times> int) list"

definition next_of :: "'f scheduler \<Rightarrow> nat \<Rightarrow> int" where
  "next_of s i = (case map_of (tasks s) i of Some t \<Rightarrow> k_next_run t | None \<Rightarrow> 0)"

definition queue_top :: "'f scheduler \<Rightarrow> nat \<Rightarrow> bool" where
  "queue_top s i \<longleftrightarrow> i \<in> set (queue s) \<and> list_all (\<lambda>j. next_of s i \<le> next_of s j) (queue s)"

definition pop_queue :: "nat \<Rightarrow> 'f scheduler \<Rightarrow> 'f scheduler" where
  "pop_queue i s = s\<lparr>queue := remove1 i (queue s)\<rparr>"

definition finish_task :: "nat \<Rightarrow> int \<Rightarrow> int \<Rightarrow> 'f scheduler \<Rightarrow> 'f scheduler" where
  "finish_task i now prev_next s =
     (case map_of (tasks s) i of
        None \<Rightarrow> s
      | Some t \<Rightarrow> s\<lparr>tasks := AList.update i
            (t\<lparr>k_last_run := prev_next, k_next_run := calc_next_run_time (tz_offset s) t now\<rparr>) (tasks s),
          queue := queue s @ [i]\<rparr>)"

inductive worker_step :: "'f worker \<Rightarrow> 'f worker \<Rightarrow> bool" where
  clock: "w_now w \<le> n \<Longrightarrow> worker_step w (w\<lparr>w_now := n\<rparr>)"
| adds: "w_phase w \<noteq> At_top \<Longrightarrow>
    worker_step w (w\<lparr>w_sched := snd (add_task (w_now w) ty interval se mi ho da mo we fn (w_sched w))\<rparr>)"
| cancels: "w_phase w \<noteq> At_top \<Longrightarrow> worker_step w (w\<lparr>w_sched := snd (cancel i (w_sched w))\<rparr>)"
| stops: "w_phase w \<noteq> At_top \<Longrightarrow> worker_step w (w\<lparr>w_sched := stop_scheduler (w_sched w)\<rparr>)"
| leaves: "w_phase w = At_top \<Longrightarrow> \<not> running (w_sched w) \<Longrightarrow> worker_step w (w\<lparr>w_phase := Ended\<rparr>)"
| waits: "w_phase w = At_top \<Longrightarrow> running (w_sched w) \<Longrightarrow> queue (w_sched w) = [] \<Longrightarrow> worker_step w (w\<lparr>w_phase := Waiting\<rparr>)"
| wakes: "w_phase w = Waiting \<Longrightarrow> queue (w_sched w) \<noteq> [] \<or> \<not> running (w_sched w) \<Longrightarrow> worker_step w (w\<lparr>w_phase := At_top\<rparr>)"
| drops: "w_phase w = At_top \<Longrightarrow> running (w_sched w) \<Longrightarrow> queue_top (w_sched w) i \<Longrightarrow>
    map_of (tasks (w_sched w)) i = Some t \<Longrightarrow> \<not> k_active t \<Longrightarrow> worker_step w (w\<lparr>w_sched := pop_queue i (w_sched w)\<rparr>)"
| begins: "w_phase w = At_top \<Longrightarrow> running (w_sched w) \<Longrightarrow> queue_top (w_sched w) i \<Longrightarrow>
    map_of (tasks (w_sched w)) i = Some t \<Longrightarrow> is_due (w_now w) t \<Longrightarrow>
    worker_step w (w\<lparr>w_sched := pop_queue i (w_sched w), w_phase := Running i (w_now w) (k_next_run t),
      w_log := w_log w @ [(i, w_now w)]\<rparr>)"
| sleeps: "w_phase w = At_top \<Longrightarrow> running (w_sched w) \<Longrightarrow> queue_top (w_sched w) i \<Longrightarrow>
    map_of (tasks (w_sched w)) i = Some t \<Longrightarrow> k_active t \<Longrightarrow> w_now w < k_next_run t \<Longrightarrow>
    worker_step w (w\<lparr>w_phase := Sleeping (k_next_run t)\<rparr>)"
| rises: "w_phase w = Sleeping until \<Longrightarrow> until \<le> w_now w \<or> \<not> running (w_sched w) \<Longrightarrow> worker_step w (w\<lparr>w_phase := At_top\<rparr>)"
| finishes: "w_phase w = Running i started prev_next \<Longrightarrow>
    worker_step w (w\<lparr>w_sched := finish_task i started prev_next (w_sched w), w_phase := At_top\<rparr>)"

end
