(* ===== verification/Cron_Props.thy ===== *)
theory Cron_Props
  imports Cron
begin

text \<open>
  The next run of a cron task is its earliest match; what happens when there is none.
\<close>

section \<open>The calendar\<close>

lemma month_start_strict: "strict_mono month_start"
proof -
  have "month_start mon < month_start (mon + int (Suc n))" for mon n
  proof (induction n)
    case (Suc n)
    then show ?case
      using month_start_less [of "mon + int (Suc n)"] by (simp add: algebra_simps)
  qed (use month_start_less in simp)
  then have "month_start a < month_start b" if "a < b" for a b
    using that by (metis zless_iff_Suc_zadd)
  then show ?thesis
    by (rule strict_monoI)
qed

lemma month_from_range: "month_start (month_from day mon) \<le> day \<and> day < month_start (month_from day mon + 1)"
proof (induction day mon rule: month_from.induct)
  case (1 day mon)
  then show ?case
    by (subst (1 2) month_from.simps) auto
qed

lemma month_of_range: "month_start (month_of day) \<le> day" "day < month_start (month_of day + 1)"
  using month_from_range by (simp_all add: month_of_def)

lemma month_of_unique: "month_start mon \<le> day \<Longrightarrow> day < month_start (mon + 1) \<Longrightarrow> month_of day = mon"
  using month_of_range [of day] strict_mono_less [OF month_start_strict] by (metis linorder_not_less order_le_less_trans zle_add1_eq_le nle_le)

lemma month_of_mono: "a \<le> b \<Longrightarrow> month_of a \<le> month_of b"
  using month_of_range [of a] month_of_range [of b] strict_mono_less [OF month_start_strict, of "month_of a" "month_of b + 1"] by linarith

definition day_of_month :: "int \<Rightarrow> int" where
  "day_of_month day = day - month_start (month_of day) + 1"

lemma timegm_parts:
  assumes "tm_year tm = tm_year (gmtime x)" and "tm_mon tm = tm_mon (gmtime x)" and "tm_mday tm = tm_mday (gmtime x) + k"
  shows "timegm tm = 86400 * (x div 86400 + k) + 3600 * tm_hour tm + 60 * tm_min tm + tm_sec tm"
  using assms by (simp add: timegm_def gmtime_def Let_def algebra_simps)

lemma clock_split:
  fixes x :: int
  shows "x mod 86400 = 3600 * (x div 3600 mod 24) + x mod 3600" "x mod 86400 = 60 * (x div 60 mod 1440) + x mod 60"
    "x mod 3600 = 60 * (x div 60 mod 60) + x mod 60"
proof -
  show "x mod 86400 = 3600 * (x div 3600 mod 24) + x mod 3600"
    using zmod_zmult2_eq [of 24 x 3600] by simp
  show "x mod 86400 = 60 * (x div 60 mod 1440) + x mod 60"
    using zmod_zmult2_eq [of 1440 x 60] by simp
  show "x mod 3600 = 60 * (x div 60 mod 60) + x mod 60"
    using zmod_zmult2_eq [of 60 x 60] by simp
qed

lemma clock_fields:
  "tm_sec (gmtime x) = x mod 60" "tm_min (gmtime x) = x div 60 mod 60" "tm_hour (gmtime x) = x div 3600 mod 24"
proof -
  have "x mod 86400 mod 60 = x mod 60"
    by (rule mod_mod_cancel) simp
  then show "tm_sec (gmtime x) = x mod 60"
    by (simp add: gmtime_def Let_def)
  have "x mod 86400 div 60 = x div 60 mod 1440"
    by (rule int_div_pos_eq [OF clock_split(2)]) simp_all
  moreover have "x div 60 mod 1440 mod 60 = x div 60 mod 60"
    by (rule mod_mod_cancel) simp
  ultimately show "tm_min (gmtime x) = x div 60 mod 60"
    by (simp add: gmtime_def Let_def)
  have "x mod 86400 div 3600 = x div 3600 mod 24"
    by (rule int_div_pos_eq [OF clock_split(1)]) simp_all
  then show "tm_hour (gmtime x) = x div 3600 mod 24"
    by (simp add: gmtime_def Let_def)
qed

lemma date_fields:
  "tm_mday (gmtime x) = day_of_month (x div 86400)" "tm_mon (gmtime x) = month_of (x div 86400) mod 12"
  "tm_year (gmtime x) = month_of (x div 86400) div 12 - 1900" "tm_wday (gmtime x) = (x div 86400 + 4) mod 7"
  by (simp_all add: gmtime_def Let_def day_of_month_def)

lemma timegm_gmtime: "timegm (gmtime x) = x"
proof -
  have "86400 * (x div 86400) + 3600 * (x div 3600 mod 24) + 60 * (x div 60 mod 60) + x mod 60 = x"
    using clock_split(1,3) [of x] mult_div_mod_eq [of 86400 x] by linarith
  then show ?thesis
    using timegm_parts [of "gmtime x" x 0] by (simp add: clock_fields)
qed

section \<open>Matching\<close>

definition sec_ok where "sec_ok t s \<longleftrightarrow> in_field (k_seconds t) s"
definition min_ok where "min_ok t m \<longleftrightarrow> in_field (k_minutes t) m"
definition hour_ok where "hour_ok t h \<longleftrightarrow> in_field (k_hours t) h"

definition day_ok :: "'f task \<Rightarrow> int \<Rightarrow> bool" where
  "day_ok t d \<longleftrightarrow> in_field (k_days t) (day_of_month d) \<and> in_field (k_months t) (month_of d mod 12 + 1) \<and>
     in_field (k_weekdays t) ((d + 4) mod 7)"

text \<open>A second of local time fits a task if each of its fields does.\<close>

definition matches :: "'f task \<Rightarrow> int \<Rightarrow> bool" where
  "matches t y \<longleftrightarrow> (let c = gmtime y in
     in_field (k_seconds t) (tm_sec c) \<and> in_field (k_minutes t) (tm_min c) \<and> in_field (k_hours t) (tm_hour c) \<and>
     in_field (k_days t) (tm_mday c) \<and> in_field (k_months t) (tm_mon c + 1) \<and> in_field (k_weekdays t) (tm_wday c))"

lemma matches_split:
  "matches t y \<longleftrightarrow> sec_ok t (y mod 60) \<and> min_ok t (y div 60 mod 60) \<and> hour_ok t (y div 3600 mod 24) \<and> day_ok t (y div 86400)"
  by (auto simp: matches_def clock_fields date_fields sec_ok_def min_ok_def hour_ok_def day_ok_def)

lemma step_none: "cron_step t (gmtime y) = None \<longleftrightarrow> matches t y"
  by (simp add: cron_step_def matches_def Let_def)

definition wf_field :: "int \<Rightarrow> int \<Rightarrow> int list \<Rightarrow> bool" where
  "wf_field lo hi s \<longleftrightarrow> sorted_wrt (<) s \<and> set s \<subseteq> {lo..hi}"

definition wf_task :: "'f task \<Rightarrow> bool" where
  "wf_task t \<longleftrightarrow> k_type t = Cron_fields \<and> wf_field 0 59 (k_seconds t) \<and> wf_field 0 59 (k_minutes t) \<and>
     wf_field 0 23 (k_hours t) \<and> wf_field 1 31 (k_days t) \<and> wf_field 1 12 (k_months t) \<and> wf_field 0 6 (k_weekdays t)"

section \<open>Skipping to the next value of a field\<close>

lemma first_bounds:
  assumes "wf_field lo hi s" and "lo \<le> d" and "d \<le> hi" 
  shows "lo \<le> first_or d s" "first_or d s \<le> hi" "in_field s (first_or d s)"
    "d = lo \<Longrightarrow> v < first_or d s \<Longrightarrow> lo \<le> v \<Longrightarrow> \<not> in_field s v"
  using assms by (cases s; force simp: wf_field_def first_or_def in_field_def)+

lemma lower_bound_None: "lower_bound s v = None \<longleftrightarrow> (\<forall>x \<in> set s. x < v)"
  by (auto simp: lower_bound_def find_None_iff not_le)

lemma lower_bound_Some:
  assumes "sorted_wrt (<) s" and "lower_bound s v = Some w"
  shows "w \<in> set s" "v \<le> w" "x \<in> set s \<Longrightarrow> v \<le> x \<Longrightarrow> w \<le> x"
proof -
  obtain i where i: "i < length s" "v \<le> s ! i" "w = s ! i" "\<forall>j < i. \<not> v \<le> s ! j"
    using assms(2) by (auto simp: lower_bound_def find_Some_iff)
  then show "w \<in> set s" "v \<le> w"
    by auto
  show "w \<le> x" if x: "x \<in> set s" "v \<le> x"
  proof -
    obtain j where j: "j < length s" "s ! j = x"
      using x(1) by (auto simp: in_set_conv_nth)
    then have "i \<le> j"
      using i(4) x(2) by (meson not_less)
    then show ?thesis
      using assms(1) i(3) j by (cases "i = j") (auto simp: sorted_wrt_iff_nth_less intro: less_imp_le)
  qed
qed

text \<open>The number of the next unit whose value, counted from \<open>lo\<close> in cycles of \<open>n\<close>, is in the field.\<close>

definition next_value :: "int list \<Rightarrow> int \<Rightarrow> int \<Rightarrow> int \<Rightarrow> int" where
  "next_value s lo n p =
     (case lower_bound s (p mod n + lo + 1) of
        None \<Rightarrow> p - p mod n + n + (first_or lo s - lo)
      | Some v \<Rightarrow> p - p mod n + (v - lo))"

lemma next_value_skips:
  assumes wf: "wf_field lo (lo + n - 1) s" and n: "0 < n" and no: "\<not> in_field s (p mod n + lo)"
  shows "p < next_value s lo n p" "p \<le> q \<Longrightarrow> q < next_value s lo n p \<Longrightarrow> \<not> in_field s (q mod n + lo)"
    "in_field s (next_value s lo n p mod n + lo)"
proof -
  have s: "s \<noteq> []" "sorted_wrt (<) s" "set s \<subseteq> {lo..lo + n - 1}"
    using wf no by (auto simp: wf_field_def in_field_def)
  obtain f fs where fs: "s = f # fs"
    using s(1) by (cases s) auto
  have first: "first_or lo s = f" "\<forall>x \<in> set s. f \<le> x" "lo \<le> f" "f < lo + n"
    using s by (auto simp: fs first_or_def)
  have r: "0 \<le> p mod n" "p mod n < n"
    using n by simp_all
  have mod_near: "q mod n = q - (p - p mod n)" if "p - p mod n \<le> q" "q < p - p mod n + n" for q
  proof -
    have "q = n * (p div n) + (q - (p - p mod n))"
      by (simp add: minus_mod_eq_mult_div)
    then show ?thesis
      using that by (metis diff_ge_0_iff_ge diff_less_eq add.commute int_mod_pos_eq)
  qed
  have mod_far: "q mod n = q - (p - p mod n + n)" if "p - p mod n + n \<le> q" "q < p - p mod n + n + n" for q
    using mod_near [of "q - n"] that n by simp
  show "p < next_value s lo n p"
  proof (cases "lower_bound s (p mod n + lo + 1)")
    case None
    then have "next_value s lo n p = p - p mod n + n + (f - lo)"
      by (simp add: next_value_def first(1))
    then show ?thesis
      using r(2) first(3) by linarith
  next
    case (Some v)
    then show ?thesis
      using lower_bound_Some(2) [OF s(2) Some] by (simp add: next_value_def)
  qed
  show "\<not> in_field s (q mod n + lo)" if q: "p \<le> q" "q < next_value s lo n p"
  proof
    assume "in_field s (q mod n + lo)"
    then have mem: "q mod n + lo \<in> set s"
      using s(1) by (simp add: in_field_def)
    have "q \<noteq> p"
      using no \<open>in_field s (q mod n + lo)\<close> by auto
    show False
    proof (cases "lower_bound s (p mod n + lo + 1)")
      case None
      then have below: "\<forall>x \<in> set s. x < p mod n + lo + 1"
        by (simp add: lower_bound_None)
      show False
      proof (cases "q < p - p mod n + n")
        case True
        then have "q mod n = q - (p - p mod n)"
          using mod_near [of q] q(1) r by linarith
        moreover have "q mod n + lo < p mod n + lo + 1"
          using mem below by blast
        ultimately show False
          using q(1) \<open>q \<noteq> p\<close> by linarith
      next
        case False
        have upto: "q < p - p mod n + n + (f - lo)"
          using q(2) None by (simp add: next_value_def first(1))
        then have "q mod n = q - (p - p mod n + n)"
          using mod_far [of q] False first(4) by linarith
        moreover have "f \<le> q mod n + lo"
          using mem first(2) by blast
        ultimately show False
          using upto by linarith
      qed
    next
      case (Some v)
      have v: "v \<in> set s"
        by (rule lower_bound_Some(1) [OF s(2) Some])
      then have v_range: "lo \<le> v" "v \<le> lo + n - 1"
        using s(3) by auto
      have upto: "q < p - p mod n + (v - lo)"
        using q(2) Some by (simp add: next_value_def)
      then have "q mod n = q - (p - p mod n)"
        using mod_near [of q] q(1) r v_range by linarith
      moreover have "p mod n + lo + 1 \<le> q mod n + lo \<Longrightarrow> v \<le> q mod n + lo"
        using lower_bound_Some(3) [OF s(2) Some mem] .
      ultimately show False
        using upto q(1) \<open>q \<noteq> p\<close> by linarith
    qed
  qed
  show "in_field s (next_value s lo n p mod n + lo)"
  proof (cases "lower_bound s (p mod n + lo + 1)")
    case None
    then show ?thesis
      using mod_far [of "next_value s lo n p"] first fs by (simp add: next_value_def in_field_def)
  next
    case (Some v)
    have v: "v \<in> set s"
      by (rule lower_bound_Some(1) [OF s(2) Some])
    then have "lo \<le> v" "v \<le> lo + n - 1"
      using s(3) by auto
    then have "p - p mod n \<le> p - p mod n + (v - lo)" "p - p mod n + (v - lo) < p - p mod n + n"
      by linarith+
    from mod_near [OF this] show ?thesis
      using Some v by (simp add: next_value_def in_field_def)
  qed
qed

section \<open>A step skips no match\<close>

definition jumps :: "'f task \<Rightarrow> int \<Rightarrow> int \<Rightarrow> bool" where
  "jumps t x x' \<longleftrightarrow> x < x' \<and> (\<forall>y. x \<le> y \<and> y < x' \<longrightarrow> \<not> matches t y)"

text \<open>A jump to a later unit and a place in it: no unit before fits, and no place before in the unit.\<close>

lemma jump_to_unit:
  assumes "0 < u" and "0 \<le> r" and "r < u" and "x div u < q"
    and units: "\<And>p. x div u \<le> p \<Longrightarrow> p < q \<Longrightarrow> \<not> P p" and places: "\<And>j. 0 \<le> j \<Longrightarrow> j < r \<Longrightarrow> \<not> R j"
    and split: "\<And>y. matches t y \<Longrightarrow> P (y div u) \<and> R (y mod u)"
  shows "jumps t x (u * q + r)"
proof -
  have div: "u * (y div u) + y mod u = y" "0 \<le> y mod u" "y mod u < u" for y
    using assms(1) by simp_all
  have "x < u * q"
  proof -
    have "u * (x div u + 1) \<le> u * q"
      using assms(1,4) by (intro mult_left_mono) auto
    then show ?thesis
      using div [of x] unfolding distrib_left mult_1_right by linarith
  qed
  moreover have "\<not> matches t y" if y: "x \<le> y" "y < u * q + r" for y
  proof -
    have "x div u \<le> y div u"
      using y(1) assms(1) by (simp add: zdiv_mono1)
    moreover have "y div u \<le> q"
    proof (rule ccontr)
      assume "\<not> y div u \<le> q"
      then have "u * (q + 1) \<le> u * (y div u)"
        using assms(1) by (intro mult_left_mono) auto
      then show False
        using div [of y] y(2) assms(3) unfolding distrib_left mult_1_right by linarith
    qed
    ultimately consider "\<not> P (y div u)" | "y div u = q"
      using units by fastforce
    then show ?thesis
    proof cases
      case 2
      then have "\<not> R (y mod u)"
        using div [of y] y(2) by (intro places) auto
      then show ?thesis
        using split by blast
    qed (use split in blast)
  qed
  ultimately show ?thesis
    using assms(2) by (auto simp: jumps_def)
qed

lemma x_parts: "x = 86400 * (x div 86400) + 3600 * (x div 3600 mod 24) + 60 * (x div 60 mod 60) + x mod 60" for x :: int
  using clock_split(1,3) [of x] mult_div_mod_eq [of 86400 x] by linarith

lemma unit_parts:
  fixes x :: int
  shows "60 * (x div 60) = 86400 * (x div 86400) + 3600 * (x div 3600 mod 24) + 60 * (x div 60 mod 60)"
    "3600 * (x div 3600) = 86400 * (x div 86400) + 3600 * (x div 3600 mod 24)"
  using clock_split(1,3) [of x] mult_div_mod_eq [of 86400 x] mult_div_mod_eq [of 3600 x] mult_div_mod_eq [of 60 x] by linarith+

lemma place_parts:
  fixes y :: int
  shows "y mod 3600 div 60 = y div 60 mod 60" "y mod 3600 mod 60 = y mod 60"
    "y mod 86400 div 3600 = y div 3600 mod 24" "y mod 86400 div 60 mod 60 = y div 60 mod 60" "y mod 86400 mod 60 = y mod 60"
proof -
  show "y mod 3600 div 60 = y div 60 mod 60"
    by (rule int_div_pos_eq [OF clock_split(3)]) simp_all
  show "y mod 86400 div 3600 = y div 3600 mod 24"
    by (rule int_div_pos_eq [OF clock_split(1)]) simp_all
  have "y mod 86400 div 60 = y div 60 mod 1440"
    by (rule int_div_pos_eq [OF clock_split(2)]) simp_all
  moreover have "y div 60 mod 1440 mod 60 = y div 60 mod 60"
    by (rule mod_mod_cancel) simp
  ultimately show "y mod 86400 div 60 mod 60 = y div 60 mod 60"
    by simp
  show "y mod 3600 mod 60 = y mod 60" "y mod 86400 mod 60 = y mod 60"
    by (rule mod_mod_cancel, simp)+
qed

lemma early_in_minute:
  assumes "wf_task t" and "0 \<le> j" and "j < first_or 0 (k_seconds t)"
  shows "\<not> sec_ok t j"
  using first_bounds(4) [of 0 59 "k_seconds t" 0 j] assms by (simp add: wf_task_def sec_ok_def)

lemma early_in_hour:
  assumes "wf_task t" and "0 \<le> j" and "j < 60 * first_or 0 (k_minutes t) + first_or 0 (k_seconds t)"
  shows "\<not> (min_ok t (j div 60) \<and> sec_ok t (j mod 60))"
proof
  assume ok: "min_ok t (j div 60) \<and> sec_ok t (j mod 60)"
  then have "first_or 0 (k_seconds t) \<le> j mod 60"
    using early_in_minute [OF assms(1), of "j mod 60"] by force
  moreover have "first_or 0 (k_minutes t) \<le> j div 60"
    using first_bounds(4) [of 0 59 "k_minutes t" 0 "j div 60"] assms(1,2) ok
    by (force simp: wf_task_def min_ok_def pos_imp_zdiv_nonneg_iff)
  ultimately show False
    using assms(3) mult_div_mod_eq [of 60 j] by linarith
qed

definition first_clock :: "'f task \<Rightarrow> int" where
  "first_clock t = 3600 * first_or 0 (k_hours t) + 60 * first_or 0 (k_minutes t) + first_or 0 (k_seconds t)"

lemma early_in_day:
  assumes "wf_task t" and "0 \<le> j" and "j < first_clock t"
  shows "\<not> (hour_ok t (j div 3600) \<and> min_ok t (j div 60 mod 60) \<and> sec_ok t (j mod 60))"
proof
  assume ok: "hour_ok t (j div 3600) \<and> min_ok t (j div 60 mod 60) \<and> sec_ok t (j mod 60)"
  then have "60 * first_or 0 (k_minutes t) + first_or 0 (k_seconds t) \<le> j mod 3600"
    using early_in_hour [OF assms(1), of "j mod 3600"] by (force simp: place_parts)
  moreover have "first_or 0 (k_hours t) \<le> j div 3600"
    using first_bounds(4) [of 0 23 "k_hours t" 0 "j div 3600"] assms(1,2) ok
    by (force simp: wf_task_def hour_ok_def pos_imp_zdiv_nonneg_iff)
  ultimately show False
    using assms(3) mult_div_mod_eq [of 3600 j] unfolding first_clock_def by linarith
qed

lemma first_ranges:
  assumes "wf_task t"
  shows "0 \<le> first_or 0 (k_seconds t)" "first_or 0 (k_seconds t) \<le> 59" "0 \<le> first_or 0 (k_minutes t)"
    "first_or 0 (k_minutes t) \<le> 59" "0 \<le> first_or 0 (k_hours t)" "first_or 0 (k_hours t) \<le> 23"
    "1 \<le> first_or 1 (k_days t)"
  using assms first_bounds(1,2) [of 0 59 "k_seconds t" 0] first_bounds(1,2) [of 0 59 "k_minutes t" 0]
    first_bounds(1,2) [of 0 23 "k_hours t" 0] first_bounds(1) [of 1 31 "k_days t" 1]
  by (simp_all add: wf_task_def)

lemma second_jump:
  assumes "wf_task t" and "\<not> sec_ok t (x mod 60)"
  shows "jumps t x (next_value (k_seconds t) 0 60 x)"
proof -
  have "wf_field 0 (0 + 60 - 1) (k_seconds t)" "\<not> in_field (k_seconds t) (x mod 60 + 0)"
    using assms by (simp_all add: wf_task_def sec_ok_def)
  note skips = next_value_skips [OF this(1) _ this(2)]
  have "jumps t x (1 * next_value (k_seconds t) 0 60 x + 0)"
  proof (rule jump_to_unit [where P = "\<lambda>p. sec_ok t (p mod 60)" and R = "\<lambda>j. True"])
    show "x div 1 < next_value (k_seconds t) 0 60 x"
      using skips(1) by simp
    show "\<not> sec_ok t (p mod 60)" if "x div 1 \<le> p" "p < next_value (k_seconds t) 0 60 x" for p
      using skips(2) [of p] that by (simp add: sec_ok_def)
  qed (simp_all add: matches_split)
  then show ?thesis
    by simp
qed

lemma minute_jump:
  assumes "wf_task t" and "\<not> min_ok t (x div 60 mod 60)"
  shows "jumps t x (60 * next_value (k_minutes t) 0 60 (x div 60) + first_or 0 (k_seconds t))"
proof (rule jump_to_unit [where P = "\<lambda>p. min_ok t (p mod 60)" and R = "sec_ok t"])
  have "wf_field 0 (0 + 60 - 1) (k_minutes t)" "\<not> in_field (k_minutes t) (x div 60 mod 60 + 0)"
    using assms by (simp_all add: wf_task_def min_ok_def)
  note skips = next_value_skips [OF this(1) _ this(2)]
  show "x div 60 < next_value (k_minutes t) 0 60 (x div 60)"
    using skips(1) by simp
  show "\<not> min_ok t (p mod 60)" if "x div 60 \<le> p" "p < next_value (k_minutes t) 0 60 (x div 60)" for p
    using skips(2) [of p] that by (simp add: min_ok_def)
  show "\<not> sec_ok t j" if "0 \<le> j" "j < first_or 0 (k_seconds t)" for j
    by (rule early_in_minute [OF assms(1) that])
  show "0 \<le> first_or 0 (k_seconds t)" "first_or 0 (k_seconds t) < 60"
    using first_ranges(1,2) [OF assms(1)] by simp_all
qed (simp_all add: matches_split)

lemma hour_jump:
  assumes "wf_task t" and "\<not> hour_ok t (x div 3600 mod 24)"
  shows "jumps t x (3600 * next_value (k_hours t) 0 24 (x div 3600) + (60 * first_or 0 (k_minutes t) + first_or 0 (k_seconds t)))"
proof (rule jump_to_unit [where P = "\<lambda>p. hour_ok t (p mod 24)" and R = "\<lambda>j. min_ok t (j div 60) \<and> sec_ok t (j mod 60)"])
  have "wf_field 0 (0 + 24 - 1) (k_hours t)" "\<not> in_field (k_hours t) (x div 3600 mod 24 + 0)"
    using assms by (simp_all add: wf_task_def hour_ok_def)
  note skips = next_value_skips [OF this(1) _ this(2)]
  show "x div 3600 < next_value (k_hours t) 0 24 (x div 3600)"
    using skips(1) by simp
  show "\<not> hour_ok t (p mod 24)" if "x div 3600 \<le> p" "p < next_value (k_hours t) 0 24 (x div 3600)" for p
    using skips(2) [of p] that by (simp add: hour_ok_def)
  show "\<not> (min_ok t (j div 60) \<and> sec_ok t (j mod 60))"
    if "0 \<le> j" "j < 60 * first_or 0 (k_minutes t) + first_or 0 (k_seconds t)" for j
    by (rule early_in_hour [OF assms(1) that])
  show "0 \<le> 60 * first_or 0 (k_minutes t) + first_or 0 (k_seconds t)"
    "60 * first_or 0 (k_minutes t) + first_or 0 (k_seconds t) < 3600"
    using first_ranges [OF assms(1)] by linarith+
qed (simp_all add: matches_split place_parts(1,2))

lemma day_jump:
  assumes "wf_task t" and "x div 86400 < q" and "\<And>p. x div 86400 \<le> p \<Longrightarrow> p < q \<Longrightarrow> \<not> day_ok t p"
  shows "jumps t x (86400 * q + first_clock t)"
proof (rule jump_to_unit [where P = "day_ok t" and
      R = "\<lambda>j. hour_ok t (j div 3600) \<and> min_ok t (j div 60 mod 60) \<and> sec_ok t (j mod 60)"])
  show "0 \<le> first_clock t" "first_clock t < 86400"
    using first_ranges [OF assms(1)] unfolding first_clock_def by linarith+
  show "day_ok t (y div 86400) \<and> hour_ok t (y mod 86400 div 3600) \<and> min_ok t (y mod 86400 div 60 mod 60) \<and>
      sec_ok t (y mod 86400 mod 60)" if "matches t y" for y
    using that by (simp only: matches_split place_parts simp_thms)
qed (use assms early_in_day [OF assms(1)] in simp_all)

lemma month_jump:
  assumes "wf_task t" and "\<not> in_field (k_months t) (month_of (x div 86400) mod 12 + 1)"
  shows "jumps t x (86400 * (month_start (next_value (k_months t) 1 12 (month_of (x div 86400))) + first_or 1 (k_days t) - 1) + first_clock t)"
proof (rule day_jump [OF assms(1)])
  let ?M = "next_value (k_months t) 1 12 (month_of (x div 86400))"
  have wf: "wf_field 1 (1 + 12 - 1) (k_months t)" "(0 :: int) < 12"
    using assms(1) by (simp_all add: wf_task_def)
  note skips = next_value_skips [OF wf assms(2)]
  have "month_start (month_of (x div 86400) + 1) \<le> month_start ?M"
    using skips(1) strict_mono_less_eq [OF month_start_strict] by simp
  then show "x div 86400 < month_start ?M + first_or 1 (k_days t) - 1"
    using month_of_range(2) [of "x div 86400"] first_ranges(7) [OF assms(1)] by linarith
  show "\<not> day_ok t p" if p: "x div 86400 \<le> p" "p < month_start ?M + first_or 1 (k_days t) - 1" for p
  proof (cases "month_of p < ?M")
    case True
    then have "\<not> in_field (k_months t) (month_of p mod 12 + 1)"
      using skips(2) [OF month_of_mono [OF p(1)]] by simp
    then show ?thesis
      by (simp add: day_ok_def)
  next
    case False
    then have "month_start ?M \<le> month_start (month_of p)"
      using strict_mono_less_eq [OF month_start_strict] by simp
    then have "day_of_month p < first_or 1 (k_days t)" "1 \<le> day_of_month p"
      using p(2) month_of_range(1) [of p] by (simp_all add: day_of_month_def)
    then have "\<not> in_field (k_days t) (day_of_month p)"
      using first_bounds(4) [of 1 31 "k_days t" 1] assms(1) by (simp add: wf_task_def)
    then show ?thesis
      by (simp add: day_ok_def)
  qed
qed

text \<open>What a step sets the calendar to.\<close>

lemma timegm_day:
  assumes "tm_year tm = tm_year (gmtime x)" and "tm_mon tm = tm_mon (gmtime x)" and "tm_mday tm = tm_mday (gmtime x) + 1"
  shows "timegm (reset_clock t tm) = 86400 * (x div 86400 + 1) + first_clock t"
  using timegm_parts [of "reset_clock t tm" x 1] assms by (simp add: reset_clock_def first_clock_def)

lemma timegm_month:
  assumes "12 * (tm_year tm + 1900) + tm_mon tm = mon" and "tm_mday tm = first_or 1 (k_days t)"
  shows "timegm (reset_clock t tm) = 86400 * (month_start mon + first_or 1 (k_days t) - 1) + first_clock t"
  using assms by (simp add: timegm_def reset_clock_def first_clock_def algebra_simps)

text \<open>Where a step goes.\<close>

definition jump_target :: "'f task \<Rightarrow> int \<Rightarrow> int" where
  "jump_target t x =
     (if \<not> sec_ok t (x mod 60) then next_value (k_seconds t) 0 60 x
      else if \<not> min_ok t (x div 60 mod 60)
      then 60 * next_value (k_minutes t) 0 60 (x div 60) + first_or 0 (k_seconds t)
      else if \<not> hour_ok t (x div 3600 mod 24)
      then 3600 * next_value (k_hours t) 0 24 (x div 3600) + (60 * first_or 0 (k_minutes t) + first_or 0 (k_seconds t))
      else if in_field (k_days t) (day_of_month (x div 86400)) \<and> \<not> in_field (k_months t) (month_of (x div 86400) mod 12 + 1)
      then 86400 * (month_start (next_value (k_months t) 1 12 (month_of (x div 86400))) + first_or 1 (k_days t) - 1) + first_clock t
      else 86400 * (x div 86400 + 1) + first_clock t)"

lemma step_jumps:
  assumes wf: "wf_task t" and step: "cron_step t (gmtime x) = Some tm"
  shows "tm = gmtime (jump_target t x) \<and> jumps t x (jump_target t x)"
proof -
  note fields = clock_fields date_fields
  consider (second) "\<not> sec_ok t (x mod 60)"
    | (minute) "sec_ok t (x mod 60)" "\<not> min_ok t (x div 60 mod 60)"
    | (hour) "sec_ok t (x mod 60)" "min_ok t (x div 60 mod 60)" "\<not> hour_ok t (x div 3600 mod 24)"
    | (day) "sec_ok t (x mod 60)" "min_ok t (x div 60 mod 60)" "hour_ok t (x div 3600 mod 24)"
        "\<not> in_field (k_days t) (tm_mday (gmtime x))"
    | (month) "sec_ok t (x mod 60)" "min_ok t (x div 60 mod 60)" "hour_ok t (x div 3600 mod 24)"
        "in_field (k_days t) (tm_mday (gmtime x))" "\<not> in_field (k_months t) (month_of (x div 86400) mod 12 + 1)"
    | (weekday) "sec_ok t (x mod 60)" "min_ok t (x div 60 mod 60)" "hour_ok t (x div 3600 mod 24)"
        "in_field (k_days t) (tm_mday (gmtime x))" "in_field (k_months t) (month_of (x div 86400) mod 12 + 1)"
        "\<not> in_field (k_weekdays t) (tm_wday (gmtime x))"
    using step by (force simp: cron_step_def sec_ok_def min_ok_def hour_ok_def fields)
  then show ?thesis
  proof cases
    case second
    then have "timegm (case lower_bound (k_seconds t) (tm_sec (gmtime x) + 1) of
        None \<Rightarrow> (gmtime x)\<lparr>tm_min := tm_min (gmtime x) + 1, tm_sec := first_or 0 (k_seconds t)\<rparr>
      | Some v \<Rightarrow> (gmtime x)\<lparr>tm_sec := v\<rparr>) = next_value (k_seconds t) 0 60 x"
      using x_parts [of x]
      by (auto simp: next_value_def clock_fields timegm_parts [where x = x and k = 0] split: option.split)
    then show ?thesis
      using second second_jump [OF wf second] step by (auto simp: jump_target_def cron_step_def sec_ok_def clock_fields normalized_def)
  next
    case minute
    then have "timegm ((case lower_bound (k_minutes t) (tm_min (gmtime x) + 1) of
        None \<Rightarrow> (gmtime x)\<lparr>tm_hour := tm_hour (gmtime x) + 1, tm_min := first_or 0 (k_minutes t)\<rparr>
      | Some v \<Rightarrow> (gmtime x)\<lparr>tm_min := v\<rparr>)\<lparr>tm_sec := first_or 0 (k_seconds t)\<rparr>) =
      60 * next_value (k_minutes t) 0 60 (x div 60) + first_or 0 (k_seconds t)"
      using unit_parts(1) [of x]
      by (auto simp: next_value_def clock_fields timegm_parts [where x = x and k = 0] split: option.split)
    then show ?thesis
      using minute minute_jump [OF wf minute(2)] step
      by (auto simp: jump_target_def cron_step_def sec_ok_def min_ok_def clock_fields normalized_def)
  next
    case hour
    then have "timegm ((case lower_bound (k_hours t) (tm_hour (gmtime x) + 1) of
        None \<Rightarrow> (gmtime x)\<lparr>tm_mday := tm_mday (gmtime x) + 1, tm_hour := first_or 0 (k_hours t)\<rparr>
      | Some v \<Rightarrow> (gmtime x)\<lparr>tm_hour := v\<rparr>)\<lparr>tm_min := first_or 0 (k_minutes t), tm_sec := first_or 0 (k_seconds t)\<rparr>) =
      3600 * next_value (k_hours t) 0 24 (x div 3600) + (60 * first_or 0 (k_minutes t) + first_or 0 (k_seconds t))"
      using unit_parts(2) [of x]
      by (auto simp: next_value_def clock_fields timegm_parts [where x = x and k = 0] timegm_parts [where x = x and k = 1]
          split: option.split)
    then show ?thesis
      using hour hour_jump [OF wf hour(3)] step
      by (auto simp: jump_target_def cron_step_def sec_ok_def min_ok_def hour_ok_def clock_fields normalized_def)
  next
    case day
    have "jumps t x (86400 * (x div 86400 + 1) + first_clock t)"
      using day(4) by (intro day_jump [OF wf]) (auto simp: day_ok_def date_fields dest!: order_antisym)
    then show ?thesis
      using day step timegm_day [of "(gmtime x)\<lparr>tm_mday := tm_mday (gmtime x) + 1\<rparr>" x t]
      by (auto simp: jump_target_def cron_step_def sec_ok_def min_ok_def hour_ok_def clock_fields date_fields normalized_def)
  next
    case month
    let ?tm = "(case lower_bound (k_months t) (tm_mon (gmtime x) + 2) of
        None \<Rightarrow> (gmtime x)\<lparr>tm_year := tm_year (gmtime x) + 1, tm_mon := first_or 0 (k_months t) - 1\<rparr>
      | Some v \<Rightarrow> (gmtime x)\<lparr>tm_mon := v - 1\<rparr>)\<lparr>tm_mday := first_or 1 (k_days t)\<rparr>"
    have "first_or 0 (k_months t) = first_or 1 (k_months t)"
      using month(5) by (auto simp: first_or_def in_field_def split: list.split)
    then have "12 * (tm_year ?tm + 1900) + tm_mon ?tm = next_value (k_months t) 1 12 (month_of (x div 86400))"
    proof (cases "lower_bound (k_months t) (tm_mon (gmtime x) + 2)")
      case None
      then have "next_value (k_months t) 1 12 (month_of (x div 86400)) =
          month_of (x div 86400) - month_of (x div 86400) mod 12 + 12 + (first_or 1 (k_months t) - 1)"
        by (simp add: next_value_def date_fields add.assoc)
      then show ?thesis
        using None \<open>first_or 0 (k_months t) = first_or 1 (k_months t)\<close>
        by (simp add: date_fields minus_mod_eq_mult_div algebra_simps)
    next
      case (Some v)
      then have "next_value (k_months t) 1 12 (month_of (x div 86400)) =
          month_of (x div 86400) - month_of (x div 86400) mod 12 + (v - 1)"
        by (simp add: next_value_def date_fields add.assoc)
      then show ?thesis
        using Some by (simp add: date_fields minus_mod_eq_mult_div algebra_simps)
    qed
    then have "timegm (reset_clock t ?tm) = 86400 * (month_start (next_value (k_months t) 1 12 (month_of (x div 86400))) + first_or 1 (k_days t) - 1) + first_clock t"
      by (rule timegm_month) simp
    then show ?thesis
      using month month_jump [OF wf month(5)] step
      by (auto simp: jump_target_def cron_step_def sec_ok_def min_ok_def hour_ok_def clock_fields date_fields normalized_def)
  next
    case weekday
    have "jumps t x (86400 * (x div 86400 + 1) + first_clock t)"
      using weekday(6) by (intro day_jump [OF wf]) (auto simp: day_ok_def date_fields dest!: order_antisym)
    then show ?thesis
      using weekday step timegm_day [of "(gmtime x)\<lparr>tm_mday := tm_mday (gmtime x) + 1\<rparr>" x t]
      by (auto simp: jump_target_def cron_step_def sec_ok_def min_ok_def hour_ok_def clock_fields date_fields normalized_def)
  qed
qed

lemma loop_finds:
  assumes "wf_task t" and "cron_loop rounds t (gmtime x) = Some tm"
  shows "\<exists>y. tm = gmtime y \<and> matches t y \<and> x \<le> y \<and> (\<forall>z. x \<le> z \<and> z < y \<longrightarrow> \<not> matches t z)"
  using assms(2)
proof (induction rounds arbitrary: x)
  case (Suc rounds)
  show ?case
  proof (cases "cron_step t (gmtime x)")
    case None
    then show ?thesis
      using Suc.prems step_none [of t x] by auto
  next
    case (Some tm')
    then obtain x' where x': "tm' = gmtime x'" "jumps t x x'"
      using step_jumps [OF assms(1)] by blast
    then obtain y where "tm = gmtime y" "matches t y" "x' \<le> y" "\<forall>z. x' \<le> z \<and> z < y \<longrightarrow> \<not> matches t z"
      using Suc.IH [of x'] Suc.prems Some by auto
    moreover have "x \<le> y"
      using x'(2) \<open>x' \<le> y\<close> by (simp add: jumps_def)
    moreover have "\<not> matches t z" if "x \<le> z" "z < y" for z
      using x'(2) \<open>\<forall>z. x' \<le> z \<and> z < y \<longrightarrow> \<not> matches t z\<close> that
      by (cases "z < x'") (auto simp: jumps_def)
    ultimately show ?thesis
      by blast
  qed
qed simp

section \<open>The next run\<close>

text \<open>The first second of local time after a time point.\<close>

definition local_start :: "int \<Rightarrow> int \<Rightarrow> int" where
  "local_start from_time tz = from_time div seconds_in_ns + 1 + tz * 60"

lemma local_tm_start:
  assumes "0 \<le> local_start from_time tz"
  shows "to_local_tm (from_time + seconds_in_ns) tz = gmtime (local_start from_time tz)"
proof -
  let ?tp = "from_time + seconds_in_ns + tz * 60 * seconds_in_ns"
  have "?tp div seconds_in_ns = local_start from_time tz"
    by (simp add: local_start_def seconds_in_ns_def)
  moreover have "0 \<le> ?tp"
    using assms calculation by (simp add: seconds_in_ns_def pos_imp_zdiv_nonneg_iff)
  ultimately show ?thesis
    by (simp add: to_local_tm_def to_time_t_def)
qed

lemma after_start: "s * seconds_in_ns > from_time \<longleftrightarrow> local_start from_time tz \<le> s + tz * 60"
proof -
  have "from_time = seconds_in_ns * (from_time div seconds_in_ns) + from_time mod seconds_in_ns"
    "0 \<le> from_time mod seconds_in_ns" "from_time mod seconds_in_ns < seconds_in_ns"
    by (simp_all add: seconds_in_ns_def)
  then show ?thesis
    unfolding local_start_def seconds_in_ns_def by linarith
qed

text \<open>A time point is scheduled if it is a whole second whose local time fits the task.\<close>

definition scheduled :: "int \<Rightarrow> 'f task \<Rightarrow> int \<Rightarrow> bool" where
  "scheduled tz t tp \<longleftrightarrow> (\<exists>s. tp = s * seconds_in_ns \<and> matches t (s + tz * 60))"

definition yearly_fallback :: "int \<Rightarrow> int" where
  "yearly_fallback from_time = from_time + 24 * 365 * 3600 * seconds_in_ns"

lemma next_run_found:
  assumes "wf_task t" and "0 \<le> local_start from_time tz"
    and "cron_loop max_rounds t (to_local_tm (from_time + seconds_in_ns) tz) = Some tm"
  shows "scheduled tz t (calc_next_run_time tz t from_time)" "from_time < calc_next_run_time tz t from_time"
    "from_time < tp \<Longrightarrow> tp < calc_next_run_time tz t from_time \<Longrightarrow> \<not> scheduled tz t tp"
proof -
  obtain y where y: "tm = gmtime y" "matches t y" "local_start from_time tz \<le> y"
      "\<forall>z. local_start from_time tz \<le> z \<and> z < y \<longrightarrow> \<not> matches t z"
    using loop_finds [OF assms(1) assms(3) [unfolded local_tm_start [OF assms(2)]]] by blast
  have calc: "calc_next_run_time tz t from_time = (y - tz * 60) * seconds_in_ns"
    using assms(1,3) y(1) by (simp add: calc_next_run_time_def wf_task_def from_local_tm_def timegm_gmtime)
  then show "scheduled tz t (calc_next_run_time tz t from_time)"
    using y(2) by (auto simp: scheduled_def)
  show "from_time < calc_next_run_time tz t from_time"
    unfolding calc using y(3) after_start [of from_time "y - tz * 60" tz] by simp
  show "\<not> scheduled tz t tp" if tp: "from_time < tp" "tp < calc_next_run_time tz t from_time"
  proof
    assume "scheduled tz t tp"
    then obtain s where s: "tp = s * seconds_in_ns" "matches t (s + tz * 60)"
      by (auto simp: scheduled_def)
    then have "local_start from_time tz \<le> s + tz * 60" "s + tz * 60 < y"
      using tp after_start [of from_time s tz] by (simp_all add: calc seconds_in_ns_def)
    then show False
      using y(4) s(2) by blast
  qed
qed

text \<open>
  Property C29. The next run of a cron task is the earliest scheduled second after the given time, unless the 400 rounds
  of the search do not find one; then it is a year later to the nanosecond, scheduled or not. In particular a schedule
  that never comes, such as the 31st of February, runs every 365 days.
\<close>

theorem next_run_is_earliest:
  assumes "wf_task t" and "0 \<le> local_start from_time tz" and "tp = calc_next_run_time tz t from_time"
  shows "scheduled tz t tp \<and> from_time < tp \<and> (\<forall>q. from_time < q \<and> q < tp \<longrightarrow> \<not> scheduled tz t q) \<or>
    tp = yearly_fallback from_time \<and> cron_loop max_rounds t (to_local_tm (from_time + seconds_in_ns) tz) = None"
proof (cases "cron_loop max_rounds t (to_local_tm (from_time + seconds_in_ns) tz)")
  case None
  then show ?thesis
    using assms(1,3) by (simp add: calc_next_run_time_def wf_task_def yearly_fallback_def)
next
  case (Some tm)
  then show ?thesis
    using next_run_found [OF assms(1,2) Some] assms(3) by blast
qed


section \<open>Schedules without days\<close>

text \<open>
  How far a second is from fitting a task that is free in its days: every step comes closer.
\<close>

definition distance :: "'f task \<Rightarrow> int \<Rightarrow> nat" where
  "distance t x =
     (if \<not> sec_ok t (x mod 60) then 4 else if \<not> min_ok t (x div 60 mod 60) then 3
      else if \<not> hour_ok t (x div 3600 mod 24) then 2
      else if \<not> in_field (k_months t) (month_of (x div 86400) mod 12 + 1) then 1 else 0)"

lemma clock_lands:
  assumes "wf_task t"
  shows "sec_ok t (first_or 0 (k_seconds t))" "min_ok t (first_or 0 (k_minutes t))" "hour_ok t (first_or 0 (k_hours t))"
  using assms first_bounds(3) [of 0 59 "k_seconds t" 0] first_bounds(3) [of 0 59 "k_minutes t" 0] first_bounds(3) [of 0 23 "k_hours t" 0]
  by (simp_all add: wf_task_def sec_ok_def min_ok_def hour_ok_def)

lemma place_in_unit: "0 \<le> r \<Longrightarrow> r < u \<Longrightarrow> (u * q + r) div u = q \<and> (u * q + r) mod u = r" for u q r :: int
  using int_div_pos_eq [of "u * q + r" u q r] int_mod_pos_eq [of "u * q + r" u q r] by simp

lemma minute_lands:
  assumes "wf_task t" and "x = 60 * q + first_or 0 (k_seconds t)"
  shows "sec_ok t (x mod 60)" "x div 60 = q"
  using place_in_unit [of "first_or 0 (k_seconds t)" 60 q] first_ranges [OF assms(1)] clock_lands [OF assms(1)] assms(2)
  by simp_all

lemma hour_lands:
  assumes "wf_task t" and "x = 3600 * q + (60 * first_or 0 (k_minutes t) + first_or 0 (k_seconds t))"
  shows "sec_ok t (x mod 60)" "min_ok t (x div 60 mod 60)" "x div 3600 = q"
proof -
  have x: "x = 60 * (60 * q + first_or 0 (k_minutes t)) + first_or 0 (k_seconds t)"
    using assms(2) by simp
  show "sec_ok t (x mod 60)"
    by (rule minute_lands(1) [OF assms(1) x])
  have "x div 60 = 60 * q + first_or 0 (k_minutes t)"
    by (rule minute_lands(2) [OF assms(1) x])
  then show "min_ok t (x div 60 mod 60)"
    using place_in_unit [of "first_or 0 (k_minutes t)" 60 q] first_ranges [OF assms(1)] clock_lands [OF assms(1)] by simp
  show "x div 3600 = q"
    using place_in_unit [of "60 * first_or 0 (k_minutes t) + first_or 0 (k_seconds t)" 3600 q] first_ranges [OF assms(1)] assms(2)
    by simp
qed

lemma day_lands:
  assumes "wf_task t" and "x = 86400 * q + first_clock t"
  shows "sec_ok t (x mod 60)" "min_ok t (x div 60 mod 60)" "hour_ok t (x div 3600 mod 24)" "x div 86400 = q"
proof -
  have x: "x = 3600 * (24 * q + first_or 0 (k_hours t)) + (60 * first_or 0 (k_minutes t) + first_or 0 (k_seconds t))"
    using assms(2) by (simp add: first_clock_def)
  show "sec_ok t (x mod 60)" "min_ok t (x div 60 mod 60)"
    by (rule hour_lands [OF assms(1) x])+
  have "x div 3600 = 24 * q + first_or 0 (k_hours t)"
    by (rule hour_lands(3) [OF assms(1) x])
  then show "hour_ok t (x div 3600 mod 24)"
    using place_in_unit [of "first_or 0 (k_hours t)" 24 q] first_ranges [OF assms(1)] clock_lands [OF assms(1)] by simp
  have "0 \<le> first_clock t" "first_clock t < 86400"
    using first_ranges [OF assms(1)] unfolding first_clock_def by linarith+
  then show "x div 86400 = q"
    using place_in_unit [of "first_clock t" 86400 q] assms(2) by simp
qed

lemma distance_simps:
  "sec_ok t (x mod 60) \<Longrightarrow> distance t x \<le> 3"
  "sec_ok t (x mod 60) \<Longrightarrow> min_ok t (x div 60 mod 60) \<Longrightarrow> distance t x \<le> 2"
  "sec_ok t (x mod 60) \<Longrightarrow> min_ok t (x div 60 mod 60) \<Longrightarrow> hour_ok t (x div 3600 mod 24) \<Longrightarrow> distance t x \<le> 1"
  "sec_ok t (x mod 60) \<Longrightarrow> min_ok t (x div 60 mod 60) \<Longrightarrow> hour_ok t (x div 3600 mod 24) \<Longrightarrow>
     in_field (k_months t) (month_of (x div 86400) mod 12 + 1) \<Longrightarrow> distance t x = 0"
  by (simp_all add: distance_def)

lemma distance_zero: "k_days t = [] \<Longrightarrow> k_weekdays t = [] \<Longrightarrow> distance t x = 0 \<longleftrightarrow> matches t x"
  by (auto simp: distance_def matches_split day_ok_def in_field_def split: if_splits)

lemma distance_decreases:
  assumes wf: "wf_task t" and free: "k_days t = []" "k_weekdays t = []" and no: "\<not> matches t x"
  shows "distance t (jump_target t x) < distance t x"
proof -
  have field: "in_field s (next_value s lo n p mod n + lo)"
    if "wf_field lo (lo + n - 1) s" "0 < n" "\<not> in_field s (p mod n + lo)" for s lo n p
    by (rule next_value_skips(3) [OF that])
  consider (second) "\<not> sec_ok t (x mod 60)"
    | (minute) "sec_ok t (x mod 60)" "\<not> min_ok t (x div 60 mod 60)"
    | (hour) "sec_ok t (x mod 60)" "min_ok t (x div 60 mod 60)" "\<not> hour_ok t (x div 3600 mod 24)"
    | (month) "sec_ok t (x mod 60)" "min_ok t (x div 60 mod 60)" "hour_ok t (x div 3600 mod 24)"
        "\<not> in_field (k_months t) (month_of (x div 86400) mod 12 + 1)"
    using no free by (auto simp: matches_split day_ok_def in_field_def)
  then show ?thesis
  proof cases
    case second
    then have "sec_ok t (jump_target t x mod 60)"
      using field [of 0 60 "k_seconds t" x] wf by (simp add: jump_target_def sec_ok_def wf_task_def)
    then show ?thesis
      using distance_simps(1) [of t "jump_target t x"] second by (simp add: distance_def [of t x])
  next
    case minute
    then have target: "jump_target t x = 60 * next_value (k_minutes t) 0 60 (x div 60) + first_or 0 (k_seconds t)"
      by (simp add: jump_target_def)
    have "min_ok t (jump_target t x div 60 mod 60)"
      using field [of 0 60 "k_minutes t" "x div 60"] wf minute(2) minute_lands(2) [OF wf target]
      by (simp add: min_ok_def wf_task_def)
    then show ?thesis
      using distance_simps(2) [OF minute_lands(1) [OF wf target]] minute by (simp add: distance_def [of t x])
  next
    case hour
    then have target: "jump_target t x = 3600 * next_value (k_hours t) 0 24 (x div 3600) +
        (60 * first_or 0 (k_minutes t) + first_or 0 (k_seconds t))"
      by (simp add: jump_target_def)
    have "hour_ok t (jump_target t x div 3600 mod 24)"
      using field [of 0 24 "k_hours t" "x div 3600"] wf hour(3) hour_lands(3) [OF wf target]
      by (simp add: hour_ok_def wf_task_def)
    then show ?thesis
      using distance_simps(3) [OF hour_lands(1,2) [OF wf target]] hour by (simp add: distance_def [of t x])
  next
    case month
    define M where "M = next_value (k_months t) 1 12 (month_of (x div 86400))"
    have target: "jump_target t x = 86400 * month_start M + first_clock t"
      using month free by (simp add: jump_target_def in_field_def first_or_def M_def)
    have "month_of (month_start M) = M"
      using month_start_less [of M] by (intro month_of_unique) simp_all
    then have "in_field (k_months t) (month_of (jump_target t x div 86400) mod 12 + 1)"
      using field [of 1 12 "k_months t" "month_of (x div 86400)"] wf month(4) day_lands(4) [OF wf target]
      by (simp add: wf_task_def M_def)
    then show ?thesis
      using distance_simps(4) [OF day_lands(1-3) [OF wf target]] month by (simp add: distance_def [of t x])
  qed
qed

lemma loop_ends:
  assumes "wf_task t" and "k_days t = []" and "k_weekdays t = []" and "distance t x < rounds"
  shows "cron_loop rounds t (gmtime x) \<noteq> None"
  using assms(4)
proof (induction rounds arbitrary: x)
  case (Suc rounds)
  show ?case
  proof (cases "cron_step t (gmtime x)")
    case (Some tm)
    then have "tm = gmtime (jump_target t x)" "\<not> matches t x"
      using step_jumps [OF assms(1)] step_none [of t x] by auto
    then show ?thesis
      using Some Suc.IH [of "jump_target t x"] Suc.prems distance_decreases [OF assms(1-3)] by fastforce
  qed simp
qed simp

lemma daily_match:
  assumes "wf_task t" and "k_days t = []" and "k_weekdays t = []" and "k_months t = []"
  shows "\<exists>y. matches t y \<and> x \<le> y \<and> y < x + 86400"
proof -
  have day: "matches t (86400 * q + first_clock t)" for q
    using day_lands [OF assms(1) refl, of q] assms(2-4) by (simp add: matches_split day_ok_def in_field_def)
  define r where "r = (first_clock t - x) mod 86400"
  have "x + r = 86400 * (x div 86400 + (x mod 86400 + r - first_clock t) div 86400) + first_clock t"
  proof -
    have "(x mod 86400 + r - first_clock t) mod 86400 = 0"
    proof -
      have "(x mod 86400 + r - first_clock t) mod 86400 = (x + (first_clock t - x) - first_clock t) mod 86400"
        unfolding r_def by (metis mod_add_eq mod_diff_left_eq)
      then show ?thesis
        by simp
    qed
    then show ?thesis
      using mult_div_mod_eq [of 86400 x] mult_div_mod_eq [of 86400 "x mod 86400 + r - first_clock t"]
      unfolding distrib_left by linarith
  qed
  then have "matches t (x + r)"
    by (simp only: day)
  moreover have "0 \<le> r" "r < 86400"
    by (simp_all add: r_def)
  ultimately show ?thesis
    by (intro exI [of _ "x + r"]) simp
qed

text \<open>
  Property C30. A schedule without days and weekdays is always found, within the 400 rounds of the search: its next run
  is scheduled, and if no months are given either it is at most a day away.
\<close>

theorem clock_schedule_recurs:
  assumes "wf_task t" and "k_days t = []" and "k_weekdays t = []" and "0 \<le> local_start from_time tz"
    and "tp = calc_next_run_time tz t from_time"
  shows "scheduled tz t tp \<and> from_time < tp \<and> (k_months t = [] \<longrightarrow> tp \<le> from_time + 86400 * seconds_in_ns)"
proof -
  define x where "x = local_start from_time tz"
  have "distance t x < max_rounds"
    by (simp add: distance_def max_rounds_def)
  then obtain tm where "cron_loop max_rounds t (to_local_tm (from_time + seconds_in_ns) tz) = Some tm"
    using loop_ends [OF assms(1-3)] local_tm_start [OF assms(4)] by (fastforce simp: x_def)
  note found = next_run_found [OF assms(1,4) this]
  have "tp \<le> from_time + 86400 * seconds_in_ns" if free: "k_months t = []"
  proof (rule ccontr)
    assume late: "\<not> tp \<le> from_time + 86400 * seconds_in_ns"
    obtain y where y: "matches t y" "x \<le> y" "y < x + 86400"
      using daily_match [OF assms(1-3) free] by blast
    let ?q = "(y - tz * 60) * seconds_in_ns"
    have "from_time < ?q"
      using after_start [of from_time "y - tz * 60" tz] y(2) by (simp add: x_def)
    moreover have "?q \<le> from_time + 86400 * seconds_in_ns"
      using after_start [of from_time "y - tz * 60 - 86400" tz] y(3) by (simp add: x_def seconds_in_ns_def)
    moreover have "scheduled tz t ?q"
      using y(1) by (auto simp: scheduled_def)
    ultimately show False
      using found(3) [of ?q] late assms(5) by linarith
  qed
  then show ?thesis
    using found(1,2) assms(5) by blast
qed

section \<open>Rounds and the worker thread\<close>

text \<open>Tasks whose next run lies ahead once it has been computed.\<close>

definition proper_task :: "int \<Rightarrow> int \<Rightarrow> 'f task \<Rightarrow> bool" where
  "proper_task tz now t \<longleftrightarrow> (k_type t = Interval \<and> 0 < k_interval t) \<or> (wf_task t \<and> 0 \<le> local_start now tz)"

lemma next_run_ahead:
  assumes "proper_task tz now t"
  shows "now < calc_next_run_time tz t now"
proof (cases "k_type t")
  case Interval
  then show ?thesis
    using assms by (auto simp: proper_task_def wf_task_def calc_next_run_time_def seconds_in_ns_def)
next
  case Cron_fields
  then have wf: "wf_task t" "0 \<le> local_start now tz"
    using assms by (auto simp: proper_task_def)
  show ?thesis
  proof (cases "cron_loop max_rounds t (to_local_tm (now + seconds_in_ns) tz)")
    case None
    then show ?thesis
      using Cron_fields by (simp add: calc_next_run_time_def seconds_in_ns_def)
  next
    case (Some tm)
    then show ?thesis
      by (rule next_run_found(2) [OF wf])
  qed
qed

text \<open>What a round does to one task, and how many tasks with one function are due.\<close>

definition round_of_task :: "int \<Rightarrow> 'f task \<Rightarrow> 'f task \<Rightarrow> bool" where
  "round_of_task now t t' \<longleftrightarrow>
     (if k_active t \<and> k_next_run t \<le> now
      then k_last_run t' = k_next_run t \<and> now < k_next_run t' \<and> k_active t' \<and> k_fn t' = k_fn t \<and> k_id t' = k_id t
      else t' = t)"

definition due_with :: "int \<Rightarrow> 'f \<Rightarrow> 'f scheduler \<Rightarrow> nat" where
  "due_with now f s = length (filter (\<lambda>(i, t). k_active t \<and> k_next_run t \<le> now \<and> k_fn t = f) (tasks s))"

lemma count_due: "count_list (map (k_fn \<circ> snd) (filter (\<lambda>(i, t). is_due now t) ts)) f =
    length (filter (\<lambda>(i, t). k_active t \<and> k_next_run t \<le> now \<and> k_fn t = f) ts)"
  by (induction ts) (auto simp: is_due_def)

text \<open>
  Property C31. A round of the scheduler runs every task that is due exactly once and no other: a function is run as
  often as there are active tasks with it whose next run has come. Each of them gets the run it had as its last run
  and a next run after the time of the round; all other tasks, the cancelled ones among them, are left as they are.
  So another round for the same time runs nothing.
\<close>

theorem round_runs_once:
  assumes "list_all (\<lambda>(i, t). proper_task (tz_offset s) now t) (tasks s)" and "run_once now s = (fns, s')"
  shows "(\<forall>f. count_list fns f = due_with now f s) \<and>
    list_all2 (\<lambda>(i, t) (j, t'). j = i \<and> round_of_task now t t') (tasks s) (tasks s') \<and>
    run_once now s' = ([], s')"
proof -
  have after: "tasks s' = map (\<lambda>(i, t). (i, if is_due now t then reschedule (tz_offset s) now t else t)) (tasks s)"
    "s'\<lparr>tasks := tasks s'\<rparr> = s'" "fns = map (k_fn \<circ> snd) (filter (\<lambda>(i, t). is_due now t) (tasks s))"
    using assms(2) by (auto simp: run_once_def)
  have ahead: "now < k_next_run (reschedule (tz_offset s) now t)" if "(i, t) \<in> set (tasks s)" for i t
    using next_run_ahead [of "tz_offset s" now t] assms(1) that by (force simp: list_all_iff reschedule_def)
  then have "\<not> is_due now (reschedule (tz_offset s) now t)" if "(i, t) \<in> set (tasks s)" for i t
    using that by (force simp: is_due_def)
  then have none: "list_all (\<lambda>(i, t). \<not> is_due now t) (tasks s')"
    by (auto simp: after list_all_iff split: if_splits)
  then have "map (\<lambda>(i, t). (i, if is_due now t then reschedule (tz_offset s') now t else t)) (tasks s') = tasks s'"
    "filter (\<lambda>(i, t). is_due now t) (tasks s') = []"
    by (auto simp: list_all_iff filter_empty_conv intro!: map_idI)
  then have "run_once now s' = ([], s')"
    using after(2) by (simp add: run_once_def)
  moreover have "list_all2 (\<lambda>(i, t) (j, t'). j = i \<and> round_of_task now t t') (tasks s) (tasks s')"
    unfolding after(1) list_all2_map2 list_all2_same
    using ahead by (auto simp: round_of_task_def is_due_def reschedule_def)
  ultimately show ?thesis
    by (simp add: after(3) count_due due_with_def)
qed

lemma running_kept:
  "running (snd (add_task now ty interval se mi ho da mo we fn s)) = running s" "running (snd (cancel i s)) = running s"
  by (simp_all add: add_task_def cancel_def rebuild_queue_def Let_def split: option.split)

lemma sleeping_step:
  assumes "worker_step w w'" and "w_phase w = Sleeping until" and "w_now w' < until" and "running (w_sched w')"
  shows "w_phase w' = Sleeping until" "w_log w' = w_log w"
  using assms by (cases rule: worker_step.cases; auto simp: stop_scheduler_def)+

lemma step_monotone:
  assumes "worker_step w w'"
  shows "w_now w \<le> w_now w'" "running (w_sched w') \<Longrightarrow> running (w_sched w)"
  using assms
  by (cases rule: worker_step.cases;
      auto simp: running_kept stop_scheduler_def pop_queue_def finish_task_def split: option.splits)+

text \<open>
  Property C32. While the worker sleeps until the next run of one task it runs nothing, whatever other threads add: a
  task that is added meanwhile and is due earlier waits until then, as the condition of the wait does not look at the
  queue.
\<close>

theorem sleeping_ignores_new_tasks:
  assumes "worker_step\<^sup>*\<^sup>* w w'" and "w_phase w = Sleeping until" and "w_now w' < until" and "running (w_sched w')"
  shows "w_phase w' = Sleeping until \<and> w_log w' = w_log w"
  using assms
proof (induction rule: rtranclp_induct)
  case (step w' w'')
  then have "w_now w' < until" "running (w_sched w')"
    using step_monotone [OF step.hyps(2)] by auto
  then show ?case
    using step.IH step.prems sleeping_step [OF step.hyps(2)] by auto
qed simp

section \<open>Examples\<close>

definition cron_task :: "int list \<Rightarrow> int list \<Rightarrow> int list \<Rightarrow> int list \<Rightarrow> int list \<Rightarrow> int list \<Rightarrow> unit task" where
  "cron_task se mi ho da mo we =
     \<lparr>k_id = 1, k_type = Cron_fields, k_interval = 0, k_seconds = se, k_minutes = mi, k_hours = ho, k_days = da,
      k_months = mo, k_weekdays = we, k_fn = (), k_last_run = 0, k_next_run = 0, k_active = True\<rparr>"

lemma no_february_31: "\<not> matches (cron_task [0] [0] [0] [31] [2] []) y"
proof
  assume "matches (cron_task [0] [0] [0] [31] [2] []) y"
  then have "day_of_month (y div 86400) = 31" "month_of (y div 86400) mod 12 = 1"
    by (simp_all add: matches_split day_ok_def in_field_def cron_task_def)
  then show False
    using month_of_range(2) [of "y div 86400"] month_start_next [of "month_of (y div 86400)"]
    by (auto simp: day_of_month_def month_length_def split: if_splits)
qed

theorem next_run_is_earliest_witness:
  "calc_next_run_time 0 (cron_task [0] [0] [0] [31] [2] []) 1700000000123456789 = yearly_fallback 1700000000123456789"
proof -
  have "wf_task (cron_task [0] [0] [0] [31] [2] [])" "0 \<le> local_start 1700000000123456789 0"
    by (simp_all add: wf_task_def wf_field_def cron_task_def local_start_def seconds_in_ns_def)
  then show ?thesis
    using next_run_is_earliest [OF _ _ refl, of "cron_task [0] [0] [0] [31] [2] []" 1700000000123456789 0] no_february_31
    by (auto simp: scheduled_def)
qed

theorem clock_schedule_recurs_witness:
  "let tp = calc_next_run_time 60 (cron_task [0] [30] [2] [] [] []) 1700000000123456789
   in scheduled 60 (cron_task [0] [30] [2] [] [] []) tp \<and> 1700000000123456789 < tp \<and>
      tp \<le> 1700000000123456789 + 86400 * seconds_in_ns"
proof -
  have "wf_task (cron_task [0] [30] [2] [] [] [])" "0 \<le> local_start 1700000000123456789 60"
    by (simp_all add: wf_task_def wf_field_def cron_task_def local_start_def seconds_in_ns_def)
  then show ?thesis
    using clock_schedule_recurs [OF _ _ _ _ refl, of "cron_task [0] [30] [2] [] [] []" 1700000000123456789 60]
    by (simp add: cron_task_def Let_def)
qed

definition one_task :: "string scheduler" where
  "one_task = (snd (every_interval 0 3600 ''hourly'' (new_scheduler 0 False)))\<lparr>running := True\<rparr>"

theorem round_runs_once_witness:
  "\<exists>s'. run_once (3600 * seconds_in_ns) one_task = ([''hourly''], s') \<and> run_once (3600 * seconds_in_ns) s' = ([], s')"
proof -
  have one: "list_all (\<lambda>(i, t). proper_task (tz_offset one_task) (3600 * seconds_in_ns) t) (tasks one_task)"
    "fst (run_once (3600 * seconds_in_ns) one_task) = [''hourly'']"
    by (simp_all add: one_task_def every_interval_def add_task_def new_scheduler_def rebuild_queue_def proper_task_def
        run_once_def is_due_def calc_next_run_time_def Let_def)
  then show ?thesis
    using round_runs_once [OF one(1), of "[''hourly'']"] by (metis prod.collapse)
qed

theorem sleeping_ignores_new_tasks_witness:
  "\<exists>w'. worker_step\<^sup>*\<^sup>* \<lparr>w_sched = one_task, w_now = 0, w_phase = Sleeping (3600 * seconds_in_ns), w_log = []\<rparr> w' \<and>
    w_log w' = [] \<and> list_ex (\<lambda>(i, t). is_due (w_now w') t) (tasks (w_sched w'))"
proof -
  let ?w = "\<lparr>w_sched = one_task, w_now = 0, w_phase = Sleeping (3600 * seconds_in_ns), w_log = []\<rparr>"
  let ?v = "?w\<lparr>w_sched := snd (add_task (w_now ?w) Interval 1 [] [] [] [] [] [] ''often'' (w_sched ?w))\<rparr>"
  let ?u = "?v\<lparr>w_now := 100 * seconds_in_ns\<rparr>"
  have "worker_step ?w ?v"
    by (rule worker_step.adds) simp
  moreover have "worker_step ?v ?u"
    by (rule worker_step.clock) (simp add: seconds_in_ns_def)
  ultimately have steps: "worker_step\<^sup>*\<^sup>* ?w ?u"
    by (meson r_into_rtranclp rtranclp_trans)
  moreover have "w_phase ?u = Sleeping (3600 * seconds_in_ns) \<and> w_log ?u = w_log ?w"
    by (rule sleeping_ignores_new_tasks [OF steps])
      (simp_all add: running_kept, simp_all add: one_task_def seconds_in_ns_def)
  moreover have "list_ex (\<lambda>(i, t). is_due (w_now ?u) t) (tasks (w_sched ?u))"
    by (simp add: one_task_def every_interval_def add_task_def new_scheduler_def rebuild_queue_def Let_def is_due_def
        calc_next_run_time_def seconds_in_ns_def)
  ultimately show ?thesis
    by (intro exI [of _ ?u]) simp
qed

end
