(* ===== verification/Fsm.thy ===== *)
theory Fsm
  imports Effects Ordered_Map Decimal
begin

text \<open>
  The finite state machine of \<open>fsm/fsm.h\<close> and \<open>fsm/fsm.cc\<close>.

  \<^item> The machine is the record \<open>fsm\<close>, one field per member of \<open>FSM\<close>; \<open>StateId\<close> and
    \<open>EventType\<close> are integers, as fewer than \<open>2^31\<close> states are added. Its unordered maps are maps ordered by key; the code that walks
    them sorts the keys first.
  \<^item> A \<open>std::function\<close> is a handle of type \<open>'c\<close>, and \<open>callbacks\<close> says what calling it does.
    A callback may read and change the world, throw, and call back into the machine, so its effect
    is an effect on the machine and the world together. Guards that add transitions for the event
    being processed would invalidate the iteration in \<open>ProcessEvent\<close>; the model goes on with the
    candidates it started with.
  \<^item> Every method runs under the recursive mutex when \<open>thread_safe_\<close> is set, so concurrent calls
    are some sequence of the operations below; the flag has no other effect.
\<close>

section \<open>States, transitions, history\<close>

record 'c condition =
  cd_name :: string
  cd_guard :: "'c option"
  cd_action :: "'c option"

record 'c target =
  target_id :: int
  target_cond :: "'c condition option"

record 'c state =
  st_name :: string
  st_id :: int
  st_enter :: "'c option"
  st_exit :: "'c option"
  st_update :: "'c option"
  transitions :: "(int, 'c target list) omap"

definition new_state :: "string \<Rightarrow> 'c option \<Rightarrow> 'c option \<Rightarrow> 'c option \<Rightarrow> 'c state" where
  "new_state name enter exit update =
     \<lparr>st_name = name, st_id = 0, st_enter = enter, st_exit = exit, st_update = update,
      transitions = []\<rparr>"

record entry =
  h_time :: int
  h_from :: int
  h_to :: int
  h_event :: int
  h_occurred :: bool
  h_from_name :: string
  h_to_name :: string
  h_event_name :: string
  h_desc :: string

record 'c fsm =
  states :: "(int, 'c state) omap"
  name_to_id :: "(string, int) omap"
  current_id :: int
  previous_id :: int
  is_started :: bool
  state_ids :: int
  history :: "entry list"
  max_history :: nat
  event_names :: "(int, string) omap"
  initial_id :: int
  record_failed :: bool
  thread_safe :: bool

definition new_fsm :: "nat \<Rightarrow> 'c fsm" where
  "new_fsm max_h =
     \<lparr>states = [], name_to_id = [], current_id = 0, previous_id = 0, is_started = False,
      state_ids = 0, history = [], max_history = max_h, event_names = [], initial_id = 0,
      record_failed = False, thread_safe = False\<rparr>"

definition default_max_history :: nat where
  "default_max_history = 100"

datatype fsm_error =
    State_not_found string | Null_state | Name_exists string | Not_started | Current_not_found
  | Thrown nat

type_synonym ('c, 'w, 'a) fsm_op = "(fsm_error, 'c fsm \<times> 'w, 'a) eff"

record ('c, 'w) callbacks =
  state_cb :: "'c \<Rightarrow> 'c state \<Rightarrow> int \<Rightarrow> ('c, 'w, unit) fsm_op"
  guard_cb :: "'c \<Rightarrow> 'c state \<Rightarrow> 'c state \<Rightarrow> int \<Rightarrow> ('c, 'w, bool) fsm_op"
  action_cb :: "'c \<Rightarrow> 'c state \<Rightarrow> 'c state \<Rightarrow> int \<Rightarrow> ('c, 'w, unit) fsm_op"
  wall_clock :: "'w \<Rightarrow> int"

definition machine :: "('c, 'w, 'c fsm) fsm_op" where
  "machine = look fst"

definition update_machine :: "('c fsm \<Rightarrow> 'c fsm) \<Rightarrow> ('c, 'w, unit) fsm_op" where
  "update_machine f = change (\<lambda>(m, w). (f m, w))"

section \<open>Looking states up\<close>

definition get_state :: "'c fsm \<Rightarrow> int \<Rightarrow> 'c state option" where
  "get_state m i = omap_find (states m) i"

definition get_state_named :: "'c fsm \<Rightarrow> string \<Rightarrow> 'c state option" where
  "get_state_named m name =
     (case omap_find (name_to_id m) name of None \<Rightarrow> None | Some i \<Rightarrow> get_state m i)"

definition is_in_state_named :: "'c fsm \<Rightarrow> string \<Rightarrow> bool" where
  "is_in_state_named m name =
     (case omap_find (name_to_id m) name of None \<Rightarrow> False | Some i \<Rightarrow> i = current_id m)"

definition is_in_state :: "'c fsm \<Rightarrow> int \<Rightarrow> bool" where
  "is_in_state m i \<longleftrightarrow> current_id m = i"

definition get_current_state_name :: "'c fsm \<Rightarrow> string option" where
  "get_current_state_name m = map_option st_name (get_state m (current_id m))"

definition get_current_state_id :: "'c fsm \<Rightarrow> int option" where
  "get_current_state_id m = (if is_started m then Some (current_id m) else None)"

definition get_state_id :: "'c fsm \<Rightarrow> string \<Rightarrow> int option" where
  "get_state_id m name = omap_find (name_to_id m) name"

definition get_state_name :: "'c fsm \<Rightarrow> int \<Rightarrow> string option" where
  "get_state_name m i = map_option st_name (get_state m i)"

definition get_event_name :: "'c fsm \<Rightarrow> int \<Rightarrow> string" where
  "get_event_name m ev =
     (case omap_find (event_names m) ev of None \<Rightarrow> show_int ev | Some n \<Rightarrow> n)"

section \<open>History\<close>

fun pop_front_to :: "nat \<Rightarrow> 'a list \<Rightarrow> 'a list" where
  "pop_front_to k [] = []"
| "pop_front_to k (x # xs) = (if length (x # xs) > k then pop_front_to k xs else x # xs)"

definition push_history :: "entry \<Rightarrow> 'c fsm \<Rightarrow> 'c fsm" where
  "push_history e m = m\<lparr>history := pop_front_to (max_history m) (history m @ [e])\<rparr>"

definition history_entry :: "int \<Rightarrow> int \<Rightarrow> int \<Rightarrow> int \<Rightarrow> bool \<Rightarrow> string \<Rightarrow> 'c fsm \<Rightarrow> entry" where
  "history_entry time from to ev occurred desc m =
     \<lparr>h_time = time, h_from = from, h_to = to, h_event = ev, h_occurred = occurred,
      h_from_name = (case get_state m from of None \<Rightarrow> [] | Some s \<Rightarrow> st_name s),
      h_to_name = (case get_state m to of None \<Rightarrow> [] | Some s \<Rightarrow> st_name s),
      h_event_name = (case omap_find (event_names m) ev of None \<Rightarrow> [] | Some n \<Rightarrow> n),
      h_desc = desc\<rparr>"

definition add_to_history ::
    "('c, 'w) callbacks \<Rightarrow> int \<Rightarrow> int \<Rightarrow> int \<Rightarrow> bool \<Rightarrow> string \<Rightarrow> ('c, 'w, unit) fsm_op" where
  "add_to_history cbs from to ev occurred desc =
     change (\<lambda>(m, w). (push_history (history_entry (wall_clock cbs w) from to ev occurred desc m) m, w))"

definition clear_history :: "('c, 'w, unit) fsm_op" where
  "clear_history = update_machine (\<lambda>m. m\<lparr>history := []\<rparr>)"

definition set_max_history_size :: "nat \<Rightarrow> ('c, 'w, unit) fsm_op" where
  "set_max_history_size k =
     update_machine (\<lambda>m. m\<lparr>max_history := k, history := pop_front_to k (history m)\<rparr>)"

definition set_record_failed_events :: "bool \<Rightarrow> ('c, 'w, unit) fsm_op" where
  "set_record_failed_events b = update_machine (\<lambda>m. m\<lparr>record_failed := b\<rparr>)"

definition enable_thread_safety :: "bool \<Rightarrow> ('c, 'w, unit) fsm_op" where
  "enable_thread_safety b = update_machine (\<lambda>m. m\<lparr>thread_safe := b\<rparr>)"

text \<open>\<open>x\<close> where it is not empty, as the code writes names.\<close>

definition name_or :: "string \<Rightarrow> string \<Rightarrow> string" where
  "name_or name other = (if name \<noteq> [] then name else other)"

definition show_bool01 :: "bool \<Rightarrow> string" where
  "show_bool01 b = (if b then ''1'' else ''0'')"

definition entry_to_string :: "entry \<Rightarrow> string" where
  "entry_to_string e =
     show_int (h_time e) @ '','' @ name_or (h_from_name e) (show_int (h_from e)) @ '','' @
     name_or (h_to_name e) (show_int (h_to e)) @ '','' @
     name_or (h_event_name e) (show_int (h_event e)) @ '','' @
     show_bool01 (h_occurred e) @ '','' @ h_desc e"

definition dump_entry :: "entry \<Rightarrow> string" where
  "dump_entry e =
     ''  ['' @ show_int (h_time e) @ ''] '' @
     name_or (h_from_name e) (''('' @ show_int (h_from e) @ '')'') @ '' -> '' @
     name_or (h_to_name e) (''('' @ show_int (h_to e) @ '')'') @ ''  event='' @
     name_or (h_event_name e) (show_int (h_event e)) @
     ''  ok='' @ show_bool01 (h_occurred e) @
     (if h_desc e \<noteq> [] then ''  ('' @ h_desc e @ '')'' else []) @ [CHR 0x0A]"

definition dump_history :: "'c fsm \<Rightarrow> string" where
  "dump_history m =
     ''FSM History ('' @ show_nat (length (history m)) @ '' entries):'' @ [CHR 0x0A] @
     concat (map dump_entry (history m))"

section \<open>Building the machine\<close>

definition add_state :: "'c state option \<Rightarrow> ('c, 'w, int) fsm_op" where
  "add_state st_opt =
     (case st_opt of
        None \<Rightarrow> throw Null_state
      | Some st \<Rightarrow>
          then_with machine (\<lambda>m.
            if omap_find (name_to_id m) (st_name st) \<noteq> None then throw (Name_exists (st_name st))
            else
              (let i = state_ids m + 1
               in then_with
                    (update_machine (\<lambda>m. m\<lparr>state_ids := i,
                       name_to_id := omap_set (st_name st) i (name_to_id m),
                       states := omap_set i (st\<lparr>st_id := i\<rparr>) (states m)\<rparr>))
                    (\<lambda>_. give i))))"

definition register_event :: "int \<Rightarrow> string \<Rightarrow> ('c, 'w, unit) fsm_op" where
  "register_event ev name = update_machine (\<lambda>m. m\<lparr>event_names := omap_set ev name (event_names m)\<rparr>)"

text \<open>\<open>transitions_[event].emplace_back(target)\<close> on the state with key \<open>i\<close>.\<close>

definition candidates :: "'c state \<Rightarrow> int \<Rightarrow> 'c target list" where
  "candidates st ev = (case omap_find (transitions st) ev of None \<Rightarrow> [] | Some ts \<Rightarrow> ts)"

definition append_target :: "int \<Rightarrow> 'c target \<Rightarrow> 'c state \<Rightarrow> 'c state" where
  "append_target ev t st =
     st\<lparr>transitions := omap_set ev (candidates st ev @ [t]) (transitions st)\<rparr>"

definition put_transition :: "'c state \<Rightarrow> int \<Rightarrow> 'c target \<Rightarrow> 'c fsm \<Rightarrow> 'c fsm" where
  "put_transition from ev t m =
     (case get_state m (st_id from) of
        None \<Rightarrow> m
      | Some st \<Rightarrow> m\<lparr>states := omap_set (st_id from) (append_target ev t st) (states m)\<rparr>)"

definition add_transition_named ::
    "string \<Rightarrow> string \<Rightarrow> int \<Rightarrow> 'c condition option \<Rightarrow> ('c, 'w, unit) fsm_op" where
  "add_transition_named from to ev cond =
     then_with machine (\<lambda>m.
       case get_state_named m from of
         None \<Rightarrow> throw (State_not_found from)
       | Some f \<Rightarrow>
           (case get_state_named m to of
              None \<Rightarrow> throw (State_not_found to)
            | Some t \<Rightarrow>
                update_machine (put_transition f ev \<lparr>target_id = st_id t, target_cond = cond\<rparr>)))"

definition add_transition :: "int \<Rightarrow> int \<Rightarrow> int \<Rightarrow> 'c condition option \<Rightarrow> ('c, 'w, unit) fsm_op" where
  "add_transition from to ev cond =
     then_with machine (\<lambda>m.
       case (get_state m from, get_state m to) of
         (None, _) \<Rightarrow> throw (State_not_found (''State ID '' @ show_int from))
       | (Some _, None) \<Rightarrow> throw (State_not_found (''State ID '' @ show_int to))
       | (Some f, Some _) \<Rightarrow>
           update_machine (put_transition f ev \<lparr>target_id = to, target_cond = cond\<rparr>))"

definition add_transitions_named ::
    "string \<Rightarrow> string \<Rightarrow> int list \<Rightarrow> 'c condition option \<Rightarrow> ('c, 'w, unit) fsm_op" where
  "add_transitions_named from to evs cond =
     then_with machine (\<lambda>m.
       case get_state_named m from of
         None \<Rightarrow> throw (State_not_found from)
       | Some f \<Rightarrow>
           (case get_state_named m to of
              None \<Rightarrow> throw (State_not_found to)
            | Some t \<Rightarrow>
                for_each evs (\<lambda>ev.
                  update_machine (put_transition f ev \<lparr>target_id = st_id t, target_cond = cond\<rparr>))))"

section \<open>Running the machine\<close>

definition call_state :: "('c, 'w) callbacks \<Rightarrow> 'c option \<Rightarrow> 'c state \<Rightarrow> int \<Rightarrow> ('c, 'w, unit) fsm_op" where
  "call_state cbs cb st ev = (case cb of None \<Rightarrow> give () | Some c \<Rightarrow> state_cb cbs c st ev)"

definition on_enter :: "('c, 'w) callbacks \<Rightarrow> 'c state \<Rightarrow> int \<Rightarrow> ('c, 'w, unit) fsm_op" where
  "on_enter cbs st ev = call_state cbs (st_enter st) st ev"

definition on_exit :: "('c, 'w) callbacks \<Rightarrow> 'c state \<Rightarrow> int \<Rightarrow> ('c, 'w, unit) fsm_op" where
  "on_exit cbs st ev = call_state cbs (st_exit st) st ev"

definition on_update :: "('c, 'w) callbacks \<Rightarrow> 'c state \<Rightarrow> int \<Rightarrow> ('c, 'w, unit) fsm_op" where
  "on_update cbs st ev = call_state cbs (st_update st) st ev"

definition can_transition ::
    "('c, 'w) callbacks \<Rightarrow> 'c condition \<Rightarrow> 'c state \<Rightarrow> 'c state \<Rightarrow> int \<Rightarrow> ('c, 'w, bool) fsm_op" where
  "can_transition cbs cond from to ev =
     (case cd_guard cond of None \<Rightarrow> give True | Some c \<Rightarrow> guard_cb cbs c from to ev)"

definition execute_action ::
    "('c, 'w) callbacks \<Rightarrow> 'c condition \<Rightarrow> 'c state \<Rightarrow> 'c state \<Rightarrow> int \<Rightarrow> ('c, 'w, unit) fsm_op" where
  "execute_action cbs cond from to ev =
     (case cd_action cond of None \<Rightarrow> give () | Some c \<Rightarrow> action_cb cbs c from to ev)"

text \<open>The common end of \<open>Start\<close> and \<open>Reset\<close>: the state is entered and the change recorded.\<close>

definition enter_and_record ::
    "('c, 'w) callbacks \<Rightarrow> 'c state \<Rightarrow> (int \<Rightarrow> int) \<Rightarrow> string \<Rightarrow> ('c, 'w, unit) fsm_op" where
  "enter_and_record cbs st from_of desc =
     then_do (on_enter cbs st 0)
       (then_with machine (\<lambda>m.
          add_to_history cbs (from_of (previous_id m)) (current_id m) 0 True desc))"

definition start_at :: "('c, 'w) callbacks \<Rightarrow> 'c state \<Rightarrow> int \<Rightarrow> ('c, 'w, unit) fsm_op" where
  "start_at cbs st i =
     then_do (update_machine (\<lambda>m. m\<lparr>current_id := i, initial_id := i, previous_id := 0, is_started := True\<rparr>))
       (enter_and_record cbs st (\<lambda>_. 0) ''FSM started'')"

definition start_named :: "('c, 'w) callbacks \<Rightarrow> string \<Rightarrow> ('c, 'w, unit) fsm_op" where
  "start_named cbs name =
     then_with machine (\<lambda>m.
       case get_state_named m name of
         None \<Rightarrow> throw (State_not_found name)
       | Some st \<Rightarrow> start_at cbs st (st_id st))"

definition start_id :: "('c, 'w) callbacks \<Rightarrow> int \<Rightarrow> ('c, 'w, unit) fsm_op" where
  "start_id cbs i =
     then_with machine (\<lambda>m.
       case get_state m i of
         None \<Rightarrow> throw (State_not_found (''State ID '' @ show_int i))
       | Some st \<Rightarrow> start_at cbs st i)"

definition reset_to :: "('c, 'w) callbacks \<Rightarrow> 'c state \<Rightarrow> int \<Rightarrow> ('c, 'w, unit) fsm_op" where
  "reset_to cbs st i =
     then_do
       (then_with machine (\<lambda>m.
          if is_started m \<and> current_id m \<noteq> 0
          then (case get_state m (current_id m) of None \<Rightarrow> give () | Some cur \<Rightarrow> on_exit cbs cur 0)
          else give ()))
       (then_do
          (update_machine (\<lambda>m. m\<lparr>previous_id := current_id m, current_id := i, is_started := True\<rparr>))
          (enter_and_record cbs st (\<lambda>prev. prev) ''FSM reset''))"

definition reset_named :: "('c, 'w) callbacks \<Rightarrow> string \<Rightarrow> ('c, 'w, unit) fsm_op" where
  "reset_named cbs name =
     then_with machine (\<lambda>m.
       case get_state_named m name of
         None \<Rightarrow> throw (State_not_found name)
       | Some st \<Rightarrow> reset_to cbs st (st_id st))"

definition reset_id :: "('c, 'w) callbacks \<Rightarrow> int \<Rightarrow> ('c, 'w, unit) fsm_op" where
  "reset_id cbs i =
     then_with machine (\<lambda>m.
       case get_state m i of
         None \<Rightarrow> throw (State_not_found (''State ID '' @ show_int i))
       | Some st \<Rightarrow> reset_to cbs st i)"

text \<open>\<open>ProcessEvent\<close>: no candidate was taken; one candidate is taken; the loop over the candidates.\<close>

definition stay :: "('c, 'w) callbacks \<Rightarrow> 'c state \<Rightarrow> int \<Rightarrow> string \<Rightarrow> ('c, 'w, unit) fsm_op" where
  "stay cbs cur ev desc =
     then_do (on_update cbs cur ev)
       (then_with machine (\<lambda>m.
          only_if (record_failed m)
            (add_to_history cbs (current_id m) (current_id m) ev False desc)))"

definition take_transition ::
    "('c, 'w) callbacks \<Rightarrow> 'c state \<Rightarrow> 'c state \<Rightarrow> 'c target \<Rightarrow> int \<Rightarrow> ('c, 'w, unit) fsm_op" where
  "take_transition cbs cur tgt t ev =
     in_order
       [on_exit cbs cur ev,
        (case target_cond t of None \<Rightarrow> give () | Some c \<Rightarrow> execute_action cbs c cur tgt ev),
        update_machine (\<lambda>m. m\<lparr>previous_id := current_id m, current_id := target_id t\<rparr>),
        on_enter cbs tgt ev,
        then_with machine (\<lambda>m.
          add_to_history cbs (previous_id m) (current_id m) ev True
            (case target_cond t of None \<Rightarrow> ''transition'' | Some c \<Rightarrow> cd_name c))]"

fun try_transitions ::
    "('c, 'w) callbacks \<Rightarrow> 'c state \<Rightarrow> int \<Rightarrow> 'c target list \<Rightarrow> ('c, 'w, unit) fsm_op" where
  "try_transitions cbs cur ev [] = stay cbs cur ev ''Transition blocked''"
| "try_transitions cbs cur ev (t # ts) =
     then_with machine (\<lambda>m.
       case get_state m (target_id t) of
         None \<Rightarrow> try_transitions cbs cur ev ts
       | Some tgt \<Rightarrow>
           then_with
             (case target_cond t of None \<Rightarrow> give True | Some c \<Rightarrow> can_transition cbs c cur tgt ev)
             (\<lambda>ok. if ok then take_transition cbs cur tgt t ev
                   else try_transitions cbs cur ev ts))"

definition process_event :: "('c, 'w) callbacks \<Rightarrow> int \<Rightarrow> ('c, 'w, unit) fsm_op" where
  "process_event cbs ev =
     then_with machine (\<lambda>m.
       if \<not> is_started m then throw Not_started
       else case get_state m (current_id m) of
         None \<Rightarrow> throw Current_not_found
       | Some cur \<Rightarrow>
           (case omap_find (transitions cur) ev of
              None \<Rightarrow> stay cbs cur ev ''No transition''
            | Some ts \<Rightarrow> try_transitions cbs cur ev ts))"

section \<open>The DOT graph\<close>

definition line :: "string \<Rightarrow> string" where
  "line s = s @ [CHR 0x0A]"

definition quote :: string where
  "quote = [CHR 0x22]"

definition dot_state :: "'c fsm \<Rightarrow> int \<Rightarrow> string" where
  "dot_state m i =
     (case get_state m i of
        None \<Rightarrow> []
      | Some st \<Rightarrow> line (''  '' @ show_int i @ '' [label='' @ quote @ st_name st @ quote @
          (if i = current_id m
           then '', style='' @ quote @ ''rounded,filled'' @ quote @ '', fillcolor='' @ quote @
                ''#a5d8ff'' @ quote
           else []) @ ''];''))"

definition dot_edge :: "'c fsm \<Rightarrow> int \<Rightarrow> int \<Rightarrow> 'c target \<Rightarrow> string" where
  "dot_edge m from ev t =
     (case get_state m (target_id t) of
        None \<Rightarrow> []
      | Some _ \<Rightarrow> line (''  '' @ show_int from @ '' -> '' @ show_int (target_id t) @
          '' [label='' @ quote @ get_event_name m ev @
          (case target_cond t of
             None \<Rightarrow> []
           | Some c \<Rightarrow> if cd_name c \<noteq> [] then [CHR 0x5C] @ ''n['' @ cd_name c @ '']'' else []) @
          quote @ ''];''))"

definition dot_edges :: "'c fsm \<Rightarrow> int \<Rightarrow> string" where
  "dot_edges m i =
     (case get_state m i of
        None \<Rightarrow> []
      | Some st \<Rightarrow>
          concat (map (\<lambda>ev. concat (map (dot_edge m i ev) (candidates st ev)))
            (sort (map fst (transitions st)))))"

definition to_dot_graph :: "'c fsm \<Rightarrow> string" where
  "to_dot_graph m =
     (let ids = sort (map fst (states m))
      in line ''digraph FSM {'' @ line ''  rankdir=LR;'' @
         line (''  node [shape=rectangle, style='' @ quote @ ''rounded'' @ quote @
               '', fontname='' @ quote @ ''sans-serif'' @ quote @ ''];'') @
         line (line (''  edge [fontname='' @ quote @ ''sans-serif'' @ quote @ '', fontsize=10];'')) @
         (if is_started m \<and> initial_id m \<noteq> 0
          then line ''  __start__ [shape=point, width=0.2, height=0.2];'' @
               (if get_state m (initial_id m) \<noteq> None
                then line (''  __start__ -> '' @ show_int (initial_id m) @ '';'') else [])
          else []) @
         line [] @ concat (map (dot_state m) ids) @
         line [] @ concat (map (dot_edges m) ids) @ line ''}'')"

end
