(* ===== verification/Fsm_Props.thy ===== *)
theory Fsm_Props
  imports Fsm
begin

text \<open>
  The state machine is correct.

  \<^item> \<open>fsm_wf\<close> is its invariant; every operation keeps it and removes no state (\<open>safe\<close>), whatever
    the callbacks do, as long as they too work through such operations.
  \<^item> For callbacks that only look at the machine, \<open>ProcessEvent\<close> is the step of an abstract
    automaton (\<open>automaton_step\<close>).
  \<^item> The history is the window of the most recent entries.
\<close>

section \<open>The invariant\<close>

definition has_state :: "'c fsm \<Rightarrow> int \<Rightarrow> bool" where
  "has_state m i \<longleftrightarrow> get_state m i \<noteq> None"

definition state_ok :: "'c fsm \<Rightarrow> int \<times> 'c state \<Rightarrow> bool" where
  "state_ok m = (\<lambda>(i, st).
     st_id st = i \<and> 1 \<le> i \<and> i \<le> state_ids m \<and>
     omap_find (name_to_id m) (st_name st) = Some i \<and> omap_wf (transitions st) \<and>
     list_all (\<lambda>(ev, ts). list_all (\<lambda>t. has_state m (target_id t)) ts) (transitions st))"

definition name_ok :: "'c fsm \<Rightarrow> string \<times> int \<Rightarrow> bool" where
  "name_ok m = (\<lambda>(n, i). case get_state m i of None \<Rightarrow> False | Some st \<Rightarrow> st_name st = n)"

definition fsm_wf :: "'c fsm \<Rightarrow> bool" where
  "fsm_wf m \<longleftrightarrow>
     omap_wf (states m) \<and> omap_wf (name_to_id m) \<and> omap_wf (event_names m) \<and>
     list_all (state_ok m) (states m) \<and> list_all (name_ok m) (name_to_id m) \<and>
     (is_started m \<longrightarrow> has_state m (current_id m)) \<and> 0 \<le> state_ids m \<and>
     length (history m) \<le> max_history m"

lemma has_state_simps [simp]:
  "has_state (m\<lparr>history := h\<rparr>) i = has_state m i"
  "has_state (m\<lparr>current_id := j\<rparr>) i = has_state m i"
  "has_state (m\<lparr>previous_id := j\<rparr>) i = has_state m i"
  "has_state (m\<lparr>initial_id := j\<rparr>) i = has_state m i"
  "has_state (m\<lparr>is_started := b\<rparr>) i = has_state m i"
  "has_state (m\<lparr>max_history := k\<rparr>) i = has_state m i"
  "has_state (m\<lparr>event_names := en\<rparr>) i = has_state m i"
  "has_state (m\<lparr>record_failed := b\<rparr>) i = has_state m i"
  "has_state (m\<lparr>thread_safe := b\<rparr>) i = has_state m i"
  by (simp_all add: has_state_def get_state_def)

lemma length_pop_front_to: "length (pop_front_to k xs) \<le> k"
  by (induction k xs rule: pop_front_to.induct) auto

lemma pop_front_to_drop: "pop_front_to k xs = drop (length xs - k) xs"
proof (induction k xs rule: pop_front_to.induct)
  case (2 k x xs)
  then show ?case
    by (cases "length xs < k") (auto simp: Suc_diff_le not_less)
qed simp

lemma get_state_mem: "get_state m i = Some st \<Longrightarrow> (i, st) \<in> set (states m)"
  by (simp add: get_state_def omap_find_mem)

lemma fsm_wf_state: "fsm_wf m \<Longrightarrow> get_state m i = Some st \<Longrightarrow> state_ok m (i, st)"
  using get_state_mem by (fastforce simp: fsm_wf_def list_all_iff)

lemma fsm_wf_parts:
  assumes "fsm_wf m"
  shows "omap_wf (states m)" "omap_wf (name_to_id m)" "omap_wf (event_names m)" "0 \<le> state_ids m"
    "is_started m \<Longrightarrow> has_state m (current_id m)" "length (history m) \<le> max_history m"
  using assms by (simp_all add: fsm_wf_def)

lemma fsm_wf_name:
  "fsm_wf m \<Longrightarrow> omap_find (name_to_id m) n = Some i \<Longrightarrow>
     \<exists>st. get_state m i = Some st \<and> st_name st = n"
  using omap_find_mem by (fastforce simp: fsm_wf_def list_all_iff name_ok_def split: option.splits)

lemma get_state_named_Some:
  assumes "fsm_wf m" and "get_state_named m name = Some st"
  shows "get_state m (st_id st) = Some st" and "st_name st = name" and "has_state m (st_id st)"
proof -
  obtain i where i: "omap_find (name_to_id m) name = Some i" "get_state m i = Some st"
    using assms(2) by (auto simp: get_state_named_def split: option.splits)
  then show "get_state m (st_id st) = Some st" "st_name st = name" "has_state m (st_id st)"
    using fsm_wf_name [OF assms(1) i(1)] fsm_wf_state [OF assms(1) i(2)]
    by (auto simp: state_ok_def has_state_def)
qed

text \<open>No state is lost.\<close>

definition fsm_le :: "'c fsm \<Rightarrow> 'c fsm \<Rightarrow> bool" where
  "fsm_le m m' \<longleftrightarrow> (\<forall>i. has_state m i \<longrightarrow> has_state m' i)"

text \<open>
  The operation keeps the invariant and the states, given that the states in \<open>I\<close> exist; \<open>safe []\<close>
  is the contract of operations and callbacks.
\<close>

definition safe :: "int list \<Rightarrow> 'c fsm \<times> 'w \<Rightarrow> 'c fsm \<times> 'w \<Rightarrow> bool" where
  "safe I s t \<longleftrightarrow>
     (fsm_wf (fst s) \<and> list_all (has_state (fst s)) I \<longrightarrow> fsm_wf (fst t) \<and> fsm_le (fst s) (fst t))"

lemma safe_reflp [simp]: "reflp (safe I)"
  by (simp add: reflp_def safe_def fsm_le_def)

lemma safe_transp [simp]: "transp (safe I)"
  unfolding transp_def safe_def fsm_le_def list_all_iff by blast

lemma safe_weaken: "moves (safe []) op \<Longrightarrow> moves (safe I) op"
  by (auto simp: moves_def safe_def)

lemma safe_update:
  assumes "\<And>m. fsm_wf m \<Longrightarrow> list_all (has_state m) I \<Longrightarrow> fsm_wf (f m) \<and> fsm_le m (f m)"
  shows "moves (safe I) (update_machine f)"
  using assms by (auto simp: update_machine_def safe_def intro!: moves_change)

lemma safe_then_machine:
  assumes "\<And>m. fsm_wf m \<Longrightarrow> list_all (has_state m) I \<Longrightarrow> moves (safe (J m)) (g m) \<and> list_all (has_state m) (J m)"
  shows "moves (safe I) (then_with machine g)"
  unfolding moves_def
proof
  fix s :: "'a fsm \<times> 'b"
  show "safe I s (snd (then_with machine g s))"
    using assms [of "fst s"] by (auto simp: machine_def safe_def dest!: movesD [of _ _ s])
qed

lemmas safe_intros = moves_basic [OF safe_reflp] moves_then_with [OF safe_transp]
  moves_then_do [OF safe_transp] moves_only_if [OF safe_reflp]
  moves_in_order [OF safe_reflp safe_transp] moves_for_each [OF safe_reflp safe_transp]

section \<open>The parts of the invariant an update touches\<close>

lemma fsm_wf_same:
  assumes "fsm_wf m" and "states m' = states m" and "name_to_id m' = name_to_id m"
    and "state_ids m' = state_ids m" and "omap_wf (event_names m')"
    and "is_started m' \<Longrightarrow> has_state m (current_id m')" and "length (history m') \<le> max_history m'"
  shows "fsm_wf m' \<and> fsm_le m m'"
proof -
  have "has_state m' = has_state m" "get_state m' = get_state m"
    using assms(2) by (auto simp: has_state_def get_state_def)
  with assms show ?thesis
    by (simp add: fsm_wf_def state_ok_def name_ok_def fsm_le_def)
qed

lemma push_history_wf: "fsm_wf m \<Longrightarrow> fsm_wf (push_history e m) \<and> fsm_le m (push_history e m)"
  by (rule fsm_wf_same [of m])
    (simp_all add: push_history_def length_pop_front_to fsm_wf_parts)

lemma safe_history: "moves (safe I) (add_to_history cbs from to ev occ desc)"
  unfolding add_to_history_def
  by (rule moves_change) (auto simp: safe_def push_history_wf split: prod.split)

lemma get_state_put:
  "get_state (m\<lparr>states := omap_set k st (states m)\<rparr>) i = (if i = k then Some st else get_state m i)"
  by (simp add: get_state_def omap_find_set)

lemma candidates_ok:
  assumes "fsm_wf m" and "get_state m i = Some st" and "t \<in> set (candidates st ev)"
  shows "has_state m (target_id t)"
proof (cases "omap_find (transitions st) ev")
  case None
  with assms(3) show ?thesis
    by (simp add: candidates_def)
next
  case (Some ts)
  then have "(ev, ts) \<in> set (transitions st)" "t \<in> set ts"
    using assms(3) by (simp_all add: omap_find_mem candidates_def)
  then show ?thesis
    using fsm_wf_state [OF assms(1,2)] by (fastforce simp: state_ok_def list_all_iff)
qed

lemma append_target_simps [simp]:
  "st_id (append_target ev t st) = st_id st" "st_name (append_target ev t st) = st_name st"
  "omap_wf (transitions st) \<Longrightarrow> omap_wf (transitions (append_target ev t st))"
  by (simp_all add: append_target_def omap_wf_set)

lemma put_transition_wf:
  assumes wf: "fsm_wf m" and to: "has_state m (target_id t)"
  shows "fsm_wf (put_transition from ev t m) \<and> fsm_le m (put_transition from ev t m)"
proof (cases "get_state m (st_id from)")
  case None
  with wf show ?thesis
    by (simp add: put_transition_def fsm_le_def)
next
  case (Some st)
  let ?k = "st_id from" and ?st = "append_target ev t st"
  let ?m = "m\<lparr>states := omap_set ?k ?st (states m)\<rparr>"
  have eq: "put_transition from ev t m = ?m"
    by (simp add: put_transition_def Some)
  have has: "has_state ?m = has_state m"
    using Some by (auto simp: fun_eq_iff has_state_def get_state_put)
  have st: "state_ok m (?k, st)"
    by (rule fsm_wf_state [OF wf Some])
  have targets: "list_all (\<lambda>(ev, ts). list_all (\<lambda>t. has_state m (target_id t)) ts) (transitions ?st)"
    using st to candidates_ok [OF wf Some] set_omap_set_subset [of ev "candidates st ev @ [t]" "transitions st"]
    by (fastforce simp: append_target_def state_ok_def list_all_iff)
  have new: "state_ok ?m (?k, ?st)"
    using st targets by (simp add: state_ok_def has)
  have "state_ok ?m js" if "state_ok m js" for js
    using that by (simp add: state_ok_def has split: prod.splits)
  then have "list_all (state_ok ?m) (states ?m)"
    using wf new set_omap_set_subset [of ?k ?st "states m"] by (auto simp: fsm_wf_def list_all_iff)
  moreover have "list_all (name_ok ?m) (name_to_id m)"
    using wf Some by (auto simp: fsm_wf_def list_all_iff name_ok_def get_state_put append_target_def
        split: option.splits)
  ultimately show ?thesis
    using wf by (simp add: eq fsm_wf_def fsm_le_def has omap_wf_set)
qed

lemma add_state_wf:
  fixes m :: "'c fsm"
  assumes wf: "fsm_wf m" and st: "transitions st = []" and fresh: "omap_find (name_to_id m) (st_name st) = None"
  defines "i \<equiv> state_ids m + 1"
  defines "m' \<equiv> m\<lparr>state_ids := i, name_to_id := omap_set (st_name st) i (name_to_id m),
                  states := omap_set i (st\<lparr>st_id := i\<rparr>) (states m)\<rparr>"
  shows "fsm_wf m' \<and> fsm_le m m' \<and> has_state m' i \<and> \<not> has_state m i"
proof -
  have old: "get_state m i = None"
    using fsm_wf_state [OF wf, of i] by (cases "get_state m i") (auto simp: state_ok_def i_def)
  have get: "get_state m' j = (if j = i then Some (st\<lparr>st_id := i\<rparr>) else get_state m j)" for j
    by (simp add: m'_def get_state_def omap_find_set)
  have le: "fsm_le m m'"
    by (simp add: fsm_le_def has_state_def get)
  have names: "omap_find (name_to_id m') n =
      (if n = st_name st then Some i else omap_find (name_to_id m) n)" for n
    by (simp add: m'_def omap_find_set)
  have kept: "state_ok m' js" if "state_ok m js" for js
    using that le fresh names
    by (cases js) (auto simp: state_ok_def fsm_le_def list_all_iff m'_def i_def)
  have new: "state_ok m' (i, st\<lparr>st_id := i\<rparr>)"
    using st names fsm_wf_parts(4) [OF wf] by (simp add: state_ok_def m'_def i_def)
  have "list_all (state_ok m') (states m')"
    using wf new kept set_omap_set_subset [of i "st\<lparr>st_id := i\<rparr>" "states m"]
    by (auto simp: fsm_wf_def list_all_iff m'_def)
  moreover have "list_all (name_ok m') (name_to_id m')"
    using wf old set_omap_set_subset [of "st_name st" i "name_to_id m"]
    by (fastforce simp: fsm_wf_def list_all_iff m'_def name_ok_def get [unfolded m'_def] split: option.splits)
  moreover have "is_started m' \<longrightarrow> has_state m' (current_id m')"
    using le fsm_wf_parts(5) [OF wf] by (simp add: fsm_le_def m'_def)
  moreover have "omap_wf (states m')" "omap_wf (name_to_id m')" "omap_wf (event_names m')"
      "0 \<le> state_ids m'" "length (history m') \<le> max_history m'"
    using fsm_wf_parts [OF wf] by (simp_all add: m'_def omap_wf_set i_def)
  ultimately have "fsm_wf m'"
    unfolding fsm_wf_def [of m'] by blast
  with le old show ?thesis
    by (simp add: has_state_def get)
qed

section \<open>Every operation is safe\<close>

text \<open>
  What the machine relies on: a callback keeps the invariant and removes no state. Callbacks that
  themselves work through the operations of this section provide it.
\<close>

locale safe_callbacks =
  fixes cbs :: "('c, 'w) callbacks"
  assumes state_cb_safe: "moves (safe []) (state_cb cbs c st ev)"
    and guard_cb_safe: "moves (safe []) (guard_cb cbs c from to ev)"
    and action_cb_safe: "moves (safe []) (action_cb cbs c from to ev)"
begin

lemma call_state_safe: "moves (safe I) (call_state cbs cb st ev)"
  by (cases cb) (auto simp: call_state_def intro: safe_intros safe_weaken state_cb_safe)

lemma hooks_safe:
  "moves (safe I) (on_enter cbs st ev)" "moves (safe I) (on_exit cbs st ev)"
  "moves (safe I) (on_update cbs st ev)"
  by (simp_all add: on_enter_def on_exit_def on_update_def call_state_safe)

lemma condition_safe:
  "moves (safe I) (can_transition cbs cond from to ev)"
  "moves (safe I) (execute_action cbs cond from to ev)"
  by (auto simp: can_transition_def execute_action_def split: option.split
      intro: safe_intros safe_weaken guard_cb_safe action_cb_safe)

lemma record_safe: "moves (safe I) (then_with machine (\<lambda>m. add_to_history cbs (f m) (g m) ev occ desc))"
  unfolding machine_def by (intro safe_intros safe_history)

lemma enter_at_safe: "moves (safe [i]) (update_machine (\<lambda>m. m\<lparr>current_id := i, initial_id := i, previous_id := 0, is_started := True\<rparr>))"
  by (rule safe_update, rule fsm_wf_same) (simp_all add: fsm_wf_parts)

lemma move_to_safe:
  "moves (safe [i]) (update_machine (\<lambda>m. m\<lparr>previous_id := current_id m, current_id := i\<rparr>))"
  "moves (safe [i]) (update_machine (\<lambda>m. m\<lparr>previous_id := current_id m, current_id := i, is_started := True\<rparr>))"
  by (rule safe_update, rule fsm_wf_same, simp_all add: fsm_wf_parts)+

lemma start_at_safe: "moves (safe [i]) (start_at cbs st i)"
  unfolding start_at_def enter_and_record_def
  by (intro safe_intros enter_at_safe hooks_safe record_safe)

lemma reset_to_safe: "moves (safe [i]) (reset_to cbs st i)"
  unfolding reset_to_def enter_and_record_def machine_def
  by (intro safe_intros move_to_safe hooks_safe safe_history)
    (auto intro: safe_intros hooks_safe split: option.split)

lemma start_safe: "moves (safe []) (start_named cbs name)" "moves (safe []) (start_id cbs i)"
proof -
  show "moves (safe []) (start_named cbs name)"
    unfolding start_named_def
    by (rule safe_then_machine [where J = "\<lambda>m. case get_state_named m name of None \<Rightarrow> [] | Some st \<Rightarrow> [st_id st]"])
      (auto split: option.split simp: get_state_named_Some intro: safe_intros start_at_safe)
  show "moves (safe []) (start_id cbs i)"
    unfolding start_id_def
    by (rule safe_then_machine [where J = "\<lambda>m. if has_state m i then [i] else []"])
      (auto split: option.split simp: has_state_def intro: safe_intros start_at_safe)
qed

lemma reset_safe: "moves (safe []) (reset_named cbs name)" "moves (safe []) (reset_id cbs i)"
proof -
  show "moves (safe []) (reset_named cbs name)"
    unfolding reset_named_def
    by (rule safe_then_machine [where J = "\<lambda>m. case get_state_named m name of None \<Rightarrow> [] | Some st \<Rightarrow> [st_id st]"])
      (auto split: option.split simp: get_state_named_Some intro: safe_intros reset_to_safe)
  show "moves (safe []) (reset_id cbs i)"
    unfolding reset_id_def
    by (rule safe_then_machine [where J = "\<lambda>m. if has_state m i then [i] else []"])
      (auto split: option.split simp: has_state_def intro: safe_intros reset_to_safe)
qed

lemma stay_safe: "moves (safe I) (stay cbs cur ev desc)"
  unfolding stay_def machine_def by (intro safe_intros hooks_safe safe_history)

lemma take_transition_safe: "moves (safe [target_id t]) (take_transition cbs cur tgt t ev)"
  unfolding take_transition_def in_order.simps
  by (intro safe_intros hooks_safe move_to_safe record_safe)
    (auto split: option.split intro: safe_intros condition_safe)

lemma try_transitions_safe: "moves (safe []) (try_transitions cbs cur ev ts)"
proof (induction ts)
  case Nil
  show ?case
    by (simp add: stay_safe)
next
  case (Cons t ts)
  show ?case
    unfolding try_transitions.simps
  proof (rule safe_then_machine [where J = "\<lambda>m. if has_state m (target_id t) then [target_id t] else []"])
    fix m :: "'c fsm"
    show "moves (safe (if has_state m (target_id t) then [target_id t] else []))
        (case get_state m (target_id t) of
           None \<Rightarrow> try_transitions cbs cur ev ts
         | Some tgt \<Rightarrow> then_with
             (case target_cond t of None \<Rightarrow> give True | Some c \<Rightarrow> can_transition cbs c cur tgt ev)
             (\<lambda>ok. if ok then take_transition cbs cur tgt t ev else try_transitions cbs cur ev ts)) \<and>
      list_all (has_state m) (if has_state m (target_id t) then [target_id t] else [])"
      using Cons.IH safe_weaken [OF Cons.IH]
      by (auto simp: has_state_def split: option.split
          intro!: safe_intros condition_safe take_transition_safe)
  qed
qed

lemma process_event_safe: "moves (safe []) (process_event cbs ev)"
  unfolding process_event_def machine_def
  by (auto intro!: safe_intros stay_safe try_transitions_safe split: option.split)

end

section \<open>Building is safe\<close>

definition fresh_state :: "'c state option \<Rightarrow> bool" where
  "fresh_state st = (case st of None \<Rightarrow> True | Some s \<Rightarrow> transitions s = [])"

lemma add_state_run:
  "add_state (Some st) (m, w) =
     (if omap_find (name_to_id m) (st_name st) \<noteq> None then (Inl (Name_exists (st_name st)), (m, w))
      else (Inr (state_ids m + 1),
            (m\<lparr>state_ids := state_ids m + 1,
               name_to_id := omap_set (st_name st) (state_ids m + 1) (name_to_id m),
               states := omap_set (state_ids m + 1) (st\<lparr>st_id := state_ids m + 1\<rparr>) (states m)\<rparr>, w)))"
  by (simp add: add_state_def machine_def update_machine_def run_then_with Let_def)

lemma add_state_safe: "fresh_state st \<Longrightarrow> moves (safe []) (add_state st)"
proof (cases st)
  case (Some st')
  assume "fresh_state st"
  then have "transitions st' = []"
    by (simp add: fresh_state_def Some)
  then show ?thesis
    unfolding moves_def Some
    using add_state_wf [of _ st'] by (auto simp: add_state_run safe_def fsm_le_def)
qed (simp add: add_state_def safe_intros)

lemma add_transition_safe: "moves (safe []) (add_transition from to ev cond)"
  unfolding add_transition_def
  by (rule safe_then_machine [where J = "\<lambda>m. if has_state m to then [to] else []"])
    (auto simp: has_state_def split: option.split
      intro!: safe_intros safe_update put_transition_wf)

lemma add_transition_named_safe: "moves (safe []) (add_transition_named from to ev cond)"
  unfolding add_transition_named_def
  by (rule safe_then_machine [where J = "\<lambda>m. case get_state_named m to of None \<Rightarrow> [] | Some st \<Rightarrow> [st_id st]"])
    (auto simp: get_state_named_Some split: option.split
      intro!: safe_intros safe_update put_transition_wf)

lemma add_transitions_named_safe: "moves (safe []) (add_transitions_named from to evs cond)"
  unfolding add_transitions_named_def
  by (rule safe_then_machine [where J = "\<lambda>m. case get_state_named m to of None \<Rightarrow> [] | Some st \<Rightarrow> [st_id st]"])
    (auto simp: get_state_named_Some split: option.split
      intro!: safe_intros safe_update put_transition_wf)

lemma settings_safe:
  "moves (safe I) (register_event ev name)" "moves (safe I) clear_history"
  "moves (safe I) (set_max_history_size k)" "moves (safe I) (set_record_failed_events b)"
  "moves (safe I) (enable_thread_safety b)"
  unfolding register_event_def clear_history_def set_max_history_size_def set_record_failed_events_def
    enable_thread_safety_def
  by (rule safe_update, rule fsm_wf_same, simp_all add: fsm_wf_parts omap_wf_set length_pop_front_to)+

text \<open>The public operations, each with any arguments.\<close>

inductive fsm_call :: "('c, 'w) callbacks \<Rightarrow> ('c, 'w, unit) fsm_op \<Rightarrow> bool" for cbs where
  "fresh_state st \<Longrightarrow> fsm_call cbs (then_with (add_state st) (\<lambda>_. give ()))"
| "fsm_call cbs (add_transition_named from to ev cond)"
| "fsm_call cbs (add_transition fi ti ev cond)"
| "fsm_call cbs (add_transitions_named from to evs cond)"
| "fsm_call cbs (register_event ev name)"
| "fsm_call cbs (start_named cbs name)"
| "fsm_call cbs (start_id cbs i)"
| "fsm_call cbs (reset_named cbs name)"
| "fsm_call cbs (reset_id cbs i)"
| "fsm_call cbs (process_event cbs ev)"
| "fsm_call cbs clear_history"
| "fsm_call cbs (set_max_history_size k)"
| "fsm_call cbs (set_record_failed_events b)"
| "fsm_call cbs (enable_thread_safety b)"

lemma fsm_call_safe: "fsm_call cbs op \<Longrightarrow> safe_callbacks cbs \<Longrightarrow> moves (safe []) op"
  by (induction rule: fsm_call.induct)
    (auto intro!: add_state_safe add_transition_safe add_transition_named_safe
      add_transitions_named_safe settings_safe
      safe_callbacks.start_safe safe_callbacks.reset_safe safe_callbacks.process_event_safe
      moves_then_with [OF safe_transp] moves_basic [OF safe_reflp])

lemma fsm_calls_safe:
  assumes "\<forall>op \<in> set ops. fsm_call cbs op" and "safe_callbacks cbs"
  shows "safe [] s (foldl (\<lambda>s op. snd (op s)) s ops)"
  using assms(1)
proof (induction ops arbitrary: s)
  case (Cons op ops)
  have "safe [] s (snd (op s))"
    using movesD [OF fsm_call_safe [OF _ assms(2)], of op s] Cons.prems by simp
  moreover have "safe [] (snd (op s)) (foldl (\<lambda>s op. snd (op s)) (snd (op s)) ops)"
    using Cons.prems by (intro Cons.IH) simp
  ultimately show ?case
    by (auto intro: transpD [OF safe_transp])
qed (simp add: safe_def fsm_le_def)

lemma new_fsm_wf [simp]: "fsm_wf (new_fsm k)"
  by (simp add: new_fsm_def fsm_wf_def)

section \<open>Callbacks that only look at the machine\<close>

text \<open>Guards test, the others change the world; all may look at the machine, none throws or changes it.\<close>

record ('c, 'w) quiet =
  q_state :: "'c \<Rightarrow> 'c state \<Rightarrow> int \<Rightarrow> 'c fsm \<Rightarrow> 'w \<Rightarrow> 'w"
  q_guard :: "'c \<Rightarrow> 'c state \<Rightarrow> 'c state \<Rightarrow> int \<Rightarrow> 'c fsm \<Rightarrow> 'w \<Rightarrow> bool"
  q_action :: "'c \<Rightarrow> 'c state \<Rightarrow> 'c state \<Rightarrow> int \<Rightarrow> 'c fsm \<Rightarrow> 'w \<Rightarrow> 'w"
  q_clock :: "'w \<Rightarrow> int"

definition lift_quiet :: "('c, 'w) quiet \<Rightarrow> ('c, 'w) callbacks" where
  "lift_quiet q =
     \<lparr>state_cb = (\<lambda>c st ev. change (\<lambda>(m, w). (m, q_state q c st ev m w))),
      guard_cb = (\<lambda>c from to ev. look (\<lambda>(m, w). q_guard q c from to ev m w)),
      action_cb = (\<lambda>c from to ev. change (\<lambda>(m, w). (m, q_action q c from to ev m w))),
      wall_clock = q_clock q\<rparr>"

interpretation quiet_machine: safe_callbacks "lift_quiet q"
  by unfold_locales
    (auto simp: lift_quiet_def safe_def fsm_le_def intro!: moves_change safe_intros)

section \<open>The abstract automaton\<close>

definition q_hook :: "('c, 'w) quiet \<Rightarrow> 'c option \<Rightarrow> 'c state \<Rightarrow> int \<Rightarrow> 'c fsm \<Rightarrow> 'w \<Rightarrow> 'w" where
  "q_hook q cb st ev m w = (case cb of None \<Rightarrow> w | Some c \<Rightarrow> q_state q c st ev m w)"

definition q_act :: "('c, 'w) quiet \<Rightarrow> 'c condition option \<Rightarrow> 'c state \<Rightarrow> 'c state \<Rightarrow> int \<Rightarrow> 'c fsm \<Rightarrow> 'w \<Rightarrow> 'w" where
  "q_act q cond from to ev m w =
     (case cond of None \<Rightarrow> w
      | Some c \<Rightarrow> (case cd_action c of None \<Rightarrow> w | Some a \<Rightarrow> q_action q a from to ev m w))"

definition enabled :: "('c, 'w) quiet \<Rightarrow> 'c fsm \<Rightarrow> 'w \<Rightarrow> 'c state \<Rightarrow> int \<Rightarrow> 'c target \<Rightarrow> bool" where
  "enabled q m w cur ev t =
     (case get_state m (target_id t) of
        None \<Rightarrow> False
      | Some tgt \<Rightarrow>
          (case target_cond t of
             None \<Rightarrow> True
           | Some c \<Rightarrow> (case cd_guard c of None \<Rightarrow> True | Some g \<Rightarrow> q_guard q g cur tgt ev m w)))"

definition log_entry :: "('c, 'w) quiet \<Rightarrow> int \<Rightarrow> int \<Rightarrow> int \<Rightarrow> bool \<Rightarrow> string \<Rightarrow> 'w \<Rightarrow> 'c fsm \<Rightarrow> 'c fsm" where
  "log_entry q from to ev occ desc w m = push_history (history_entry (q_clock q w) from to ev occ desc m) m"

definition automaton_stay :: "('c, 'w) quiet \<Rightarrow> 'c state \<Rightarrow> int \<Rightarrow> string \<Rightarrow> 'c fsm \<times> 'w \<Rightarrow> 'c fsm \<times> 'w" where
  "automaton_stay q cur ev desc = (\<lambda>(m, w).
     let w' = q_hook q (st_update cur) cur ev m w
     in (if record_failed m then log_entry q (current_id m) (current_id m) ev False desc w' m else m, w'))"

definition automaton_move :: "('c, 'w) quiet \<Rightarrow> 'c state \<Rightarrow> 'c state \<Rightarrow> 'c target \<Rightarrow> int \<Rightarrow> 'c fsm \<times> 'w \<Rightarrow> 'c fsm \<times> 'w" where
  "automaton_move q cur tgt t ev = (\<lambda>(m, w).
     let w1 = q_hook q (st_exit cur) cur ev m w;
         w2 = q_act q (target_cond t) cur tgt ev m w1;
         m' = m\<lparr>previous_id := current_id m, current_id := target_id t\<rparr>;
         w3 = q_hook q (st_enter tgt) tgt ev m' w2
     in (log_entry q (current_id m) (target_id t) ev True
           (case target_cond t of None \<Rightarrow> ''transition'' | Some c \<Rightarrow> cd_name c) w3 m', w3))"

definition automaton_step :: "('c, 'w) quiet \<Rightarrow> int \<Rightarrow> 'c fsm \<times> 'w \<Rightarrow> 'c fsm \<times> 'w" where
  "automaton_step q ev = (\<lambda>(m, w).
     case get_state m (current_id m) of
       None \<Rightarrow> (m, w)
     | Some cur \<Rightarrow>
         (case List.find (enabled q m w cur ev) (candidates cur ev) of
            None \<Rightarrow> automaton_stay q cur ev
              (if omap_find (transitions cur) ev = None then ''No transition'' else ''Transition blocked'') (m, w)
          | Some t \<Rightarrow>
              (case get_state m (target_id t) of
                 None \<Rightarrow> (m, w)
               | Some tgt \<Rightarrow> automaton_move q cur tgt t ev (m, w))))"

lemma lift_quiet_run:
  "call_state (lift_quiet q) cb st ev (m, w) = (Inr (), (m, q_hook q cb st ev m w))"
  "can_transition (lift_quiet q) c cur tgt ev (m, w) =
     (Inr (case cd_guard c of None \<Rightarrow> True | Some g \<Rightarrow> q_guard q g cur tgt ev m w), (m, w))"
  "execute_action (lift_quiet q) c cur tgt ev (m, w) = (Inr (), (m, q_act q (Some c) cur tgt ev m w))"
  "add_to_history (lift_quiet q) from to ev occ desc (m, w) =
     (Inr (), (log_entry q from to ev occ desc w m, w))"
  by (simp_all add: call_state_def q_hook_def can_transition_def execute_action_def q_act_def
      lift_quiet_def add_to_history_def log_entry_def split: option.split)

lemma stay_run: "stay (lift_quiet q) cur ev desc (m, w) = (Inr (), automaton_stay q cur ev desc (m, w))"
  by (simp add: stay_def on_update_def run_then_do lift_quiet_run machine_def run_only_if
      automaton_stay_def Let_def)

lemma take_transition_run:
  "take_transition (lift_quiet q) cur tgt t ev (m, w) = (Inr (), automaton_move q cur tgt t ev (m, w))"
  by (cases "target_cond t")
    (simp_all add: take_transition_def on_exit_def on_enter_def run_then_do lift_quiet_run
      update_machine_def machine_def automaton_move_def q_act_def Let_def)

lemma try_transitions_run:
  "try_transitions (lift_quiet q) cur ev ts (m, w) =
     (Inr (), case List.find (enabled q m w cur ev) ts of
        None \<Rightarrow> automaton_stay q cur ev ''Transition blocked'' (m, w)
      | Some t \<Rightarrow> (case get_state m (target_id t) of
           None \<Rightarrow> (m, w) | Some tgt \<Rightarrow> automaton_move q cur tgt t ev (m, w)))"
  by (induction ts)
    (auto simp: stay_run machine_def run_then_with enabled_def lift_quiet_run take_transition_run
      split: option.splits)

text \<open>Property C2. \<open>ProcessEvent\<close> on a started machine is the step of the automaton, for callbacks that may look at the
  machine but do not change it: of the candidates for the event in the current state, the first in the order they
  were added whose target exists and whose guard holds is taken, running exit, action and enter in
  this order, exit and action before the state changes and enter after it, and one history entry is written; with no such
  candidate the machine stays, runs only the update callback, and records the event only if asked.\<close>

theorem process_event_is_automaton_step:
  assumes "fsm_wf m" and "is_started m"
  shows "process_event (lift_quiet q) ev (m, w) = (Inr (), automaton_step q ev (m, w))"
proof -
  obtain cur where cur: "get_state m (current_id m) = Some cur"
    using fsm_wf_parts(5) [OF assms] by (auto simp: has_state_def)
  show ?thesis
    using assms(2)
    by (cases "omap_find (transitions cur) ev")
      (simp_all add: process_event_def machine_def cur stay_run try_transitions_run automaton_step_def
        candidates_def)
qed

text \<open>A machine with two states, a guarded transition between them, and a world that records the calls.\<close>

definition demo_quiet :: "(nat, nat list) quiet" where
  "demo_quiet =
     \<lparr>q_state = (\<lambda>c st ev m w. w @ [c, nat (current_id m)]), q_guard = (\<lambda>c from to ev m w. length w < c),
      q_action = (\<lambda>c from to ev m w. w @ [100 + c, nat (current_id m)]), q_clock = (\<lambda>w. int (length w))\<rparr>"

definition demo_calls :: "(nat, nat list, unit) fsm_op list" where
  "demo_calls =
     [then_with (add_state (Some (new_state ''a'' (Some 1) (Some 2) None))) (\<lambda>_. give ()),
      then_with (add_state (Some (new_state ''b'' (Some 3) None (Some 4)))) (\<lambda>_. give ()),
      add_transition_named ''a'' ''b'' 7 (Some \<lparr>cd_name = ''go'', cd_guard = Some 5, cd_action = Some 6\<rparr>),
      start_named (lift_quiet demo_quiet) ''a'']"

definition demo :: "nat fsm \<times> nat list" where
  "demo = foldl (\<lambda>s op. snd (op s)) (new_fsm 3, []) demo_calls"

theorem process_event_is_automaton_step_witness:
  "process_event (lift_quiet demo_quiet) 7 demo = (Inr (), automaton_step demo_quiet 7 demo) \<and>
   snd (automaton_step demo_quiet 7 demo) = [1, 1, 2, 1, 106, 1, 3, 2]"
proof -
  have "fsm_wf (fst demo)" "is_started (fst demo)"
    by code_simp+
  then have "process_event (lift_quiet demo_quiet) 7 (fst demo, snd demo) =
      (Inr (), automaton_step demo_quiet 7 (fst demo, snd demo))"
    by (rule process_event_is_automaton_step)
  moreover have "snd (automaton_step demo_quiet 7 demo) = [1, 1, 2, 1, 106, 1, 3, 2]"
    by code_simp
  ultimately show ?thesis
    by simp
qed

text \<open>Property C5. Any sequence of calls on a new machine, whatever its callbacks do through the machine's own
  operations, leaves it well formed: the names and ids of the states are in bijection, every
  transition has an existing target, the history is within its bound, and once the machine is
  started its current state exists and is the one \<open>GetCurrentStateName\<close>, \<open>GetStateId\<close> and
  \<open>IsInState\<close> report.\<close>

theorem fsm_calls_keep_invariant:
  assumes "\<forall>op \<in> set ops. fsm_call cbs op" and "safe_callbacks cbs"
    and "foldl (\<lambda>s op. snd (op s)) (new_fsm k, w) ops = (m, w')"
  shows "fsm_wf m \<and> (is_started m \<longrightarrow>
    (\<exists>n. get_current_state_name m = Some n \<and> get_state_id m n = Some (current_id m) \<and>
       is_in_state_named m n))"
proof -
  have wf: "fsm_wf m"
    using fsm_calls_safe [OF assms(1,2), of "(new_fsm k, w)"] by (simp add: assms(3) safe_def)
  moreover have "\<exists>n. get_current_state_name m = Some n \<and> get_state_id m n = Some (current_id m) \<and>
       is_in_state_named m n" if started: "is_started m"
  proof -
    obtain st where "get_state m (current_id m) = Some st"
      using fsm_wf_parts(5) [OF wf started] by (auto simp: has_state_def)
    with fsm_wf_state [OF wf this] show ?thesis
      by (simp add: get_current_state_name_def get_state_id_def is_in_state_named_def state_ok_def)
  qed
  ultimately show ?thesis
    by blast
qed

lemma demo_calls_ok: "\<forall>op \<in> set demo_calls. fsm_call (lift_quiet demo_quiet) op"
  by (auto simp: demo_calls_def fresh_state_def new_state_def intro: fsm_call.intros)

theorem fsm_calls_keep_invariant_witness: "fsm_wf (fst demo) \<and> get_current_state_name (fst demo) = Some ''a''"
proof -
  have "foldl (\<lambda>s op. snd (op s)) (new_fsm 3, []) demo_calls = (fst demo, snd demo)"
    by (simp add: demo_def)
  from fsm_calls_keep_invariant [OF demo_calls_ok quiet_machine.safe_callbacks_axioms this]
  have "fsm_wf (fst demo)"
    by blast
  moreover have "get_current_state_name (fst demo) = Some ''a''"
    by code_simp
  ultimately show ?thesis
    by blast
qed

text \<open>\<open>AddState\<close> under a new name gives the state a new id under which every query finds it, and leaves
  all other states, their names and transitions as they were.\<close>

theorem add_state_registers:
  assumes "fsm_wf m" and "get_state_id m (st_name st) = None"
  shows "\<exists>i m'. add_state (Some st) (m, w) = (Inr i, (m', w)) \<and> get_state m i = None \<and>
     get_state_id m' (st_name st) = Some i \<and> get_state_name m' i = Some (st_name st) \<and>
     get_state m' i = Some (st\<lparr>st_id := i\<rparr>) \<and>
     (\<forall>j. j \<noteq> i \<longrightarrow> get_state m' j = get_state m j) \<and>
     (\<forall>n. n \<noteq> st_name st \<longrightarrow> get_state_id m' n = get_state_id m n)"
proof -
  have "get_state m (state_ids m + 1) = None"
    using fsm_wf_state [OF assms(1), of "state_ids m + 1"]
    by (cases "get_state m (state_ids m + 1)") (auto simp: state_ok_def)
  with assms(2) show ?thesis
    by (auto simp: add_state_run get_state_id_def get_state_name_def get_state_def omap_find_set)
qed

theorem add_state_registers_witness:
  "\<exists>i m'. add_state (Some (new_state ''c'' None None None)) (fst demo, [] :: nat list) = (Inr i, (m', [])) \<and>
     get_state_id m' ''c'' = Some i"
proof -
  have "fsm_wf (fst demo)" "get_state_id (fst demo) (st_name (new_state ''c'' (None :: nat option) None None)) = None"
    by code_simp+
  from add_state_registers [OF this, of "[] :: nat list"] show ?thesis
    by (auto simp: new_state_def)
qed

text \<open>\<open>AddTransition\<close> appends to the candidates of exactly one state and event: they are tried in the order
  they were added, and nothing else about any state changes.\<close>

theorem add_transition_appends:
  assumes "fsm_wf m" and "get_state m from = Some f" and "has_state m to"
  shows "\<exists>m' f'. add_transition from to ev cond (m, w) = (Inr (), (m', w)) \<and>
     get_state m' from = Some f' \<and>
     candidates f' ev = candidates f ev @ [\<lparr>target_id = to, target_cond = cond\<rparr>] \<and>
     (\<forall>e. e \<noteq> ev \<longrightarrow> candidates f' e = candidates f e) \<and>
     st_name f' = st_name f \<and> st_id f' = st_id f \<and>
     (\<forall>j. j \<noteq> from \<longrightarrow> get_state m' j = get_state m j)"
proof -
  let ?t = "\<lparr>target_id = to, target_cond = cond\<rparr>"
  have id: "st_id f = from"
    using fsm_wf_state [OF assms(1,2)] by (simp add: state_ok_def)
  have "add_transition from to ev cond (m, w) = (Inr (), (put_transition f ev ?t m, w))"
    using assms(2,3) by (auto simp: add_transition_def machine_def update_machine_def has_state_def)
  moreover have "candidates (append_target ev ?t f) e =
      (if e = ev then candidates f ev @ [?t] else candidates f e)" for e
    by (simp add: candidates_def append_target_def omap_find_set)
  ultimately show ?thesis
    using assms(2) by (auto simp: put_transition_def id get_state_put)
qed

theorem add_transition_appends_witness:
  "\<exists>m' f'. add_transition 1 2 7 None (fst demo, [] :: nat list) = (Inr (), (m', [])) \<and> get_state m' 1 = Some f' \<and>
     length (candidates f' 7) = 2"
proof -
  obtain f where f: "get_state (fst demo) 1 = Some f" "length (candidates f 7) = 1"
  proof -
    have "map_option (\<lambda>f. length (candidates f 7)) (get_state (fst demo) 1) = Some 1"
      by code_simp
    then show ?thesis
      using that by auto
  qed
  have "fsm_wf (fst demo)" "has_state (fst demo) 2"
    by code_simp+
  from add_transition_appends [OF this(1) f(1) this(2), of 7 None "[] :: nat list"] f(2) show ?thesis
    by fastforce
qed

text \<open>When the enter callback of the target throws, the transition is already committed: the machine is
  in the new state, but the history has no entry for the change (the exception leaves before
  \<open>addToHistory\<close>).\<close>

theorem throwing_enter_commits_unrecorded:
  assumes "is_started m" and "get_state m (current_id m) = Some cur"
    and "omap_find (transitions cur) ev = Some (t # ts)" and "target_cond t = None"
    and "get_state m (target_id t) = Some tgt" and "st_exit cur = None" and "st_enter tgt = Some c"
    and "\<And>m'. state_cb cbs c tgt ev (m', w) = (Inl e, (m', w))"
  shows "process_event cbs ev (m, w) =
     (Inl e, (m\<lparr>previous_id := current_id m, current_id := target_id t\<rparr>, w))"
  using assms
  by (simp add: process_event_def machine_def take_transition_def on_exit_def on_enter_def
      call_state_def update_machine_def run_then_do)

definition faulty :: "(nat, unit) callbacks" where
  "faulty = \<lparr>state_cb = (\<lambda>c st ev. throw (Thrown c)), guard_cb = (\<lambda>c from to ev. give True),
     action_cb = (\<lambda>c from to ev. give ()), wall_clock = (\<lambda>w. 0)\<rparr>"

definition faulty_state :: "nat state" where
  "faulty_state = \<lparr>st_name = ''a'', st_id = 1, st_enter = Some 9, st_exit = None, st_update = None,
     transitions = [(7, [\<lparr>target_id = 1, target_cond = None\<rparr>])]\<rparr>"

definition faulty_fsm :: "nat fsm" where
  "faulty_fsm = (new_fsm 3)\<lparr>states := [(1, faulty_state)], name_to_id := [(''a'', 1)], state_ids := 1,
     current_id := 1, is_started := True\<rparr>"

theorem throwing_enter_commits_unrecorded_witness:
  "process_event faulty 7 (faulty_fsm, ()) =
     (Inl (Thrown 9), (faulty_fsm\<lparr>previous_id := 1, current_id := 1\<rparr>, ()))"
  using throwing_enter_commits_unrecorded [of faulty_fsm faulty_state 7 "\<lparr>target_id = 1, target_cond = None\<rparr>"
      "[]" faulty_state 9 faulty "()" "Thrown 9"]
  by (simp add: faulty_fsm_def faulty_state_def faulty_def get_state_def new_fsm_def)

section \<open>The history window\<close>

lemma drop_window:
  "drop (length (drop (n - k) xs @ ys) - k) (drop (n - k) xs @ ys) = drop (length (xs @ ys) - k) (xs @ ys)"
  if "length xs = n" for xs ys :: "'a list"
  using that by (cases "n \<le> k") (auto simp: drop_append add.commute)

lemma max_history_push: "max_history (fold push_history es m) = max_history m"
  by (induction es arbitrary: m) (simp_all add: push_history_def)

text \<open>However many entries are written, the history holds exactly the most recent ones, at most
  \<open>max_history_size_\<close> of them, oldest first.\<close>

theorem history_is_recent_window:
  assumes "length (history m) \<le> max_history m"
  shows "history (fold push_history es m) =
     drop (length (history m @ es) - max_history m) (history m @ es)"
  using assms
proof (induction es rule: rev_induct)
  case (snoc e es)
  let ?m = "fold push_history es m"
  have bound: "max_history ?m = max_history m"
    by (rule max_history_push)
  have "history (fold push_history (es @ [e]) m) =
      drop (length (history ?m @ [e]) - max_history m) (history ?m @ [e])"
    by (simp add: push_history_def pop_front_to_drop bound del: length_append drop_append)
  also have "\<dots> = drop (length ((history m @ es) @ [e]) - max_history m) ((history m @ es) @ [e])"
    unfolding snoc.IH [OF snoc.prems] by (rule drop_window [OF refl])
  finally show ?case
    by simp
qed simp

theorem history_is_recent_window_witness:
  "history (fold push_history
      [history_entry 1 0 0 7 True [] (new_fsm 1 :: nat fsm), history_entry 2 0 0 8 True [] (new_fsm 1 :: nat fsm)]
      (new_fsm 1 :: nat fsm)) = [history_entry 2 0 0 8 True [] (new_fsm 1 :: nat fsm)]"
  using history_is_recent_window [of "new_fsm 1 :: nat fsm"
      "[history_entry 1 0 0 7 True [] (new_fsm 1 :: nat fsm), history_entry 2 0 0 8 True [] (new_fsm 1 :: nat fsm)]"]
  by (simp add: new_fsm_def)

end
