(* ===== verification/Http_Common.thy ===== *)
theory Http_Common
  imports String_Utils Ordered_Map
begin

text \<open>
  URLs, URL encoding, forms, headers and the tables of HTTP (\<open>net/http_common.h\<close>,
  \<open>net/http_common.cc\<close>). The functions on files only call \<open>file_utils\<close>.
\<close>

section \<open>Methods, status codes\<close>

datatype http_method =
    M_get | M_post | M_put | M_delete | M_head | M_options | M_patch | M_trace | M_connect | M_any

fun http_method_to_string :: "http_method \<Rightarrow> string" where
  "http_method_to_string M_get = ''GET''"
| "http_method_to_string M_post = ''POST''"
| "http_method_to_string M_put = ''PUT''"
| "http_method_to_string M_delete = ''DELETE''"
| "http_method_to_string M_head = ''HEAD''"
| "http_method_to_string M_options = ''OPTIONS''"
| "http_method_to_string M_patch = ''PATCH''"
| "http_method_to_string M_trace = ''TRACE''"
| "http_method_to_string M_connect = ''CONNECT''"
| "http_method_to_string M_any = ''ANY''"

definition string_to_http_method :: "string \<Rightarrow> http_method" where
  "string_to_http_method method =
     (let upper_method = to_upper method in
      if upper_method = ''GET'' then M_get
      else if upper_method = ''POST'' then M_post
      else if upper_method = ''PUT'' then M_put
      else if upper_method = ''DELETE'' then M_delete
      else if upper_method = ''HEAD'' then M_head
      else if upper_method = ''OPTIONS'' then M_options
      else if upper_method = ''PATCH'' then M_patch
      else if upper_method = ''TRACE'' then M_trace
      else if upper_method = ''CONNECT'' then M_connect
      else if upper_method = ''ANY'' then M_any
      else M_get)"

definition is_valid_http_method :: "string \<Rightarrow> bool" where
  "is_valid_http_method method \<longleftrightarrow>
     method \<in> set [''GET'', ''POST'', ''PUT'', ''DELETE'', ''PATCH'', ''OPTIONS'', ''HEAD'', ''TRACE'', ''CONNECT'']"

definition get_status_message :: "int \<Rightarrow> string" where
  "get_status_message status_code =
     (case map_of [(200, ''OK''), (201, ''Created''), (204, ''No Content''), (301, ''Moved Permanently''),
         (302, ''Found''), (304, ''Not Modified''), (400, ''Bad Request''), (401, ''Unauthorized''),
         (403, ''Forbidden''), (404, ''Not Found''), (405, ''Method Not Allowed''),
         (500, ''Internal Server Error''), (501, ''Not Implemented''), (502, ''Bad Gateway''),
         (503, ''Service Unavailable'')] status_code of
        Some m \<Rightarrow> m | None \<Rightarrow> ''Unknown'')"

definition is_success_status :: "int \<Rightarrow> bool" where
  "is_success_status code \<longleftrightarrow> code \<ge> 200 \<and> code < 300"

definition is_redirect_status :: "int \<Rightarrow> bool" where
  "is_redirect_status code \<longleftrightarrow> code \<ge> 300 \<and> code < 400"

definition is_error_status :: "int \<Rightarrow> bool" where
  "is_error_status code \<longleftrightarrow> code \<ge> 400"

abbreviation cr :: char where "cr \<equiv> CHR 0x0D"
abbreviation lf :: char where "lf \<equiv> CHR 0x0A"

definition crlf :: string where
  "crlf = [cr, lf]"

section \<open>Encoding and decoding\<close>

definition is_alnum :: "char \<Rightarrow> bool" where
  "is_alnum c \<longleftrightarrow> is_digit_of 36 c"

definition is_unreserved :: "char \<Rightarrow> bool" where
  "is_unreserved c \<longleftrightarrow> is_alnum c \<or> c \<in> set ''-_.~''"

definition upper_hex2 :: "char \<Rightarrow> string" where
  "upper_hex2 c = map uppercase [xdigit_char (ch c div 16), xdigit_char (ch c mod 16)]"

definition url_encode :: "string \<Rightarrow> string" where
  "url_encode str = concat (map (\<lambda>c. if is_unreserved c then [c] else CHR ''%'' # upper_hex2 c) str)"

fun url_decode :: "string \<Rightarrow> string" where
  "url_decode [] = []"
| "url_decode (c # cs) =
     (if c = CHR ''%'' then
        (case cs of
           a # b # rest \<Rightarrow>
             (case string_to_uint32 [a, b] 16 of
                Some d \<Rightarrow> if d \<le> 0xFF then char_of (unat d) # url_decode rest else c # url_decode cs
              | None \<Rightarrow> c # url_decode cs)
         | _ \<Rightarrow> c # url_decode cs)
      else if c = CHR ''+'' then CHR '' '' # url_decode cs
      else c # url_decode cs)"

text \<open>\<open>std::getline\<close> over a whole stream: no piece follows a delimiter at the end.\<close>

function getlines :: "char \<Rightarrow> string \<Rightarrow> string list" where
  "getlines d s =
     (if s = [] then []
      else takeWhile (\<lambda>c. c \<noteq> d) s # getlines d (tl (dropWhile (\<lambda>c. c \<noteq> d) s)))"
  by pat_completeness auto
termination
proof (relation "measure (\<lambda>(d, s). length s)")
  fix d :: char and s :: string
  assume s: "s \<noteq> []"
  have "length (tl (dropWhile (\<lambda>c. c \<noteq> d) s)) \<le> length s - 1"
    using length_dropWhile_le [of "\<lambda>c. c \<noteq> d" s] by simp
  also have "\<dots> < length s" using s by (cases s) simp_all
  finally show "((d, tl (dropWhile (\<lambda>c. c \<noteq> d) s)), d, s) \<in> measure (\<lambda>(d, s). length s)"
    by simp
qed simp

declare getlines.simps [simp del]

definition split_pair :: "string \<Rightarrow> (string \<times> string) option" where
  "split_pair pair =
     (case find_sub ''='' pair of
        None \<Rightarrow> None
      | Some eq_pos \<Rightarrow> Some (take eq_pos pair, drop (eq_pos + 1) pair))"

definition form_data_encode :: "(string, string) omap \<Rightarrow> string" where
  "form_data_encode data =
     join_strings (map (\<lambda>(k, v). url_encode k @ ''='' @ url_encode v) data) ''&''"

definition form_data_step :: "string \<Rightarrow> (string, string) omap \<Rightarrow> (string, string) omap" where
  "form_data_step pair result =
     (case split_pair pair of
        None \<Rightarrow> result
      | Some (k, v) \<Rightarrow> omap_set (url_decode k) (url_decode v) result)"

definition parse_form_data :: "string \<Rightarrow> (string, string) omap" where
  "parse_form_data form_data = fold form_data_step (getlines CHR ''&'' form_data) []"

fun escape_char :: "char \<Rightarrow> string" where
  "escape_char c =
     (if c = CHR ''<'' then ''&lt;'' else if c = CHR ''>'' then ''&gt;'' else if c = CHR ''&'' then ''&amp;''
      else if c = CHR 0x22 then ''&quot;'' else if c = CHR 0x27 then ''&#39;'' else [c])"

definition escape_html :: "string \<Rightarrow> string" where
  "escape_html text = concat (map escape_char text)"

section \<open>Headers\<close>

record http_header =
  h_name :: string
  h_value :: string

type_synonym http_headers = "http_header list"

definition header :: "string \<Rightarrow> string \<Rightarrow> http_header" where
  "header n v = \<lparr>h_name = n, h_value = v\<rparr>"

definition find_header :: "http_headers \<Rightarrow> string \<Rightarrow> http_header option" where
  "find_header headers name = List.find (\<lambda>h. case_insensitive_equal (h_name h) name) headers"

definition get_header_value :: "http_headers \<Rightarrow> string \<Rightarrow> string" where
  "get_header_value headers name =
     (case find_header headers name of None \<Rightarrow> [] | Some h \<Rightarrow> h_value h)"

definition has_header :: "http_headers \<Rightarrow> string \<Rightarrow> bool" where
  "has_header headers name \<longleftrightarrow> find_header headers name \<noteq> None"

fun add_header :: "http_headers \<Rightarrow> string \<Rightarrow> string \<Rightarrow> http_headers" where
  "add_header [] name v = [header name v]"
| "add_header (h # hs) name v =
     (if case_insensitive_equal (h_name h) name then h\<lparr>h_value := v\<rparr> # hs else h # add_header hs name v)"

section \<open>MIME types\<close>

definition mime_types :: "(string \<times> string) list" where
  "mime_types =
     [(''.html'', ''text/html''), (''.htm'', ''text/html''), (''.css'', ''text/css''),
      (''.js'', ''application/javascript''), (''.json'', ''application/json''), (''.txt'', ''text/plain''),
      (''.xml'', ''application/xml''), (''.png'', ''image/png''), (''.jpg'', ''image/jpeg''),
      (''.jpeg'', ''image/jpeg''), (''.gif'', ''image/gif''), (''.svg'', ''image/svg+xml''),
      (''.ico'', ''image/x-icon''), (''.bmp'', ''image/bmp''), (''.webp'', ''image/webp''),
      (''.pdf'', ''application/pdf''), (''.zip'', ''application/zip''), (''.gz'', ''application/gzip''),
      (''.tar'', ''application/x-tar''), (''.mp3'', ''audio/mpeg''), (''.mp4'', ''video/mp4''),
      (''.avi'', ''video/x-msvideo''), (''.mov'', ''video/quicktime''), (''.doc'', ''application/msword''),
      (''.docx'', ''application/vnd.openxmlformats-officedocument.wordprocessingml.document''),
      (''.xls'', ''application/vnd.ms-excel''),
      (''.xlsx'', ''application/vnd.openxmlformats-officedocument.spreadsheetml.sheet''),
      (''.ppt'', ''application/vnd.ms-powerpoint''),
      (''.pptx'', ''application/vnd.openxmlformats-officedocument.presentationml.presentation'')]"

definition get_mime_type :: "string \<Rightarrow> string" where
  "get_mime_type ext =
     (case map_of mime_types ext of Some t \<Rightarrow> t | None \<Rightarrow> ''application/octet-stream'')"

section \<open>URLs\<close>

record http_url =
  u_scheme :: string
  u_host :: string
  u_port :: u16
  u_path :: string
  u_query :: string
  u_fragment :: string

definition empty_url :: http_url where
  "empty_url = \<lparr>u_scheme = [], u_host = [], u_port = 0, u_path = [], u_query = [], u_fragment = []\<rparr>"

definition is_https :: "http_url \<Rightarrow> bool" where
  "is_https u \<longleftrightarrow> u_scheme u = ''https'' \<or> u_scheme u = ''wss''"

definition is_valid_url :: "http_url \<Rightarrow> bool" where
  "is_valid_url u \<longleftrightarrow> u_host u \<noteq> [] \<and> u_scheme u \<noteq> []"

definition is_same_host :: "http_url \<Rightarrow> http_url \<Rightarrow> bool" where
  "is_same_host u v \<longleftrightarrow> u_host u = u_host v \<and> u_port u = u_port v"

definition get_default_port :: "http_url \<Rightarrow> u16" where
  "get_default_port u = (if is_https u then 443 else 80)"

definition base_url :: "http_url \<Rightarrow> http_url" where
  "base_url u = u\<lparr>u_path := ''/'', u_query := [], u_fragment := []\<rparr>"

text \<open>\<open>find(c, pos)\<close> and \<open>rfind(c)\<close>; \<open>npos\<close> is larger than any position.\<close>

definition find_from :: "string \<Rightarrow> string \<Rightarrow> nat \<Rightarrow> nat option" where
  "find_from s needle pos = map_option (\<lambda>i. i + pos) (find_sub needle (drop pos s))"

definition rfind_char :: "string \<Rightarrow> char \<Rightarrow> nat option" where
  "rfind_char s c = map_option (\<lambda>i. length s - 1 - i) (find_sub [c] (rev s))"

fun min_pos :: "nat option list \<Rightarrow> nat \<Rightarrow> nat" where
  "min_pos [] len = len"
| "min_pos (None # ps) len = min_pos ps len"
| "min_pos (Some p # ps) len = min p (min_pos ps len)"

definition substr :: "string \<Rightarrow> nat \<Rightarrow> nat \<Rightarrow> string" where
  "substr s pos n = take n (drop pos s)"

definition char_at :: "string \<Rightarrow> nat \<Rightarrow> char \<Rightarrow> bool" where
  "char_at s pos c \<longleftrightarrow> pos < length s \<and> s ! pos = c"

text \<open>The part before the first of the path, the query and the fragment; \<open>None\<close> for a bad port.\<close>

definition parse_host_port :: "string \<Rightarrow> http_url \<Rightarrow> http_url option" where
  "parse_host_port host_port u =
     (case rfind_char host_port CHR '':'' of
        Some colon_pos \<Rightarrow>
          if colon_pos < length host_port - 1 then
            (case string_to_uint32 (drop (colon_pos + 1) host_port) 10 of
               Some p \<Rightarrow> if p > 65535 then None
                         else Some (u\<lparr>u_host := take colon_pos host_port, u_port := ucast p\<rparr>)
             | None \<Rightarrow> None)
          else Some (u\<lparr>u_host := host_port, u_port := get_default_port u\<rparr>)
      | None \<Rightarrow> Some (u\<lparr>u_host := host_port, u_port := get_default_port u\<rparr>))"

definition parse_url :: "string \<Rightarrow> http_url" where
  "parse_url url =
     (case find_from url ''://'' 0 of
        None \<Rightarrow> empty_url
      | Some scheme_end \<Rightarrow>
          let pos = scheme_end + 3;
              path_start = find_from url ''/'' pos;
              query_start = find_from url ''?'' pos;
              fragment_start = find_from url ''#'' pos;
              host_end = min_pos [path_start, query_start, fragment_start] (length url)
          in case parse_host_port (substr url pos (host_end - pos)) (empty_url\<lparr>u_scheme := take scheme_end url\<rparr>) of
               None \<Rightarrow> empty_url
             | Some u1 \<Rightarrow>
                 let path_end = min_pos [query_start, fragment_start] (length url);
                     (u2, pos2) = (if char_at url host_end CHR ''/''
                                   then (u1\<lparr>u_path := substr url host_end (path_end - host_end)\<rparr>, path_end)
                                   else (u1\<lparr>u_path := ''/''\<rparr>, host_end));
                     query_end = min_pos [fragment_start] (length url);
                     (u3, pos3) = (if char_at url pos2 CHR ''?''
                                   then (u2\<lparr>u_query := substr url (pos2 + 1) (query_end - (pos2 + 1))\<rparr>, query_end)
                                   else (u2, pos2))
                 in if char_at url pos3 CHR ''#'' then u3\<lparr>u_fragment := drop (pos3 + 1) url\<rparr> else u3)"

definition url_to_string :: "http_url \<Rightarrow> string" where
  "url_to_string u =
     u_scheme u @ ''://'' @ u_host u @
     (if u_port u \<noteq> get_default_port u then '':'' @ show_nat (unat (u_port u)) else []) @
     u_path u @
     (if u_query u \<noteq> [] then ''?'' @ u_query u else []) @
     (if u_fragment u \<noteq> [] then ''#'' @ u_fragment u else [])"

end
