(* ===== verification/Sha1.thy ===== *)
theory Sha1
  imports Prelude
begin

text \<open>
  SHA-1: \<open>src/utils/sha1.cc\<close>.

  \<open>sha\<close> is the state of \<open>SecureHashAlgorithm\<close>: the chaining value \<open>H\<close>, the 64-byte view \<open>M\<close>
  of the union, the cursor and the bit count. \<open>W[0..15]\<close> are the same memory as \<open>M\<close>, so
  \<open>Process\<close> reads them as host words, byte-swaps them in place and leaves the swapped bytes
  in \<open>M\<close>. The host is little-endian, as the unconditional \<open>BSwap32\<close> requires. The registers
  \<open>A\<close> .. \<open>E\<close> are written before they are read in every \<open>Process\<close> and are local here.

  The specification, after FIPS 180, pads the whole message and folds the compression
  function over its 64-byte blocks; the incremental code computes the same digest.
\<close>

type_synonym chain = "u32 \<times> u32 \<times> u32 \<times> u32 \<times> u32"

record sha =
  sha_H :: chain
  sha_M :: "byte list"
  sha_cursor :: nat
  sha_l :: u64

definition b_swap32 :: "u32 \<Rightarrow> u32" where
  "b_swap32 x = le_word (rev (le_bytes 4 x))"

definition sha_f :: "nat \<Rightarrow> u32 \<Rightarrow> u32 \<Rightarrow> u32 \<Rightarrow> u32" where
  "sha_f t b c d =
     (if t < 20 then (b AND c) OR (NOT b AND d)
      else if t < 40 then b XOR c XOR d
      else if t < 60 then (b AND c) OR (b AND d) OR (c AND d)
      else b XOR c XOR d)"

definition sha_S :: "nat \<Rightarrow> u32 \<Rightarrow> u32" where
  "sha_S n x = push_bit n x OR drop_bit (32 - n) x"

definition sha_K :: "nat \<Rightarrow> u32" where
  "sha_K t =
     (if t < 20 then 0x5a827999
      else if t < 40 then 0x6ed9eba1
      else if t < 60 then 0x8f1bbcdc
      else 0xca62c1d6)"

definition sha_iv :: chain where
  "sha_iv = (0x67452301, 0xefcdab89, 0x98badcfe, 0x10325476, 0xc3d2e1f0)"

definition sha_init :: sha where
  "sha_init = \<lparr>sha_H = sha_iv, sha_M = replicate 64 0, sha_cursor = 0, sha_l = 0\<rparr>"

text \<open>Step b: the words 16 .. 79, each from four earlier ones.\<close>

fun expand_from :: "nat \<Rightarrow> u32 list \<Rightarrow> u32 list" where
  "expand_from 0 ws = ws"
| "expand_from (Suc n) ws =
     (let t = length ws in
      expand_from n
        (ws @ [sha_S 1 (ws ! (t - 3) XOR ws ! (t - 8) XOR ws ! (t - 14) XOR ws ! (t - 16))]))"

text \<open>Step d: one round.\<close>

definition sha_round :: "u32 list \<Rightarrow> nat \<Rightarrow> chain \<Rightarrow> chain" where
  "sha_round ws t = (\<lambda>(a, b, c, d, e).
     (sha_S 5 a + sha_f t b c d + e + ws ! t + sha_K t, a, sha_S 30 b, c, d))"

definition chain_add :: "chain \<Rightarrow> chain \<Rightarrow> chain" where
  "chain_add = (\<lambda>(h0, h1, h2, h3, h4) (a, b, c, d, e). (h0 + a, h1 + b, h2 + c, h3 + d, h4 + e))"

fun host_words :: "byte list \<Rightarrow> u32 list" where
  "host_words (a # b # c # d # bs) = le_word [a, b, c, d] # host_words bs"
| "host_words _ = []"

definition sha_process :: "sha \<Rightarrow> sha" where
  "sha_process s =
     (let w16 = map b_swap32 (host_words (sha_M s));
          w = expand_from 64 w16
      in s\<lparr>sha_H := chain_add (sha_H s) (fold (sha_round w) [0..<80] (sha_H s)),
           sha_M := concat (map (le_bytes 4) w16),
           sha_cursor := 0\<rparr>)"

definition sha_put :: "byte \<Rightarrow> sha \<Rightarrow> sha" where
  "sha_put b s = s\<lparr>sha_M := (sha_M s)[sha_cursor s := b], sha_cursor := Suc (sha_cursor s)\<rparr>"

definition sha_update_byte :: "byte \<Rightarrow> sha \<Rightarrow> sha" where
  "sha_update_byte b s =
     (let s1 = sha_put b s;
          s2 = (if sha_cursor s1 \<ge> 64 then sha_process s1 else s1)
      in s2\<lparr>sha_l := sha_l s2 + 8\<rparr>)"

definition sha_update :: "byte list \<Rightarrow> sha \<Rightarrow> sha" where
  "sha_update bs s = fold sha_update_byte bs s"

text \<open>The two zero-filling loops of \<open>Pad\<close>: up to the cursor value \<open>n\<close>.\<close>

definition sha_fill :: "nat \<Rightarrow> sha \<Rightarrow> sha" where
  "sha_fill n s = fold sha_put (replicate (n - sha_cursor s) 0) s"

definition sha_pad :: "sha \<Rightarrow> sha" where
  "sha_pad s =
     (let s1 = sha_put 0x80 s;
          s2 = (if sha_cursor s1 > 56 then sha_process (sha_fill 64 s1) else s1);
          s3 = sha_fill 56 s2;
          l = sha_l s3
      in fold sha_put
           [ucast (drop_bit 56 l), ucast (drop_bit 48 l), ucast (drop_bit 40 l),
            ucast (drop_bit 32 l), ucast (drop_bit 24 l), ucast (drop_bit 16 l),
            ucast (drop_bit 8 l), ucast l] s3)"

definition sha_final :: "sha \<Rightarrow> sha" where
  "sha_final s =
     (let s' = sha_process (sha_pad s);
          (h0, h1, h2, h3, h4) = sha_H s'
      in s'\<lparr>sha_H := (b_swap32 h0, b_swap32 h1, b_swap32 h2, b_swap32 h3, b_swap32 h4)\<rparr>)"

definition sha_digest :: "sha \<Rightarrow> byte list" where
  "sha_digest s =
     (let (h0, h1, h2, h3, h4) = sha_H s in concat (map (le_bytes 4) [h0, h1, h2, h3, h4]))"

definition sha1_hash :: "byte list \<Rightarrow> byte list" where
  "sha1_hash data = sha_digest (sha_final (sha_update data sha_init))"

section \<open>Specification\<close>

definition be_bytes :: "nat \<Rightarrow> 'a::len word \<Rightarrow> byte list" where
  "be_bytes n w = rev (le_bytes n w)"

fun be_words :: "byte list \<Rightarrow> u32 list" where
  "be_words (a # b # c # d # bs) = le_word [d, c, b, a] # be_words bs"
| "be_words _ = []"

definition compress :: "chain \<Rightarrow> byte list \<Rightarrow> chain" where
  "compress h block =
     chain_add h (fold (sha_round (expand_from 64 (be_words block))) [0..<80] h)"

function blocks_fold :: "chain \<Rightarrow> byte list \<Rightarrow> chain" where
  "blocks_fold h bs =
     (if length bs < 64 then h else blocks_fold (compress h (take 64 bs)) (drop 64 bs))"
  by pat_completeness auto
termination
  by (relation "measure (\<lambda>(h, bs). length bs)") auto

declare blocks_fold.simps [simp del]

text \<open>The padding of FIPS 180: a one bit, zeros up to 56 modulo 64 bytes, the length in bits.\<close>

definition padding :: "nat \<Rightarrow> byte list" where
  "padding n = 0x80 # replicate ((119 - n mod 64) mod 64) 0 @ be_bytes 8 (of_nat (8 * n) :: u64)"

definition sha1_spec :: "byte list \<Rightarrow> byte list" where
  "sha1_spec data =
     (let (h0, h1, h2, h3, h4) = blocks_fold sha_iv (data @ padding (length data))
      in concat (map (be_bytes 4) [h0, h1, h2, h3, h4]))"


section \<open>The incremental code absorbs blocks\<close>

text \<open>A byte stored, with the block processed when it is full: the body of \<open>Update\<close>'s loop.\<close>

definition sha_absorb :: "byte \<Rightarrow> sha \<Rightarrow> sha" where
  "sha_absorb b s =
     (let s1 = sha_put b s in if sha_cursor s1 \<ge> 64 then sha_process s1 else s1)"

definition tail64 :: "byte list \<Rightarrow> byte list" where
  "tail64 p = drop (64 * (length p div 64)) p"

definition sha_rep :: "byte list \<Rightarrow> sha \<Rightarrow> bool" where
  "sha_rep p s \<longleftrightarrow> length (sha_M s) = 64 \<and> sha_cursor s = length p mod 64 \<and>
     take (sha_cursor s) (sha_M s) = tail64 p \<and> sha_H s = blocks_fold sha_iv p"

lemma b_swap32_le_word: "b_swap32 (le_word [a, b, c, d]) = le_word [d, c, b, a]"
proof -
  have "le_bytes 4 (le_word [a, b, c, d] :: u32) = [a, b, c, d]"
    by (rule le_bytes_le_word) simp_all
  then show ?thesis
    by (simp only: b_swap32_def) simp
qed

lemma be_words_eq: "map b_swap32 (host_words bs) = be_words bs"
  by (induction bs rule: be_words.induct) (simp_all add: b_swap32_le_word del: le_word.simps)

lemma length_be_words: "length (be_words bs) = length bs div 4"
  by (induction bs rule: be_words.induct) auto

lemma length_concat_le_bytes: "length (concat (map (le_bytes 4) ws)) = 4 * length ws"
  by (induction ws) auto

lemma sha_process_simps [simp]:
  "sha_H (sha_process s) = compress (sha_H s) (sha_M s)"
  "sha_cursor (sha_process s) = 0" "sha_l (sha_process s) = sha_l s"
  "length (sha_M (sha_process s)) = 4 * (length (sha_M s) div 4)"
  by (simp_all add: sha_process_def compress_def Let_def be_words_eq length_concat_le_bytes
      length_be_words)

lemma sha_put_simps [simp]:
  "sha_H (sha_put b s) = sha_H s" "sha_cursor (sha_put b s) = Suc (sha_cursor s)"
  "sha_l (sha_put b s) = sha_l s" "sha_M (sha_put b s) = (sha_M s)[sha_cursor s := b]"
  by (simp_all add: sha_put_def)

lemma blocks_fold_short: "length bs < 64 \<Longrightarrow> blocks_fold h bs = h"
  by (simp add: blocks_fold.simps)

lemma blocks_fold_append:
  "length a = 64 * k \<Longrightarrow> blocks_fold h (a @ b) = blocks_fold (blocks_fold h a) b"
proof (induction k arbitrary: h a)
  case 0
  then show ?case by (simp add: blocks_fold_short)
next
  case (Suc k)
  have "blocks_fold h (a @ b) = blocks_fold (compress h (take 64 a)) (drop 64 a @ b)"
    using Suc.prems by (subst blocks_fold.simps) simp
  also have "\<dots> = blocks_fold (blocks_fold (compress h (take 64 a)) (drop 64 a)) b"
    using Suc.prems by (intro Suc.IH) simp
  also have "blocks_fold (compress h (take 64 a)) (drop 64 a) = blocks_fold h a"
    using Suc.prems by (subst (2) blocks_fold.simps) simp
  finally show ?case .
qed

lemma blocks_fold_split:
  "blocks_fold h (p @ q) = blocks_fold (blocks_fold h p) (tail64 p @ q)"
proof -
  let ?k = "64 * (length p div 64)"
  have len: "length (take ?k p) = 64 * (length p div 64)"
    by (simp add: min.absorb2)
  have eq: "blocks_fold h (p @ r) = blocks_fold (blocks_fold h (take ?k p)) (tail64 p @ r)" for r
    using blocks_fold_append [OF len, of h "tail64 p @ r"]
    by (simp add: tail64_def flip: append_assoc)
  have "length (tail64 p) < 64"
    by (simp add: tail64_def)
  with eq [of "[]"] have "blocks_fold h p = blocks_fold h (take ?k p)"
    by (simp add: blocks_fold_short)
  with eq [of q] show ?thesis by simp
qed

lemma length_tail64 [simp]: "length (tail64 p) = length p mod 64"
  by (simp add: tail64_def minus_mult_div_eq_mod)

lemma tail64_snoc: "tail64 (p @ [b]) = (if length p mod 64 = 63 then [] else tail64 p @ [b])"
proof -
  have "Suc (length p) div 64 = (if length p mod 64 = 63 then Suc (length p div 64) else length p div 64)"
    by (simp add: div_Suc mod_Suc)
  moreover have "64 * Suc (length p div 64) = Suc (length p)" if "length p mod 64 = 63"
    using that mult_div_mod_eq [of 64 "length p"] by simp
  moreover have "64 * (length p div 64) \<le> length p"
    by simp
  ultimately show ?thesis
    by (auto simp: tail64_def)
qed

lemma blocks_fold_snoc:
  "blocks_fold h (p @ [b]) =
     (if length p mod 64 = 63 then compress (blocks_fold h p) (tail64 p @ [b]) else blocks_fold h p)"
proof -
  have "blocks_fold h (p @ [b]) = blocks_fold (blocks_fold h p) (tail64 p @ [b])"
    by (rule blocks_fold_split)
  also have "\<dots> = (if length p mod 64 = 63 then compress (blocks_fold h p) (tail64 p @ [b])
      else blocks_fold h p)"
    by (subst blocks_fold.simps) (auto simp: blocks_fold_short less_Suc_eq
        intro: order.strict_trans1 dest: mod_less_divisor)
  finally show ?thesis .
qed

lemma sha_absorb_rep:
  assumes "sha_rep p s"
  shows "sha_rep (p @ [b]) (sha_absorb b s)"
proof -
  let ?c = "length p mod 64"
  have c: "sha_cursor s = ?c" and m: "length (sha_M s) = 64" and
    tk: "take ?c (sha_M s) = tail64 p" and h: "sha_H s = blocks_fold sha_iv p"
    using assms by (auto simp: sha_rep_def)
  have lt: "?c < 64" by simp
  have put: "take (Suc ?c) ((sha_M s)[?c := b]) = tail64 p @ [b]"
    using lt m tk by (simp add: take_Suc_conv_app_nth)
  show ?thesis
  proof (cases "?c = 63")
    case True
    then have "(sha_M s)[63 := b] = tail64 p @ [b]"
      using put m by simp
    with True c m h show ?thesis
      by (simp add: sha_rep_def sha_absorb_def blocks_fold_snoc tail64_snoc mod_Suc)
  next
    case False
    then have "Suc ?c < 64" using lt by simp
    with False c m h put show ?thesis
      by (simp add: sha_rep_def sha_absorb_def blocks_fold_snoc tail64_snoc mod_Suc)
  qed
qed

lemma fold_absorb_rep: "sha_rep p s \<Longrightarrow> sha_rep (p @ bs) (fold sha_absorb bs s)"
proof (induction bs arbitrary: p s)
  case Nil
  then show ?case by simp
next
  case (Cons b bs)
  from Cons.IH [OF sha_absorb_rep [OF Cons.prems]] show ?case by simp
qed

lemma fold_put_absorb:
  "sha_cursor s + length bs < 64 \<Longrightarrow> fold sha_put bs s = fold sha_absorb bs s"
  by (induction bs arbitrary: s) (auto simp: sha_absorb_def)

lemma process_fold_put:
  assumes "sha_cursor s + length bs = 64" and "bs \<noteq> []"
  shows "sha_process (fold sha_put bs s) = fold sha_absorb bs s"
  using assms
proof (induction bs arbitrary: s)
  case Nil
  then show ?case by simp
next
  case (Cons b bs)
  show ?case
  proof (cases "bs = []")
    case True
    with Cons.prems show ?thesis by (simp add: sha_absorb_def)
  next
    case False
    then have "Suc (sha_cursor s) < 64"
      using Cons.prems by (cases bs) auto
    then have "sha_absorb b s = sha_put b s"
      by (simp add: sha_absorb_def)
    with Cons False show ?thesis by simp
  qed
qed

lemma sha_update_byte_absorb:
  "sha_update_byte b s = (sha_absorb b s)\<lparr>sha_l := sha_l s + 8\<rparr>"
  by (simp add: sha_update_byte_def sha_absorb_def Let_def)

lemma sha_rep_l [simp]: "sha_rep p (s\<lparr>sha_l := n\<rparr>) = sha_rep p s"
  by (simp add: sha_rep_def)

lemma sha_update_rep:
  "sha_rep p s \<Longrightarrow> sha_rep (p @ bs) (sha_update bs s) \<and>
     sha_l (sha_update bs s) = sha_l s + of_nat (8 * length bs)"
proof (induction bs arbitrary: p s)
  case Nil
  then show ?case by (simp add: sha_update_def)
next
  case (Cons b bs)
  have "sha_rep (p @ [b]) (sha_update_byte b s)"
    by (simp add: sha_update_byte_absorb sha_absorb_rep Cons.prems)
  from Cons.IH [OF this] show ?case
    by (simp add: sha_update_def sha_update_byte_absorb)
qed


section \<open>Final computes the specified digest\<close>

definition length_bytes :: "u64 \<Rightarrow> byte list" where
  "length_bytes l =
     [ucast (drop_bit 56 l), ucast (drop_bit 48 l), ucast (drop_bit 40 l), ucast (drop_bit 32 l),
      ucast (drop_bit 24 l), ucast (drop_bit 16 l), ucast (drop_bit 8 l), ucast l]"

lemma length_bytes_be: "length_bytes l = be_bytes 8 l"
  by (simp add: length_bytes_def be_bytes_def le_bytes_numeral drop_bit_drop_bit)

lemma length_length_bytes [simp]: "length (length_bytes l) = 8" "length_bytes l \<noteq> []"
  by (simp_all add: length_bytes_def)

lemma sha_l_fold_put [simp]: "sha_l (fold sha_put bs s) = sha_l s"
  by (induction bs arbitrary: s) auto

lemma sha_cursor_fold_put [simp]: "sha_cursor (fold sha_put bs s) = sha_cursor s + length bs"
  by (induction bs arbitrary: s) auto

lemma sha_fill_simps [simp]:
  "sha_l (sha_fill n s) = sha_l s" "sha_cursor (sha_fill n s) = max n (sha_cursor s)"
  by (simp_all add: sha_fill_def del: fold_replicate)

lemma sha_pad_eq:
  "sha_pad s =
     (let s1 = sha_put 0x80 s;
          s2 = (if sha_cursor s1 > 56 then sha_process (sha_fill 64 s1) else s1)
      in fold sha_put (length_bytes (sha_l s)) (sha_fill 56 s2))"
proof -
  have l: "sha_l (sha_fill 56 (if b then sha_process (sha_fill 64 (sha_put 0x80 s)) else sha_put 0x80 s))
      = sha_l s" for b
    by simp
  show ?thesis
    unfolding sha_pad_def Let_def l length_bytes_def ..
qed

lemma sha_process_pad:
  assumes "sha_cursor s < 64"
  shows "sha_process (sha_pad s) = fold sha_absorb
    (0x80 # replicate ((119 - sha_cursor s) mod 64) 0 @ length_bytes (sha_l s)) s"
proof (cases "sha_cursor s < 56")
  case True
  let ?bs = "0x80 # replicate (55 - sha_cursor s) 0 @ length_bytes (sha_l s)"
  have "sha_pad s = fold sha_put ?bs s"
    using True by (simp add: sha_pad_eq sha_fill_def del: fold_replicate)
  moreover have "(119 - sha_cursor s) mod 64 = 55 - sha_cursor s"
    using True by (simp add: mod_if)
  moreover have "sha_process (fold sha_put ?bs s) = fold sha_absorb ?bs s"
    using True by (intro process_fold_put) simp_all
  ultimately show ?thesis by simp
next
  case False
  let ?z = "63 - sha_cursor s"
  let ?s2 = "fold sha_absorb (0x80 # replicate ?z 0) s"
  have "sha_process (fold sha_put (0x80 # replicate ?z 0) s) = ?s2"
    using assms by (intro process_fold_put) simp_all
  then have s2: "sha_process (sha_fill 64 (sha_put 0x80 s)) = ?s2"
    by (simp add: sha_fill_def del: fold_replicate)
  have cur: "sha_cursor ?s2 = 0" "sha_l ?s2 = sha_l s"
    by (simp_all only: s2 [symmetric] sha_process_simps sha_fill_simps sha_put_simps)
  let ?bs = "replicate 56 0 @ length_bytes (sha_l s)"
  have "sha_pad s = fold sha_put ?bs ?s2"
    unfolding sha_pad_eq Let_def using False cur(1) s2
    by (simp add: sha_fill_def [of 56] del: fold_replicate fold_Cons fold_simps)
  moreover have "sha_process (fold sha_put ?bs ?s2) = fold sha_absorb ?bs ?s2"
    using cur by (intro process_fold_put) simp_all
  moreover have "replicate ((119 - sha_cursor s) mod 64) (0 :: byte) = replicate ?z 0 @ replicate 56 0"
    using False assms by (simp add: mod_if flip: replicate_add)
  ultimately show ?thesis
    by (simp del: fold_replicate)
qed

lemma sha_final_rep:
  assumes "sha_rep p s" and "sha_l s = of_nat (8 * length p)"
  shows "sha_digest (sha_final s) = sha1_spec p"
proof -
  have c: "sha_cursor s = length p mod 64"
    using assms(1) by (simp add: sha_rep_def)
  have "sha_process (sha_pad s) = fold sha_absorb (padding (length p)) s"
    by (subst sha_process_pad) (simp_all add: c assms(2) padding_def length_bytes_be)
  then have "sha_H (sha_process (sha_pad s)) = blocks_fold sha_iv (p @ padding (length p))"
    using fold_absorb_rep [OF assms(1)] by (simp add: sha_rep_def)
  moreover have "le_bytes 4 (b_swap32 h) = be_bytes 4 h" for h
    by (simp add: b_swap32_def be_bytes_def le_bytes_le_word)
  ultimately show ?thesis
    by (simp add: sha_digest_def sha_final_def sha1_spec_def Let_def split: prod.splits)
qed

lemma sha_update_spec: "sha_digest (sha_final (sha_update data sha_init)) = sha1_spec data"
proof -
  have "sha_rep [] sha_init"
    by (simp add: sha_rep_def sha_init_def tail64_def blocks_fold_short)
  from sha_update_rep [OF this, of data] show ?thesis
    by (simp add: sha_final_rep sha_init_def)
qed

lemma sha1_hash_spec: "sha1_hash data = sha1_spec data"
  by (simp add: sha1_hash_def sha_update_spec)

section \<open>Properties\<close>

text \<open>Property C3. The byte-at-a-time implementation computes the SHA-1 specification: for every message, and
  however it is split over calls of \<open>Update\<close>, the digest is that of the FIPS 180 padding folded
  block by block.\<close>

theorem sha1_refines_spec:
  "sha_digest (sha_final (fold sha_update chunks sha_init)) = sha1_spec (concat chunks)"
proof -
  have "fold sha_update cs s = sha_update (concat cs) s" for cs s
    by (induction cs arbitrary: s) (simp_all add: sha_update_def)
  then show ?thesis
    by (simp add: sha_update_spec)
qed

end
