(* ===== verification/Web_Socket.thy ===== *)
theory Web_Socket
  imports Byte_IO Base64 Sha1
begin

text \<open>
  WebSocket framing: \<open>include/xtils/net/websocket_common.h\<close> and
  \<open>src/net/websocket_common.cc\<close>.

  An opcode is the byte behind the \<open>enum class : uint8_t\<close>, so that values outside the
  enumeration are representable, as they are after the cast in \<open>ParseFrame\<close>. The byte-order
  helpers swap unconditionally, as in the source: the host is little-endian. A randomly
  generated masking key is the argument \<open>random_key\<close>.
\<close>

section \<open>Constants\<close>

definition k_continuation :: byte where "k_continuation = 0x0"
definition k_text :: byte where "k_text = 0x1"
definition k_binary :: byte where "k_binary = 0x2"
definition k_close :: byte where "k_close = 0x8"
definition k_ping :: byte where "k_ping = 0x9"
definition k_pong :: byte where "k_pong = 0xA"

lemmas opcode_defs = k_continuation_def k_text_def k_binary_def k_close_def k_ping_def k_pong_def

definition k_web_socket_guid :: string where
  "k_web_socket_guid = ''258EAFA5-E914-47DA-95CA-C5AB0DC85B11''"

definition k_max_frame_size :: nat where
  "k_max_frame_size = 1024 * 1024"

record ws_frame =
  ws_fin :: bool
  ws_opcode :: byte
  ws_masked :: bool
  ws_mask :: "byte list"
  ws_payload :: "byte list"

definition ws_frame_default :: ws_frame where
  "ws_frame_default =
     \<lparr>ws_fin = True, ws_opcode = k_text, ws_masked = False, ws_mask = [0, 0, 0, 0], ws_payload = []\<rparr>"

definition host_to_be16 :: "u16 \<Rightarrow> u16" where
  "host_to_be16 x = swap_bytes x"

definition host_to_be64 :: "u64 \<Rightarrow> u64" where
  "host_to_be64 x = swap_bytes x"

definition be16_to_host :: "u16 \<Rightarrow> u16" where
  "be16_to_host x = swap_bytes x"

definition be64_to_host :: "u64 \<Rightarrow> u64" where
  "be64_to_host x = swap_bytes x"

section \<open>Operations\<close>

definition compute_web_socket_accept :: "string \<Rightarrow> string" where
  "compute_web_socket_accept client_key =
     (let combined = client_key @ k_web_socket_guid;
          digest = sha1_hash (map byte_of_char combined)
      in base64_encode digest)"

definition apply_mask :: "byte list \<Rightarrow> byte list \<Rightarrow> byte list" where
  "apply_mask key data = map (\<lambda>i. data ! i XOR key ! (i mod 4)) [0..<length data]"

text \<open>
  \<open>BuildFrame\<close>. A null payload pointer is \<open>None\<close>; copying more than the caller's memory holds
  is \<open>Fault\<close>. The length fields are written by \<open>memcpy\<close> of the swapped integer.
\<close>

definition build_frame ::
    "byte \<Rightarrow> byte list option \<Rightarrow> u64 \<Rightarrow> bool \<Rightarrow> bool \<Rightarrow> byte list option \<Rightarrow> byte list \<Rightarrow> byte list access"
where
  "build_frame opcode payload payload_len fin masked mask_key random_key =
     (let byte0 = (if fin then opcode OR 0x80 else opcode);
          byte1 = (if masked then 0x80 else 0 :: byte);
          len_part =
            (if payload_len < 126 then [byte1 OR ucast payload_len]
             else if payload_len < 65536
             then (byte1 OR 126) # mem_bytes True (host_to_be16 (ucast payload_len))
             else (byte1 OR 127) # mem_bytes True (host_to_be64 payload_len));
          generated_mask = (case mask_key of Some k \<Rightarrow> k | None \<Rightarrow> random_key);
          header = byte0 # len_part @ (if masked then generated_mask else [])
      in case payload of
           None \<Rightarrow> Done header
         | Some p \<Rightarrow>
             if payload_len = 0 then Done header
             else access_bind (mem_slice p 0 (unat payload_len)) (\<lambda>bs.
                    Done (header @ (if masked then apply_mask generated_mask bs else bs))))"

text \<open>
  \<open>ParseFrame\<close>: the number of bytes consumed and the frame. Zero is returned both for a frame
  that is not complete yet and for one that is too large; the fields assigned before an early
  return keep their new values.
\<close>

definition parse_payload :: "byte list \<Rightarrow> nat \<Rightarrow> nat \<Rightarrow> ws_frame \<Rightarrow> nat \<times> ws_frame" where
  "parse_payload data consumed extended_payload_len frame =
     (if length data < consumed + extended_payload_len then (0, frame)
      else let bs = take extended_payload_len (drop consumed data);
               bs' = (if ws_masked frame then apply_mask (ws_mask frame) bs else bs)
           in (consumed + extended_payload_len, frame\<lparr>ws_payload := bs'\<rparr>))"

definition parse_mask :: "byte list \<Rightarrow> nat \<Rightarrow> nat \<Rightarrow> ws_frame \<Rightarrow> nat \<times> ws_frame" where
  "parse_mask data consumed extended_payload_len frame =
     (if extended_payload_len > k_max_frame_size then (0, frame)
      else if ws_masked frame
      then (if length data < consumed + 4 then (0, frame)
            else parse_payload data (consumed + 4) extended_payload_len
                   (frame\<lparr>ws_mask := take 4 (drop consumed data)\<rparr>))
      else parse_payload data consumed extended_payload_len frame)"

definition parse_frame :: "byte list \<Rightarrow> ws_frame \<Rightarrow> nat \<times> ws_frame" where
  "parse_frame data frame =
     (if length data < 2 then (0, frame)
      else
        let byte0 = data ! 0; byte1 = data ! 1;
            frame1 = frame\<lparr>ws_fin := (byte0 AND 0x80 \<noteq> 0), ws_opcode := byte0 AND 0x0F,
                           ws_masked := (byte1 AND 0x80 \<noteq> 0)\<rparr>;
            payload_len = byte1 AND 0x7F
        in if payload_len = 126
           then (if length data < 4 then (0, frame1)
                 else parse_mask data 4
                        (unat (be16_to_host (mem_word True (take 2 (drop 2 data))))) frame1)
           else if payload_len = 127
           then (if length data < 10 then (0, frame1)
                 else parse_mask data 10
                        (unat (be64_to_host (mem_word True (take 8 (drop 2 data))))) frame1)
           else parse_mask data 2 (unat payload_len) frame1)"

definition is_valid_opcode :: "byte \<Rightarrow> bool" where
  "is_valid_opcode opcode \<longleftrightarrow> opcode \<le> 0x2 \<or> (opcode \<ge> 0x8 \<and> opcode \<le> 0xA)"

definition is_control_frame :: "byte \<Rightarrow> bool" where
  "is_control_frame opcode \<longleftrightarrow> opcode \<ge> 0x8"

definition is_data_frame :: "byte \<Rightarrow> bool" where
  "is_data_frame opcode \<longleftrightarrow> opcode \<le> 0x2"

definition opcode_to_string :: "byte \<Rightarrow> string" where
  "opcode_to_string opcode =
     (if opcode = k_continuation then ''CONTINUATION''
      else if opcode = k_text then ''TEXT''
      else if opcode = k_binary then ''BINARY''
      else if opcode = k_close then ''CLOSE''
      else if opcode = k_ping then ''PING''
      else if opcode = k_pong then ''PONG''
      else ''UNKNOWN'')"

definition is_valid_close_code :: "u16 \<Rightarrow> bool" where
  "is_valid_close_code code \<longleftrightarrow>
     (code \<ge> 1000 \<and> code \<le> 1003) \<or> (code \<ge> 1007 \<and> code \<le> 1011) \<or>
     (code \<ge> 3000 \<and> code \<le> 4999)"

definition get_close_reason_string :: "u16 \<Rightarrow> string" where
  "get_close_reason_string code =
     (if code = 1000 then ''Normal Closure''
      else if code = 1001 then ''Going Away''
      else if code = 1002 then ''Protocol Error''
      else if code = 1003 then ''Unsupported Data''
      else if code = 1005 then ''No Status Received''
      else if code = 1006 then ''Abnormal Closure''
      else if code = 1007 then ''Invalid Frame Payload Data''
      else if code = 1008 then ''Policy Violation''
      else if code = 1009 then ''Message Too Big''
      else if code = 1010 then ''Mandatory Extension''
      else if code = 1011 then ''Internal Error''
      else ''Unknown'')"

section \<open>Masking\<close>

lemma length_apply_mask [simp]: "length (apply_mask m data) = length data"
  by (simp add: apply_mask_def)

lemma nth_apply_mask: "i < length data \<Longrightarrow> apply_mask m data ! i = data ! i XOR m ! (i mod 4)"
  by (simp add: apply_mask_def)

lemma apply_mask_involution [simp]: "apply_mask m (apply_mask m data) = data"
  by (rule nth_equalityI) (simp_all add: nth_apply_mask xor.assoc)


section \<open>Parsing what was built\<close>

definition key_of :: "byte list option \<Rightarrow> byte list \<Rightarrow> byte list" where
  "key_of mask_key random_key = (case mask_key of Some k \<Rightarrow> k | None \<Rightarrow> random_key)"

text \<open>The header that \<open>BuildFrame\<close> writes, by the three ranges of the length.\<close>

definition len_field :: "byte \<Rightarrow> nat \<Rightarrow> byte list" where
  "len_field byte1 n =
     (if n < 126 then [byte1 OR of_nat n]
      else if n < 65536 then (byte1 OR 126) # order_bytes False (of_nat n :: u16)
      else (byte1 OR 127) # order_bytes False (of_nat n :: u64))"

definition frame_bytes :: "byte \<Rightarrow> bool \<Rightarrow> byte list option \<Rightarrow> byte list \<Rightarrow> byte list" where
  "frame_bytes opcode fin key p =
     (if fin then opcode OR 0x80 else opcode) #
     len_field (if key = None then 0 else 0x80) (length p) @
     (case key of None \<Rightarrow> p | Some k \<Rightarrow> k @ apply_mask k p)"

lemma mem_bytes_swap: "sized v \<Longrightarrow> mem_bytes True (swap_bytes v) = order_bytes False v"
  using mem_bytes_convert [of v True False] by (simp add: convert_endian_def)

lemma swap_mem_word: "sized v \<Longrightarrow> swap_bytes (mem_word True (order_bytes False v)) = v"
  using convert_mem_word [of v True False] by (simp add: convert_endian_def)

lemma apply_mask_nil [simp]: "apply_mask k [] = []"
  by (simp add: apply_mask_def)

lemma build_frame_eq:
  assumes "length p < 2 ^ 63"
  shows "build_frame opcode (Some p) (of_nat (length p)) fin masked mask_key random_key =
    Done (frame_bytes opcode fin (if masked then Some (key_of mask_key random_key) else None) p)"
proof -
  have u: "unat (of_nat (length p) :: u64) = length p"
    using assms by (intro unat_of_nat_small) simp
  have lt: "(of_nat (length p) :: u64) < 126 \<longleftrightarrow> length p < 126"
    "(of_nat (length p) :: u64) < 65536 \<longleftrightarrow> length p < 65536"
    by (simp_all add: word_less_nat_alt u)
  have z: "(of_nat (length p) :: u64) = 0 \<longleftrightarrow> p = []"
    using u by (metis length_0_conv unat_eq_zero)
  have uc: "(ucast (of_nat (length p) :: u64) :: byte) = of_nat (length p)"
    "(ucast (of_nat (length p) :: u64) :: u16) = of_nat (length p)"
    using assms by (simp_all add: unsigned_of_nat take_bit_nat_eq_self)
  show ?thesis
    by (simp add: uc build_frame_def frame_bytes_def len_field_def Let_def lt z u mem_slice_def
        host_to_be16_def host_to_be64_def mem_bytes_swap key_of_def)
qed

lemma low_nibble: "opcode < 16 \<Longrightarrow> opcode AND 0x0F = opcode"
    "opcode < 16 \<Longrightarrow> (opcode OR 0x80) AND 0x0F = opcode"
    "opcode < 16 \<Longrightarrow> opcode AND 0x80 = 0"
  for opcode :: byte
  using not_bit_if_small [of opcode 4] by (auto simp: word_less_nat_alt bit_simps intro!: byte_eqI)

lemma high_bit_set [simp]: "(b OR 0x80) AND 0x80 \<noteq> (0 :: byte)"
proof
  assume "(b OR 0x80) AND 0x80 = 0"
  then have "bit ((b OR 0x80) AND 0x80) 7 = bit (0 :: byte) 7" by simp
  then show False by (simp add: bit_simps)
qed

lemma low_seven: "v < 128 \<Longrightarrow> v AND 0x7F = v" "v < 128 \<Longrightarrow> (0x80 OR v) AND 0x7F = v"
    "v < 128 \<Longrightarrow> v AND 0x80 = 0"
  for v :: byte
  using not_bit_if_small [of v 7] by (auto simp: word_less_nat_alt bit_simps intro!: byte_eqI)

lemma high_bit_set' [simp]: "(0x80 OR b) AND 0x80 \<noteq> (0 :: byte)"
  using high_bit_set [of b] by (simp add: or.commute)


definition mask_part :: "byte list option \<Rightarrow> byte list \<Rightarrow> byte list" where
  "mask_part key p = (case key of None \<Rightarrow> p | Some k \<Rightarrow> k @ apply_mask k p)"

definition parsed_frame ::
    "byte \<Rightarrow> bool \<Rightarrow> byte list option \<Rightarrow> byte list \<Rightarrow> ws_frame \<Rightarrow> ws_frame" where
  "parsed_frame opcode fin key p frame =
     \<lparr>ws_fin = fin, ws_opcode = opcode, ws_masked = (key \<noteq> None),
      ws_mask = (case key of None \<Rightarrow> ws_mask frame | Some k \<Rightarrow> k), ws_payload = p\<rparr>"

definition key_ok :: "byte list option \<Rightarrow> bool" where
  "key_ok key \<longleftrightarrow> (case key of None \<Rightarrow> True | Some k \<Rightarrow> length k = 4)"

lemma parse_mask_part:
  assumes "length data0 = consumed" and "key_ok key" and "length p \<le> k_max_frame_size"
    and "ws_masked frame = (key \<noteq> None)"
  shows "parse_mask (data0 @ mask_part key p @ rest) consumed (length p) frame =
    (consumed + length (mask_part key p),
     parsed_frame (ws_opcode frame) (ws_fin frame) key p frame)"
proof (cases key)
  case None
  with assms show ?thesis
    by (simp add: parse_mask_def parse_payload_def mask_part_def parsed_frame_def)
next
  case (Some k)
  with assms show ?thesis
    by (simp add: parse_mask_def parse_payload_def mask_part_def parsed_frame_def key_ok_def)
qed

lemma unat_of_nat_byte [simp]: "n < 256 \<Longrightarrow> unat (of_nat n :: byte) = n"
  by (simp add: unat_of_nat)

lemma parse_len_field:
  assumes "length p \<le> k_max_frame_size" and "b1 = (if key = None then 0 else 0x80)"
    and "key_ok key"
  shows "parse_frame (b0 # len_field b1 (length p) @ mask_part key p @ rest) frame =
    (1 + length (len_field b1 (length p)) + length (mask_part key p),
     parsed_frame (b0 AND 0x0F) (b0 AND 0x80 \<noteq> 0) key p frame)"
proof -
  let ?n = "length p"
  let ?f1 = "frame\<lparr>ws_fin := (b0 AND 0x80 \<noteq> 0), ws_opcode := b0 AND 0x0F,
      ws_masked := (key \<noteq> None)\<rparr>"
  have pm: "parse_mask (d0 @ mask_part key p @ rest) c ?n ?f1 =
      (c + length (mask_part key p), parsed_frame (b0 AND 0x0F) (b0 AND 0x80 \<noteq> 0) key p frame)"
    if "length d0 = c" for d0 c
    using parse_mask_part [OF that assms(3,1), of ?f1]
    by (simp add: parsed_frame_def split: option.splits)
  have flag: "(b1 OR v) AND 0x80 \<noteq> 0 \<longleftrightarrow> key \<noteq> None" and low: "(b1 OR v) AND 0x7F = v"
    if "v < 128" for v
    using that assms(2) by (auto simp: low_seven)
  consider (short) "?n < 126" | (medium) "126 \<le> ?n" "?n < 65536" | (long) "65536 \<le> ?n"
    by linarith
  then show ?thesis
  proof cases
    case short
    let ?v = "of_nat ?n :: byte"
    have v: "unat ?v = ?n" "?v < 128" "?v \<noteq> 126" "?v \<noteq> 127"
      using short by (auto simp: word_less_nat_alt word_unat_eq_iff)
    show ?thesis
      using short pm [of "[b0, b1 OR ?v]" 2] v
      by (simp add: parse_frame_def len_field_def Let_def flag low)
  next
    case medium
    let ?w = "of_nat ?n :: u16"
    have "length (order_bytes False ?w) = Suc (Suc 0)"
      by (simp add: sizeof_def)
    then obtain x y where xy: "order_bytes False ?w = [x, y]"
      by (auto simp: length_Suc_conv simp del: length_order_bytes)
    have "unat (be16_to_host (mem_word True [x, y])) = ?n"
      using medium swap_mem_word [of ?w] by (simp add: be16_to_host_def xy unat_of_nat)
    then show ?thesis
      using medium pm [of "[b0, b1 OR 126, x, y]" 4]
      by (simp add: parse_frame_def len_field_def Let_def flag low xy)
  next
    case long
    let ?w = "of_nat ?n :: u64"
    have n: "?n < 2 ^ 63"
      using assms(1) by (simp add: k_max_frame_size_def)
    let ?e = "order_bytes False ?w"
    have e: "length ?e = 8"
      by (simp add: sizeof_def)
    have "unat (be64_to_host (mem_word True ?e)) = ?n"
      using n swap_mem_word [of ?w] by (simp add: be64_to_host_def unat_of_nat_small)
    then show ?thesis
      using long e pm [of "b0 # (b1 OR 127) # ?e" 10]
      by (simp add: parse_frame_def len_field_def Let_def flag low)
  qed
qed

lemma frame_bytes_eq:
  "frame_bytes opcode fin key p =
     (if fin then opcode OR 0x80 else opcode) #
     len_field (if key = None then 0 else 0x80) (length p) @ mask_part key p"
  by (simp add: frame_bytes_def mask_part_def)

lemma parse_frame_bytes:
  assumes "opcode < 16" and "length p \<le> k_max_frame_size" and "key_ok key"
  shows "parse_frame (frame_bytes opcode fin key p @ rest) frame =
    (length (frame_bytes opcode fin key p), parsed_frame opcode fin key p frame)"
  using parse_len_field [OF assms(2) refl assms(3), of "if fin then opcode OR 0x80 else opcode" rest frame]
  by (auto simp: frame_bytes_eq low_nibble assms(1))

section \<open>The parser on partial input\<close>

lemma parse_payload_length:
  "parse_payload d c m f = (n, fr) \<Longrightarrow> n \<noteq> 0 \<Longrightarrow> n = c + m \<and> n \<le> length d"
  by (auto simp: parse_payload_def Let_def split: if_splits)

lemma slice_eq:
  assumes "take n d' = take n d" and "c + m \<le> n"
  shows "take m (drop c d') = take m (drop c d)"
proof -
  have "take (c + m) d' = take (c + m) d"
    using assms by (metis min.absorb1 take_take)
  then show ?thesis
    by (simp add: take_drop add.commute)
qed

lemma parse_payload_take:
  assumes "parse_payload d c m f = (n, fr)" and "n \<noteq> 0"
    and "n \<le> length d'" and "take n d' = take n d"
  shows "parse_payload d' c m f = (n, fr)"
proof -
  have n: "n = c + m" and "n \<le> length d"
    using parse_payload_length [OF assms(1,2)] by simp_all
  then have "take m (drop c d') = take m (drop c d)"
    using slice_eq [OF assms(4)] by simp
  with assms n \<open>n \<le> length d\<close> show ?thesis
    by (simp add: parse_payload_def Let_def)
qed

lemma parse_mask_length:
  "parse_mask d c m f = (n, fr) \<Longrightarrow> n \<noteq> 0 \<Longrightarrow> c \<le> n \<and> n \<le> length d \<and> (ws_masked f \<longrightarrow> c + 4 \<le> n)"
  by (auto simp: parse_mask_def dest: parse_payload_length split: if_splits)

lemma parse_mask_take:
  assumes "parse_mask d c m f = (n, fr)" and "n \<noteq> 0"
    and "n \<le> length d'" and "take n d' = take n d"
  shows "parse_mask d' c m f = (n, fr)"
proof (cases "ws_masked f")
  case True
  have "c + 4 \<le> n" "n \<le> length d"
    using parse_mask_length [OF assms(1,2)] True by simp_all
  moreover from this have "take 4 (drop c d') = take 4 (drop c d)"
    using slice_eq [OF assms(4), of c 4] by simp
  ultimately show ?thesis
    using assms True parse_payload_take [OF _ assms(2-4)]
    by (auto simp: parse_mask_def split: if_splits)
next
  case False
  with assms parse_payload_take [OF _ assms(2-4)] show ?thesis
    by (auto simp: parse_mask_def split: if_splits)
qed

lemma parse_frame_length:
  assumes "parse_frame d f = (n, fr)" and "n \<noteq> 0"
  shows "2 \<le> n" "n \<le> length d"
    "d ! 1 AND 0x7F = 126 \<longrightarrow> 4 \<le> n" "d ! 1 AND 0x7F = 127 \<longrightarrow> 10 \<le> n"
  using assms
  by (auto simp: parse_frame_def Let_def dest!: parse_mask_length split: if_splits)

lemma parse_frame_take:
  assumes "parse_frame d f = (n, fr)" and "n \<noteq> 0"
    and "n \<le> length d'" and "take n d' = take n d"
  shows "parse_frame d' f = (n, fr)"
proof -
  note len = parse_frame_length [OF assms(1,2)]
  have nth: "d' ! i = d ! i" if "i < n" for i
    using that assms(4) by (metis nth_take)
  have b: "d' ! 0 = d ! 0" "d' ! 1 = d ! 1"
    using len(1) by (simp_all add: nth)
  have s2: "take 2 (drop 2 d') = take 2 (drop 2 d)" if "4 \<le> n"
    using slice_eq [OF assms(4), of 2 2] that by simp
  have s8: "take 8 (drop 2 d') = take 8 (drop 2 d)" if "10 \<le> n"
    using slice_eq [OF assms(4), of 2 8] that by simp
  have l: "\<not> length d' < 2" "\<not> length d < 2"
    using len(1,2) assms(3) by simp_all
  consider (medium) "d ! 1 AND 0x7F = 126" | (long) "d ! 1 AND 0x7F = 127"
    | (short) "d ! 1 AND 0x7F \<noteq> 126" "d ! 1 AND 0x7F \<noteq> 127"
    by blast
  then show ?thesis
  proof cases
    case medium
    with len assms(1,3) l s2 parse_mask_take [OF _ assms(2-4)] show ?thesis
      by (simp add: parse_frame_def Let_def b [unfolded One_nat_def])
  next
    case long
    with len assms(1,3) l s8 parse_mask_take [OF _ assms(2-4)] show ?thesis
      by (simp add: parse_frame_def Let_def b [unfolded One_nat_def])
  next
    case short
    with len assms(1,3) l parse_mask_take [OF _ assms(2-4)] show ?thesis
      by (simp add: parse_frame_def Let_def b [unfolded One_nat_def])
  qed
qed

text \<open>A proper prefix of a complete frame is reported as incomplete.\<close>

lemma parse_frame_prefix:
  assumes "parse_frame d f = (n, fr)" and "k < n"
  shows "fst (parse_frame (take k d) f) = 0"
proof (rule ccontr)
  assume nz: "fst (parse_frame (take k d) f) \<noteq> 0"
  obtain n' fr' where p: "parse_frame (take k d) f = (n', fr')"
    by fastforce
  with nz have n': "n' \<noteq> 0" by simp
  have "n' \<le> length (take k d)"
    using parse_frame_length(2) [OF p n'] .
  then have "n' \<le> k" "n' \<le> length d" by simp_all
  moreover from this have "parse_frame d f = (n', fr')"
    by (intro parse_frame_take [OF p n']) (simp_all add: min.absorb1)
  ultimately show False
    using assms by simp
qed


lemma parse_frame_too_large:
  assumes "k_max_frame_size < n" and "n < 2 ^ 63" and "b1 \<in> {0, 0x80}"
  shows "fst (parse_frame (b0 # len_field b1 n @ rest) frame) = 0"
proof -
  let ?e = "order_bytes False (of_nat n :: u64)"
  have e: "length ?e = 8"
    by (simp add: sizeof_def)
  have n: "\<not> n < 126" "\<not> n < 65536"
    using assms(1) by (simp_all add: k_max_frame_size_def)
  have "unat (be64_to_host (mem_word True ?e)) = n"
    using assms(2) swap_mem_word [of "of_nat n :: u64"]
    by (simp add: be64_to_host_def unat_of_nat_small)
  moreover have "(b1 OR 127) AND 0x7F = 127"
    using assms(3) by (auto simp: low_seven)
  ultimately show ?thesis
    using e assms(1) by (simp add: parse_frame_def len_field_def n Let_def parse_mask_def)
qed

section \<open>Properties\<close>

text \<open>Property C4. Framing round trip: what \<open>BuildFrame\<close> writes for any opcode, payload up to the frame limit,
  \<open>fin\<close> flag and masking choice is parsed back, from the front of any longer buffer, as the same
  frame with the payload unmasked and exactly its bytes consumed; and every proper prefix of it
  is reported as incomplete.\<close>

theorem ws_frame_roundtrip:
  assumes "opcode < 16" and "length p \<le> k_max_frame_size"
    and "length (key_of mask_key random_key) = 4"
  shows "\<exists>bytes. build_frame opcode (Some p) (of_nat (length p)) fin masked mask_key random_key = Done bytes \<and>
    (\<forall>rest frame. parse_frame (bytes @ rest) frame =
       (length bytes,
        \<lparr>ws_fin = fin, ws_opcode = opcode, ws_masked = masked,
         ws_mask = (if masked then key_of mask_key random_key else ws_mask frame),
         ws_payload = p\<rparr>)) \<and>
    (\<forall>k frame. k < length bytes \<longrightarrow> fst (parse_frame (take k bytes) frame) = 0)"
proof -
  let ?key = "if masked then Some (key_of mask_key random_key) else None"
  let ?bytes = "frame_bytes opcode fin ?key p"
  have "length p < 2 ^ 63"
    using assms(2) by (simp add: k_max_frame_size_def)
  from build_frame_eq [OF this]
  have b: "build_frame opcode (Some p) (of_nat (length p)) fin masked mask_key random_key = Done ?bytes" .
  have ok: "key_ok ?key"
    using assms(3) by (simp add: key_ok_def)
  note parse = parse_frame_bytes [OF assms(1,2) ok]
  have "parse_frame ?bytes frame = (length ?bytes, parsed_frame opcode fin ?key p frame)" for frame
    using parse [of fin "[]"] by simp
  with b parse show ?thesis
    by (auto simp: parsed_frame_def intro: parse_frame_prefix)
qed

theorem ws_frame_roundtrip_witness:
  "\<exists>bytes. build_frame k_text (Some [72, 105]) (of_nat (length [72, 105 :: byte])) True True None [1, 2, 3, 4]
     = Done bytes \<and> fst (parse_frame bytes ws_frame_default) = length bytes"
  using ws_frame_roundtrip [of k_text "[72, 105]" None "[1, 2, 3, 4]" True True]
  by (auto simp: k_text_def k_max_frame_size_def key_of_def)
    (metis append_Nil2 fst_conv)

text \<open>A frame larger than \<open>kMaxFrameSize\<close> is never parsed and never rejected: \<open>ParseFrame\<close> keeps
  returning zero, its code for an incomplete frame, whatever data follows.\<close>

theorem ws_oversized_frame_stalls:
  assumes "k_max_frame_size < length p" and "length p < 2 ^ 63"
  shows "\<exists>bytes. build_frame opcode (Some p) (of_nat (length p)) fin masked mask_key random_key = Done bytes \<and>
    (\<forall>rest frame. fst (parse_frame (bytes @ rest) frame) = 0)"
  unfolding build_frame_eq [OF assms(2)] frame_bytes_eq
  using parse_frame_too_large [OF assms] by simp

theorem ws_oversized_frame_stalls_witness:
  "\<exists>bytes. build_frame k_text (Some (replicate 1048577 0)) (of_nat (length (replicate 1048577 (0 :: byte))))
      True False None [] = Done bytes \<and>
    (\<forall>rest frame. fst (parse_frame (bytes @ rest) frame) = 0)"
  by (rule ws_oversized_frame_stalls)
    (simp_all only: length_replicate k_max_frame_size_def, simp_all)

text \<open>The handshake answer \<open>Sec-WebSocket-Accept\<close> is the Base64 text of the SHA-1 digest of the
  client key followed by the protocol's GUID: decoding it gives exactly that digest.\<close>

theorem accept_key_correct:
  "base64_decode (compute_web_socket_accept client_key) =
     Some (sha1_spec (map byte_of_char (client_key @ k_web_socket_guid)))"
  by (simp add: compute_web_socket_accept_def sha1_hash_spec Let_def base64_decode_encode
      del: base64_encode_eq)

end
