(* ===== verification/Http_Server.thy ===== *)
theory Http_Server
  imports Http_Common Effects Web_Socket
begin

text \<open>
  The HTTP server (\<open>net/http_server.h\<close>, \<open>net/http_server.cc\<close>): reading requests and WebSocket
  frames from the buffer of a connection, and writing responses.

  The state is the server with its connections, named by numbers given to the sockets in order;
  \<open>c_inbox\<close> is what has arrived at the socket and was not received yet, \<open>c_sent\<close> what was sent,
  \<open>c_open\<close> is false after \<open>Shutdown\<close>, and \<open>posted\<close> lists the sockets whose disconnection has been
  posted to the task runner. The request handler is a record of effects on the server, as its
  methods may call every method of the connections. An operation ends with \<open>Aborted\<close> where
  \<open>XTILS_CHECK\<close> fails and with \<open>Dangling\<close> if the connection is gone. A file is its size and what
  can be read of it. Listening on a port and the sockets are not modelled.
\<close>

datatype stop = Aborted | Dangling | Thrown string

record connection =
  c_max_request :: u64
  c_inbox :: string
  c_rxbuf :: string
  c_websocket :: bool
  c_headers_sent :: bool
  c_len_headers :: u64
  c_len_actual :: u64
  c_origin :: string
  c_keepalive :: bool
  c_sent :: "string list"
  c_open :: bool

definition new_connection :: "u64 \<Rightarrow> connection" where
  "new_connection max_request_size =
     \<lparr>c_max_request = max_request_size, c_inbox = [], c_rxbuf = [], c_websocket = False, c_headers_sent = False,
      c_len_headers = 0, c_len_actual = 0, c_origin = [], c_keepalive = True, c_sent = [], c_open = True\<rparr>"

record http_request =
  r_method :: string
  r_uri :: string
  r_origin :: string
  r_body :: string
  r_headers :: http_headers
  r_ws_handshake :: bool

definition k_max_headers :: nat where
  "k_max_headers = 32"

definition new_request :: http_request where
  "new_request = \<lparr>r_method = [], r_uri = [], r_origin = [], r_body = [], r_headers = [], r_ws_handshake = False\<rparr>"

record 'h server =
  clients :: "(nat, connection) omap"
  allowed_origins :: "string list"
  origin_error_logged :: bool
  is_stopping :: bool
  max_payload_size :: u64
  posted :: "nat list"
  user_state :: 'h

type_synonym ('h, 'a) http = "(stop, 'h server, 'a) eff"

record 'h http_handler =
  on_http_request :: "nat \<Rightarrow> http_request \<Rightarrow> ('h, unit) http"
  on_websocket_message :: "nat \<Rightarrow> string \<Rightarrow> bool \<Rightarrow> ('h, unit) http"
  on_connection_closed :: "nat \<Rightarrow> ('h, unit) http"

section \<open>The connections\<close>

definition get_conn :: "nat \<Rightarrow> ('h, connection) http" where
  "get_conn k = then_with (look (\<lambda>s. omap_find (clients s) k))
     (\<lambda>r. case r of None \<Rightarrow> throw Dangling | Some c \<Rightarrow> give c)"

definition put_conn :: "nat \<Rightarrow> connection \<Rightarrow> ('h, unit) http" where
  "put_conn k c = change (\<lambda>s. s\<lparr>clients := omap_set k c (clients s)\<rparr>)"

definition on_conn :: "nat \<Rightarrow> (connection \<Rightarrow> connection) \<Rightarrow> ('h, unit) http" where
  "on_conn k f = then_with (get_conn k) (\<lambda>c. put_conn k (f c))"

definition check :: "bool \<Rightarrow> ('h, unit) http" where
  "check b = (if b then give () else throw Aborted)"

definition sock_send :: "nat \<Rightarrow> string \<Rightarrow> ('h, unit) http" where
  "sock_send k bytes =
     on_conn k (\<lambda>c. if c_open c \<and> bytes \<noteq> [] then c\<lparr>c_sent := c_sent c @ [bytes]\<rparr> else c)"

definition close :: "nat \<Rightarrow> ('h, unit) http" where
  "close k = then_with (get_conn k) (\<lambda>c.
     then_do (only_if (c_open c) (change (\<lambda>s. s\<lparr>posted := posted s @ [k]\<rparr>)))
       (put_conn k (c\<lparr>c_open := False\<rparr>)))"

section \<open>Responses\<close>

definition k_omit_content_length :: u64 where
  "k_omit_content_length = - 1"

text \<open>A \<open>StackString\<open><\<close>128\<open>>\<close>\<close> read back with \<open>c_str\<close>: at most 127 characters, up to a NUL.\<close>

definition stack_string :: "string \<Rightarrow> string" where
  "stack_string formatted = c_str (take 127 formatted)"

definition header_line :: "http_header \<Rightarrow> string" where
  "header_line kv =
     (if h_name kv = [] then [] else stack_string (c_str (h_name kv) @ '': '' @ c_str (h_value kv)) @ crlf)"

definition response_header_text :: "string \<Rightarrow> http_headers \<Rightarrow> u64 \<Rightarrow> bool \<Rightarrow> string \<Rightarrow> string" where
  "response_header_text http_code headers content_length keepalive origin_allowed =
     ''HTTP/1.1 '' @ c_str http_code @ crlf @
     concat (map header_line headers) @
     (if content_length \<noteq> k_omit_content_length
      then stack_string (''Content-Length: '' @ show_nat (unat content_length)) @ crlf else []) @
     (if list_ex (\<lambda>kv. h_name kv \<noteq> [] \<and> case_insensitive_eq (h_name kv) ''connection'') headers then []
      else if keepalive then ''Connection: keep-alive'' @ crlf else ''Connection: close'' @ crlf) @
     (if origin_allowed \<noteq> []
      then stack_string (''Access-Control-Allow-Origin: '' @ c_str origin_allowed) @ crlf @ ''Vary: Origin'' @ crlf
      else []) @
     crlf"

definition send_response_headers :: "nat \<Rightarrow> string \<Rightarrow> http_headers \<Rightarrow> u64 \<Rightarrow> ('h, unit) http" where
  "send_response_headers k http_code headers content_length =
     then_with (get_conn k) (\<lambda>c.
     then_do (check (\<not> c_headers_sent c)) (
     then_do (check (\<not> c_websocket c)) (
     then_do (put_conn k (c\<lparr>c_headers_sent := True, c_len_actual := 0, c_len_headers := content_length\<rparr>))
       (sock_send k (response_header_text http_code headers content_length (c_keepalive c) (c_origin c))))))"

definition send_response_body :: "nat \<Rightarrow> string \<Rightarrow> ('h, unit) http" where
  "send_response_body k data =
     then_with (get_conn k) (\<lambda>c.
     then_do (check (\<not> c_websocket c)) (
     let actual = c_len_actual c + of_nat (length data) in
     then_do (put_conn k (c\<lparr>c_len_actual := actual\<rparr>)) (
     then_do (check (actual \<le> c_len_headers c \<or> c_len_headers c = k_omit_content_length))
       (sock_send k data))))"

definition close_unless_keepalive :: "nat \<Rightarrow> ('h, unit) http" where
  "close_unless_keepalive k = then_with (get_conn k) (\<lambda>c. only_if (\<not> c_keepalive c) (close k))"

definition send_response :: "nat \<Rightarrow> string \<Rightarrow> http_headers \<Rightarrow> string \<Rightarrow> bool \<Rightarrow> ('h, unit) http" where
  "send_response k http_code headers content force_close =
     then_do (only_if force_close (on_conn k (\<lambda>c. c\<lparr>c_keepalive := False\<rparr>))) (
     then_do (send_response_headers k http_code headers (of_nat (length content))) (
     then_do (send_response_body k content)
       (close_unless_keepalive k)))"

definition send_response_and_close :: "nat \<Rightarrow> string \<Rightarrow> http_headers \<Rightarrow> string \<Rightarrow> ('h, unit) http" where
  "send_response_and_close k http_code headers content = send_response k http_code headers content True"

text \<open>The loop of \<open>SendFileStreaming\<close>: what is left of the announced size once nothing more can be read.\<close>

definition k_chunk_size :: nat where
  "k_chunk_size = 64 * 1024"

function stream_loop :: "nat \<Rightarrow> nat \<Rightarrow> string \<Rightarrow> ('h, nat) http" where
  "stream_loop k remaining data =
     (if remaining = 0 \<or> data = [] then give remaining
      else let chunk = take (min remaining k_chunk_size) data
           in then_do (send_response_body k chunk)
                (stream_loop k (remaining - length chunk) (drop (length chunk) data)))"
  by pat_completeness auto
termination
  by (relation "measure (\<lambda>(k, r, d). r)") (auto simp: k_chunk_size_def)

declare stream_loop.simps [simp del]

definition send_file_streaming ::
    "(int \<times> string) option \<Rightarrow> nat \<Rightarrow> string \<Rightarrow> http_headers \<Rightarrow> ('h, bool) http" where
  "send_file_streaming file k http_code headers =
     (case file of
        None \<Rightarrow> give False
      | Some (pos, data) \<Rightarrow>
          if pos < 0 then give False
          else then_do (send_response_headers k http_code headers (of_int pos))
            (then_with (stream_loop k (nat pos) data) (\<lambda>remaining.
               then_do (close_unless_keepalive k) (give (remaining = 0)))))"

section \<open>WebSocket messages\<close>

definition of_bytes :: "byte list \<Rightarrow> string" where
  "of_bytes bs = map char_of_byte bs"

definition to_bytes :: "string \<Rightarrow> byte list" where
  "to_bytes s = map byte_of_char s"

definition send_websocket_frame :: "nat \<Rightarrow> byte \<Rightarrow> string \<Rightarrow> ('h, unit) http" where
  "send_websocket_frame k opcode payload =
     then_with (get_conn k) (\<lambda>c.
     then_do (check (c_websocket c))
       (case build_frame opcode (Some (to_bytes payload)) (of_nat (length payload)) True False None [] of
          Done frame_data \<Rightarrow> sock_send k (of_bytes frame_data)
        | _ \<Rightarrow> throw Aborted))"

definition send_websocket_message :: "nat \<Rightarrow> string \<Rightarrow> ('h, unit) http" where
  "send_websocket_message k data = send_websocket_frame k k_binary data"

definition send_websocket_message_text :: "nat \<Rightarrow> string \<Rightarrow> ('h, unit) http" where
  "send_websocket_message_text k data = send_websocket_frame k k_text data"

text \<open>\<open>HttpServerRequest::GetHeader\<close>.\<close>

definition request_header :: "http_request \<Rightarrow> string \<Rightarrow> string option" where
  "request_header req name =
     map_option h_value (List.find (\<lambda>h. case_insensitive_eq (h_name h) name) (r_headers req))"

definition value_or_empty :: "string option \<Rightarrow> string" where
  "value_or_empty v = (case v of None \<Rightarrow> [] | Some s \<Rightarrow> s)"

definition upgrade_to_websocket :: "nat \<Rightarrow> http_request \<Rightarrow> ('h, unit) http" where
  "upgrade_to_websocket k req =
     then_do (check (r_ws_handshake req)) (
     then_with (get_conn k) (\<lambda>c.
       if c_origin c = [] then send_response_and_close k ''403 Forbidden'' [] ''Origin not allowed''
       else let ws_ver = value_or_empty (request_header req ''sec-webSocket-version'');
                ws_key = value_or_empty (request_header req ''sec-webSocket-key'')
            in if \<not> case_insensitive_eq ws_ver ''13''
               then send_response_and_close k ''505 HTTP Version Not Supported'' [] []
               else if length ws_key \<noteq> 24 then send_response_and_close k ''400 Bad Request'' [] []
               else then_do (send_response_headers k ''101 Switching Protocols''
                       [header ''Upgrade'' ''websocket'', header ''Connection'' ''Upgrade'',
                        header ''Sec-WebSocket-Accept'' (compute_web_socket_accept ws_key)]
                       k_omit_content_length)
                     (on_conn k (\<lambda>c. c\<lparr>c_websocket := True\<rparr>))))"

section \<open>Requests\<close>

text \<open>The parts of a header value between commas, and the token search on them.\<close>

fun comma_parts :: "string \<Rightarrow> string list" where
  "comma_parts [] = [[]]"
| "comma_parts (c # cs) =
     (if c = CHR '','' then [] # comma_parts cs
      else case comma_parts cs of [] \<Rightarrow> [[c]] | p # ps \<Rightarrow> (c # p) # ps)"

definition trim_space :: "string \<Rightarrow> string" where
  "trim_space part = rev (dropWhile is_space (rev (dropWhile is_space part)))"

definition has_connection_token :: "string \<Rightarrow> string \<Rightarrow> bool" where
  "has_connection_token header_value token \<longleftrightarrow>
     list_ex (\<lambda>part. case_insensitive_eq (trim_space part) token) (comma_parts header_value)"

definition is_origin_allowed :: "string \<Rightarrow> ('h, bool) http" where
  "is_origin_allowed origin =
     then_with (look (\<lambda>s. list_ex (\<lambda>allowed. allowed = ''*'' \<or> case_insensitive_eq origin (c_str allowed))
        (allowed_origins s))) (\<lambda>allowed.
     if allowed then give True
     else then_do (change (\<lambda>s. if origin \<noteq> [] then s\<lparr>origin_error_logged := True\<rparr> else s)) (give False))"

record parse_state =
  p_request :: http_request
  p_first_line :: bool
  p_all_headers :: bool
  p_has_origin :: bool
  p_body_size :: u64

definition parse_start :: parse_state where
  "parse_start = \<lparr>p_request = new_request, p_first_line = False, p_all_headers = False, p_has_origin = False,
     p_body_size = 0\<rparr>"

text \<open>What a line does: \<open>Leave\<close> is \<open>return 0\<close>, \<open>Finish\<close> the \<open>break\<close> at the empty line.\<close>

datatype line_result = Leave | Finish parse_state | Next parse_state

definition is_eol :: "char \<Rightarrow> bool" where
  "is_eol c \<longleftrightarrow> c = CHR 0x0D \<or> c = CHR 0x0A"

definition strip_eol :: "string \<Rightarrow> string" where
  "strip_eol line = rev (dropWhile is_eol (rev line))"

definition request_line :: "nat \<Rightarrow> string \<Rightarrow> parse_state \<Rightarrow> ('h, line_result) http" where
  "request_line k line p =
     (let refuse = then_do (send_response_and_close k ''400 Bad Request'' [] []) (give Leave)
      in case find_sub '' '' line of
           None \<Rightarrow> refuse
         | Some sp \<Rightarrow>
             if sp + 2 \<ge> length line then refuse
             else let rest = drop (sp + 1) line;
                      uri = (case find_sub '' '' rest of None \<Rightarrow> rest | Some uri_size \<Rightarrow> take uri_size rest)
                  in give (Next (p\<lparr>p_first_line := True,
                       p_request := (p_request p)\<lparr>r_method := take sp line, r_uri := uri\<rparr>\<rparr>)))"

definition apply_header :: "nat \<Rightarrow> string \<Rightarrow> string \<Rightarrow> parse_state \<Rightarrow> ('h, line_result) http" where
  "apply_header k hdr_name hdr_value p =
     (if case_insensitive_eq hdr_name ''content-length'' then
        (case string_view_to_uint64 hdr_value 10 of
           None \<Rightarrow> then_do (send_response_and_close k ''400 Bad Request'' [] ''Invalid Content-Length'') (give Leave)
         | Some n \<Rightarrow> give (Next (p\<lparr>p_body_size := n\<rparr>)))
      else if case_insensitive_eq hdr_name ''origin'' then
        then_with (is_origin_allowed hdr_value) (\<lambda>allowed.
        then_do (only_if allowed (on_conn k (\<lambda>c. c\<lparr>c_origin := hdr_value\<rparr>)))
          (give (Next (p\<lparr>p_has_origin := True, p_request := (p_request p)\<lparr>r_origin := hdr_value\<rparr>\<rparr>))))
      else if case_insensitive_eq hdr_name ''connection'' then
        then_do (on_conn k (\<lambda>c. c\<lparr>c_keepalive := has_connection_token hdr_value ''keep-alive''\<rparr>))
          (give (Next (p\<lparr>p_request :=
             (p_request p)\<lparr>r_ws_handshake := has_connection_token hdr_value ''upgrade''\<rparr>\<rparr>)))
      else give (Next p))"

definition field_line :: "nat \<Rightarrow> string \<Rightarrow> parse_state \<Rightarrow> ('h, line_result) http" where
  "field_line k line p =
     (case find_sub '':'' line of
        None \<Rightarrow> then_do (send_response_and_close k ''400 Bad Request'' [] ''Bad HTTP header'') (give Leave)
      | Some col \<Rightarrow>
          let hdr_name = take col line;
              hdr_value = trim_whitespace (drop (col + 1) line)
          in if length (r_headers (p_request p)) \<ge> k_max_headers
             then then_do (send_response_and_close k ''400 Bad Request'' [] ''Too many HTTP headers'') (give Leave)
             else apply_header k hdr_name hdr_value
                    (p\<lparr>p_request := (p_request p)\<lparr>r_headers := r_headers (p_request p) @ [header hdr_name hdr_value]\<rparr>\<rparr>))"

definition one_line :: "nat \<Rightarrow> string \<Rightarrow> parse_state \<Rightarrow> ('h, line_result) http" where
  "one_line k line p =
     (if \<not> p_first_line p then request_line k line p
      else if line = [] then
        then_do (only_if (\<not> p_has_origin p) (on_conn k (\<lambda>c. c\<lparr>c_origin := ''*''\<rparr>)))
          (give (Finish (p\<lparr>p_all_headers := True\<rparr>)))
      else field_line k line p)"

text \<open>The lines that are complete; the result is what the parser knows and what follows the lines read.\<close>

function header_loop :: "nat \<Rightarrow> string \<Rightarrow> parse_state \<Rightarrow> ('h, (parse_state \<times> string) option) http" where
  "header_loop k buf p =
     (case find_sub [CHR 0x0A] buf of
        None \<Rightarrow> give (Some (p, buf))
      | Some next_pos \<Rightarrow>
          let rest = drop (next_pos + 1) buf
          in then_with (one_line k (strip_eol (take next_pos buf)) p) (\<lambda>r.
               case r of
                 Leave \<Rightarrow> give None
               | Finish p' \<Rightarrow> give (Some (p', rest))
               | Next p' \<Rightarrow> header_loop k rest p'))"
  by pat_completeness auto
termination
proof (relation "measure (\<lambda>(k, buf, p). length buf)")
  fix k :: nat and buf :: string and p p' :: parse_state and n rest and r :: line_result
  assume "find_sub [CHR 0x0A] buf = Some n" and "rest = drop (n + 1) buf"
  then show "((k, rest, p'), k, buf, p) \<in> measure (\<lambda>(k, buf, p). length buf)"
    by (cases buf) auto
qed simp

declare header_loop.simps [simp del]

definition handle_cors_preflight_request :: "nat \<Rightarrow> ('h, unit) http" where
  "handle_cors_preflight_request k =
     send_response_and_close k ''204 No Content''
       [header ''Access-Control-Allow-Methods'' ''POST, GET, OPTIONS'', header ''Access-Control-Allow-Headers'' ''*'',
        header ''Access-Control-Max-Age'' ''86400'', header ''Access-Control-Allow-Private-Network'' ''true''] []"

text \<open>
  \<open>ParseOneHttpRequest\<close>: the number of bytes consumed. What follows the handler is \<open>end_request\<close>.
\<close>

definition end_request :: "nat \<Rightarrow> nat \<Rightarrow> ('h, nat) http" where
  "end_request k consumed =
     then_with (get_conn k) (\<lambda>c.
     then_do (only_if (\<not> c_headers_sent c) (send_response_and_close k ''500 Internal Server Error'' [] [])) (
     then_do (on_conn k (\<lambda>c. c\<lparr>c_headers_sent := False\<rparr>)) (give consumed)))"

definition after_headers :: "'h http_handler \<Rightarrow> nat \<Rightarrow> nat \<Rightarrow> parse_state \<Rightarrow> string \<Rightarrow> ('h, nat) http" where
  "after_headers H k used p rest =
     then_with (get_conn k) (\<lambda>c.
     let headers_size = used - length rest;
         max_request = c_max_request c;
         max_payload = max_request - 4096
     in if p_body_size p + of_nat headers_size \<ge> max_request \<or> p_body_size p > max_payload
        then then_do (send_response_and_close k ''413 Payload Too Large'' [] []) (give 0)
        else if \<not> p_all_headers p \<or> length rest < unat (p_body_size p) then give 0
        else let req = (p_request p)\<lparr>r_body := take (unat (p_body_size p)) rest\<rparr>
             in then_do (if r_method req = ''OPTIONS'' then handle_cors_preflight_request k else on_http_request H k req)
                  (end_request k (headers_size + unat (p_body_size p))))"

definition parse_one_http_request :: "'h http_handler \<Rightarrow> nat \<Rightarrow> ('h, nat) http" where
  "parse_one_http_request H k =
     then_with (get_conn k) (\<lambda>c.
     then_do (put_conn k (c\<lparr>c_origin := []\<rparr>)) (
     then_with (header_loop k (c_rxbuf c) parse_start) (\<lambda>r.
       case r of None \<Rightarrow> give 0
       | Some (p, rest) \<Rightarrow> after_headers H k (length (c_rxbuf c)) p rest)))"

section \<open>WebSocket frames\<close>

text \<open>The length of the payload and the position after it, or \<open>None\<close> if there is not enough yet.\<close>

definition frame_length :: "byte list \<Rightarrow> (u64 \<times> nat) option" where
  "frame_length rx =
     (let len7 = rx ! 1 AND 0x7F;
          extended = (if len7 = 126 then 2 else if len7 = 127 then 8 else 0)
      in if extended > 0
         then (if length rx - 2 < extended then None
               else Some (foldl (\<lambda>v b. push_bit 8 v OR ucast b) 0 (take extended (drop 2 rx)), 2 + extended))
         else Some (ucast len7, 2))"

definition dispatch_frame :: "'h http_handler \<Rightarrow> nat \<Rightarrow> byte \<Rightarrow> string \<Rightarrow> ('h, unit) http" where
  "dispatch_frame H k opcode payload =
     (if opcode = k_ping then send_websocket_frame k k_pong payload
      else if opcode = k_binary \<or> opcode = k_text \<or> opcode = k_continuation
      then on_websocket_message H k payload (opcode = k_text)
      else if opcode = k_close then close k
      else give ())"

definition parse_one_websocket_frame :: "'h http_handler \<Rightarrow> nat \<Rightarrow> ('h, nat) http" where
  "parse_one_websocket_frame H k =
     then_with (get_conn k) (\<lambda>c.
     let rx = to_bytes (c_rxbuf c)
     in if length rx < 2 then give 0
        else case frame_length rx of
          None \<Rightarrow> give 0
        | Some (payload_len, rd) \<Rightarrow>
            if payload_len \<ge> c_max_request c - 4096 then then_do (close k) (give 0)
            else if rx ! 1 AND 0x80 = 0 then then_do (close k) (give 0)
            else if length rx - rd < 4 then give 0
            else if length rx - (rd + 4) < unat payload_len then give 0
            else let mask = take 4 (drop rd rx);
                     payload = apply_mask mask (take (unat payload_len) (drop (rd + 4) rx))
                 in then_do (dispatch_frame H k (rx ! 0 AND 0x0F) (of_bytes payload))
                      (give (rd + 4 + unat payload_len)))"

section \<open>Events of the sockets\<close>

text \<open>
  The loop on the requests in the buffer. Every request takes at least one byte, so as many rounds
  as there are bytes are enough if the handlers leave the buffer alone, as the class makes them.
\<close>

fun parse_loop :: "nat \<Rightarrow> 'h http_handler \<Rightarrow> nat \<Rightarrow> ('h, unit) http" where
  "parse_loop 0 H k = give ()"
| "parse_loop (Suc rounds) H k =
     then_with (get_conn k) (\<lambda>c.
     then_with (if c_websocket c then parse_one_websocket_frame H k else parse_one_http_request H k) (\<lambda>consumed.
       if consumed = 0 then give ()
       else then_do (on_conn k (\<lambda>c. c\<lparr>c_rxbuf := drop consumed (c_rxbuf c)\<rparr>)) (parse_loop rounds H k)))"

text \<open>The receiving loop: \<open>Receive\<close> hands over what has arrived, as far as there is room.\<close>

definition receive_all :: "connection \<Rightarrow> connection" where
  "receive_all c =
     (let avail = unat (c_max_request c) - length (c_rxbuf c)
      in if c_open c
         then c\<lparr>c_rxbuf := c_rxbuf c @ take avail (c_inbox c), c_inbox := drop avail (c_inbox c)\<rparr> else c)"

definition on_data_available :: "'h http_handler \<Rightarrow> nat \<Rightarrow> ('h, unit) http" where
  "on_data_available H k =
     then_with (look (\<lambda>s. omap_find (clients s) k)) (\<lambda>found. case found of
       None \<Rightarrow> throw Aborted
     | Some c \<Rightarrow>
         if length (c_rxbuf c) = unat (c_max_request c)
         then send_response_and_close k ''413 Payload Too Large'' [] []
         else then_do (put_conn k (receive_all c)) (parse_loop (Suc (length (c_rxbuf (receive_all c)))) H k))"

definition on_new_incoming_connection :: "nat \<Rightarrow> ('h, unit) http" where
  "on_new_incoming_connection k =
     change (\<lambda>s. if is_stopping s then s
       else s\<lparr>clients := omap_set k (new_connection (max_payload_size s + 4096)) (clients s)\<rparr>)"

definition on_disconnect :: "'h http_handler \<Rightarrow> nat \<Rightarrow> ('h, unit) http" where
  "on_disconnect H k =
     then_with (look (\<lambda>s. \<not> is_stopping s \<and> omap_find (clients s) k \<noteq> None)) (\<lambda>known.
       only_if known (then_do (on_connection_closed H k)
         (change (\<lambda>s. s\<lparr>clients := omap_erase k (clients s)\<rparr>))))"

definition add_allowed_origin :: "string \<Rightarrow> ('h, unit) http" where
  "add_allowed_origin origin = change (\<lambda>s. s\<lparr>allowed_origins := allowed_origins s @ [origin]\<rparr>)"

definition stop_server :: "'h http_handler \<Rightarrow> ('h, unit) http" where
  "stop_server H =
     then_with (look (\<lambda>s. (is_stopping s, map fst (clients s)))) (\<lambda>(stopping, ks).
       only_if (\<not> stopping) (
         then_do (change (\<lambda>s. s\<lparr>is_stopping := True\<rparr>)) (
         then_do (for_each ks (\<lambda>k. then_do (on_connection_closed H k) (on_conn k (\<lambda>c. c\<lparr>c_open := False\<rparr>))))
           (change (\<lambda>s. s\<lparr>clients := []\<rparr>)))))"

end
