(* ===== verification/Http_Client.thy ===== *)
theory Http_Client
  imports Http_Server
begin

text \<open>
  The HTTP client (\<open>net/http_client.h\<close>, \<open>net/http_client.cc\<close>): requests as text, responses from the bytes of the
  transport, redirects, cookies, cancelling.

  A client is a record with the members of the class. The transport is what was sent on it; connecting and sending
  succeed as the environment says. Listeners are handles whose methods are effects on the client, as they may call its
  methods. Tasks posted to the runner stand in \<open>hc_posted\<close> until they are run. An operation that calls itself without end
  has no result: \<open>None\<close>; \<open>Inl\<close> is an exception nobody catches. The mutexes and condition variables are left out: the operations run on the runner's thread.
\<close>

section \<open>Requests\<close>

record client_file =
  cf_field :: string
  cf_name :: string
  cf_type :: string
  cf_path :: string

record out_request =
  rq_method :: http_method
  rq_url :: http_url
  rq_headers :: http_headers
  rq_body :: string
  rq_timeout :: u32
  rq_fields :: "(string \<times> string) list"
  rq_files :: "client_file list"
  rq_boundary :: string

definition new_out_request :: out_request where
  "new_out_request = \<lparr>rq_method = M_get, rq_url = empty_url, rq_headers = [], rq_body = [], rq_timeout = 30000,
     rq_fields = [], rq_files = [], rq_boundary = []\<rparr>"

definition is_multipart :: "out_request \<Rightarrow> bool" where
  "is_multipart r \<longleftrightarrow> rq_fields r \<noteq> [] \<or> rq_files r \<noteq> []"

definition request_add_header :: "string \<Rightarrow> string \<Rightarrow> out_request \<Rightarrow> out_request" where
  "request_add_header name v r = r\<lparr>rq_headers := rq_headers r @ [header name v]\<rparr>"

definition set_content_type :: "string \<Rightarrow> out_request \<Rightarrow> out_request" where
  "set_content_type ty = request_add_header ''Content-Type'' ty"

definition set_user_agent :: "string \<Rightarrow> out_request \<Rightarrow> out_request" where
  "set_user_agent agent = request_add_header ''User-Agent'' agent"

definition set_authorization :: "string \<Rightarrow> out_request \<Rightarrow> out_request" where
  "set_authorization auth = request_add_header ''Authorization'' auth"

definition set_body :: "string \<Rightarrow> string \<Rightarrow> out_request \<Rightarrow> out_request" where
  "set_body data ty r = (let r1 = r\<lparr>rq_body := data\<rparr> in if ty \<noteq> [] then set_content_type ty r1 else r1)"

definition set_json_body :: "string \<Rightarrow> out_request \<Rightarrow> out_request" where
  "set_json_body json = set_body json ''application/json''"

definition set_form_body :: "(string, string) omap \<Rightarrow> out_request \<Rightarrow> out_request" where
  "set_form_body form_data = set_body (form_data_encode form_data) ''application/x-www-form-urlencoded''"

definition set_multipart_body :: "(string \<times> string) list \<Rightarrow> client_file list \<Rightarrow> out_request \<Rightarrow> out_request" where
  "set_multipart_body flds files r = r\<lparr>rq_fields := flds, rq_files := files\<rparr>"

text \<open>The requests of \<open>Get\<close>, \<open>Post\<close> and their variants.\<close>

definition get_request :: "string \<Rightarrow> out_request" where
  "get_request url = new_out_request\<lparr>rq_method := M_get, rq_url := parse_url url\<rparr>"

definition post_request :: "string \<Rightarrow> string \<Rightarrow> string \<Rightarrow> out_request" where
  "post_request url body ty = set_body body ty (new_out_request\<lparr>rq_method := M_post, rq_url := parse_url url\<rparr>)"

definition post_json_request :: "string \<Rightarrow> string \<Rightarrow> out_request" where
  "post_json_request url json = post_request url json ''application/json''"

definition post_form_request :: "string \<Rightarrow> (string, string) omap \<Rightarrow> out_request" where
  "post_form_request url form_data = set_form_body form_data (new_out_request\<lparr>rq_method := M_post, rq_url := parse_url url\<rparr>)"

definition post_multipart_request :: "string \<Rightarrow> (string \<times> string) list \<Rightarrow> client_file list \<Rightarrow> string \<Rightarrow> out_request" where
  "post_multipart_request url flds files boundary =
     new_out_request\<lparr>rq_method := M_post, rq_url := parse_url url, rq_fields := flds, rq_files := files,
       rq_boundary := boundary\<rparr>"

section \<open>Responses and the state of a request\<close>

record in_response =
  rs_code :: int
  rs_message :: string
  rs_headers :: http_headers
  rs_body :: string
  rs_length :: u64
  rs_chunked :: bool

definition empty_response :: in_response where
  "empty_response = \<lparr>rs_code = 0, rs_message = [], rs_headers = [], rs_body = [], rs_length = 0, rs_chunked = False\<rparr>"

definition response_header :: "in_response \<Rightarrow> string \<Rightarrow> string" where
  "response_header r name = get_header_value (rs_headers r) name"

definition response_has_header :: "in_response \<Rightarrow> string \<Rightarrow> bool" where
  "response_has_header r name = has_header (rs_headers r) name"

definition is_successful :: "in_response \<Rightarrow> bool" where
  "is_successful r \<longleftrightarrow> rs_code r \<ge> 200 \<and> rs_code r < 300"

definition is_redirect :: "in_response \<Rightarrow> bool" where
  "is_redirect r \<longleftrightarrow> rs_code r \<ge> 300 \<and> rs_code r < 400"

definition is_error_response :: "in_response \<Rightarrow> bool" where
  "is_error_response r \<longleftrightarrow> rs_code r \<ge> 400"

record request_state =
  st_request :: out_request
  st_response :: in_response
  st_buffer :: string
  st_headers_received :: bool
  st_has_length :: bool
  st_length :: u64
  st_bytes_received :: u64
  st_body_bytes :: u64
  st_chunked :: bool
  st_chunk_size :: i32
  st_redirects :: int
  st_timeout :: u32
  st_timeout_scheduled :: bool
  st_completed :: bool
  st_in_callback :: bool
  st_cancel_requested :: bool
  st_cancel_scheduled :: bool
  st_bytes_sent :: u64
  st_total_bytes :: u64

definition reset_state :: request_state where
  "reset_state = \<lparr>st_request = new_out_request, st_response = empty_response, st_buffer = [], st_headers_received = False,
     st_has_length = False, st_length = 0, st_bytes_received = 0, st_body_bytes = 0, st_chunked = False,
     st_chunk_size = - 1, st_redirects = 0, st_timeout = 0, st_timeout_scheduled = False, st_completed = False,
     st_in_callback = False, st_cancel_requested = False, st_cancel_scheduled = False, st_bytes_sent = 0,
     st_total_bytes = 0\<rparr>"

datatype client_state = St_idle | St_connecting | St_sending | St_receiving | St_completed | St_error

record tls_config =
  tls_cert :: string
  tls_key :: string
  tls_ca :: string
  tls_verify :: bool

record transport =
  tr_url :: http_url
  tr_tls :: bool
  tr_config :: tls_config
  tr_sent :: "string list"

datatype client_task = Deferred_cancel u64 | Timeout_task u64 | Response_task nat in_response | Error_task nat string

record 'w http_client =
  hc_state :: client_state
  hc_listener :: "nat option"
  hc_current :: request_state
  hc_last :: in_response
  hc_default_headers :: http_headers
  hc_timeout :: u32
  hc_follow :: bool
  hc_max_redirects :: int
  hc_keep_alive :: bool
  hc_max_buffer :: u64
  hc_verify :: bool
  hc_cert :: string
  hc_cookies :: "(string, (string, string) omap) omap"
  hc_generation :: u64
  hc_active :: u64
  hc_alive :: bool
  hc_transport :: "transport option"
  hc_posted :: "client_task list"
  hc_world :: 'w

type_synonym 'w client_op = "'w http_client \<Rightarrow> 'w http_client"

record 'w client_env =
  ev_connect :: "http_url \<Rightarrow> 'w http_client \<Rightarrow> bool \<times> 'w http_client"
  ev_send :: "string \<Rightarrow> 'w \<Rightarrow> bool \<times> 'w"
  ev_file :: "string \<Rightarrow> string option"
  ev_file_size :: "string \<Rightarrow> u64"
  ev_rand :: "'w \<Rightarrow> nat \<times> 'w"
  on_progress :: "nat \<Rightarrow> u64 \<Rightarrow> u64 \<Rightarrow> 'w client_op"
  on_redirect :: "nat \<Rightarrow> string \<Rightarrow> 'w client_op"
  on_body_data :: "nat \<Rightarrow> string \<Rightarrow> 'w http_client \<Rightarrow> bool \<times> 'w http_client"
  on_http_response :: "nat \<Rightarrow> in_response \<Rightarrow> 'w client_op"
  on_http_error :: "nat \<Rightarrow> string \<Rightarrow> 'w client_op"

definition on_current :: "(request_state \<Rightarrow> request_state) \<Rightarrow> 'w client_op" where
  "on_current f c = c\<lparr>hc_current := f (hc_current c)\<rparr>"

section \<open>Settings and cookies\<close>

definition add_default_header :: "string \<Rightarrow> string \<Rightarrow> 'w client_op" where
  "add_default_header name v c = c\<lparr>hc_default_headers := add_header (hc_default_headers c) name v\<rparr>"

definition set_default_headers :: "http_headers \<Rightarrow> 'w client_op" where
  "set_default_headers hs c = c\<lparr>hc_default_headers := hs\<rparr>"

definition client_set_user_agent :: "string \<Rightarrow> 'w client_op" where
  "client_set_user_agent agent = add_default_header ''User-Agent'' agent"

definition set_timeout :: "u32 \<Rightarrow> 'w client_op" where
  "set_timeout ms c = c\<lparr>hc_timeout := ms\<rparr>"

definition set_follow_redirects :: "bool \<Rightarrow> int \<Rightarrow> 'w client_op" where
  "set_follow_redirects follow max_redirects c = c\<lparr>hc_follow := follow, hc_max_redirects := max_redirects\<rparr>"

definition set_keep_alive :: "bool \<Rightarrow> 'w client_op" where
  "set_keep_alive b c = c\<lparr>hc_keep_alive := b\<rparr>"

definition set_max_receive_buffer_size :: "u64 \<Rightarrow> 'w client_op" where
  "set_max_receive_buffer_size n c = c\<lparr>hc_max_buffer := n\<rparr>"

definition set_verify_ssl :: "bool \<Rightarrow> 'w client_op" where
  "set_verify_ssl b c = c\<lparr>hc_verify := b\<rparr>"

definition set_ssl_certificate :: "string \<Rightarrow> 'w client_op" where
  "set_ssl_certificate path c = c\<lparr>hc_cert := path\<rparr>"

definition set_cookie :: "string \<Rightarrow> string \<Rightarrow> string \<Rightarrow> 'w client_op" where
  "set_cookie name v domain c =
     (let jar = (case omap_find (hc_cookies c) domain of Some m \<Rightarrow> m | None \<Rightarrow> [])
      in c\<lparr>hc_cookies := omap_set domain (omap_set name v jar) (hc_cookies c)\<rparr>)"

definition clear_cookies :: "'w client_op" where
  "clear_cookies c = c\<lparr>hc_cookies := []\<rparr>"

definition get_cookies :: "string \<Rightarrow> 'w http_client \<Rightarrow> string" where
  "get_cookies domain c =
     join_strings (map (\<lambda>(name, v). name @ ''='' @ v)
       (concat (map snd (filter (\<lambda>(d, jar). d = [] \<or> d = domain) (hc_cookies c))))) ''; ''"

definition process_set_cookie_header :: "string \<Rightarrow> string \<Rightarrow> 'w client_op" where
  "process_set_cookie_header cookie_header domain c =
     (case find_sub ''='' cookie_header of
        None \<Rightarrow> c
      | Some eq_pos \<Rightarrow>
          let rest = drop (eq_pos + 1) cookie_header
          in set_cookie (take eq_pos cookie_header)
               (case find_sub '';'' cookie_header of
                  Some semicolon_pos \<Rightarrow> if semicolon_pos < eq_pos then rest else take (semicolon_pos - eq_pos - 1) rest
                | None \<Rightarrow> rest) domain c)"

definition new_client :: "'w \<Rightarrow> 'w http_client" where
  "new_client w = client_set_user_agent ''xtils/1.0''
     \<lparr>hc_state = St_idle, hc_listener = None, hc_current = reset_state, hc_last = empty_response, hc_default_headers = [],
      hc_timeout = 30000, hc_follow = True, hc_max_redirects = 5, hc_keep_alive = True,
      hc_max_buffer = 100 * 1024 * 1024, hc_verify = True, hc_cert = [], hc_cookies = [], hc_generation = 0,
      hc_active = 0, hc_alive = True, hc_transport = None, hc_posted = [], hc_world = w\<rparr>"

definition is_busy :: "'w http_client \<Rightarrow> bool" where
  "is_busy c \<longleftrightarrow> hc_state c \<noteq> St_idle \<and> hc_state c \<noteq> St_completed \<and> hc_state c \<noteq> St_error"

section \<open>Requests as text\<close>

definition merge_header :: "http_header \<Rightarrow> http_headers \<Rightarrow> http_headers" where
  "merge_header h merged =
     (if list_ex (\<lambda>d. h_name d = h_name h) merged
      then takeWhile (\<lambda>d. h_name d \<noteq> h_name h) merged @
        (case dropWhile (\<lambda>d. h_name d \<noteq> h_name h) merged of [] \<Rightarrow> [] | d # ds \<Rightarrow> (d\<lparr>h_value := h_value h\<rparr>) # ds)
      else merged @ [h])"

definition merge_headers :: "http_headers \<Rightarrow> http_headers \<Rightarrow> http_headers" where
  "merge_headers defaults request_headers = fold merge_header request_headers defaults"

definition host_text :: "http_url \<Rightarrow> string" where
  "host_text u =
     u_host u @
     (if u_scheme u = ''http'' \<and> u_port u \<noteq> 80 \<and> u_port u \<noteq> 0 \<or> u_scheme u = ''https'' \<and> u_port u \<noteq> 443 \<and> u_port u \<noteq> 0
      then '':'' @ show_nat (unat (u_port u)) else [])"

definition request_target :: "http_url \<Rightarrow> string" where
  "request_target u = (if u_path u = [] then ''/'' else u_path u) @ (if u_query u \<noteq> [] then ''?'' @ u_query u else [])"

definition out_line :: "string \<Rightarrow> string \<Rightarrow> string" where
  "out_line name v = name @ '': '' @ v @ crlf"

definition build_http_request :: "'w http_client \<Rightarrow> out_request \<Rightarrow> string" where
  "build_http_request c r =
     (let merged = merge_headers (hc_default_headers c) (rq_headers r); cookies = get_cookies (u_host (rq_url r)) c
      in http_method_to_string (rq_method r) @ '' '' @ request_target (rq_url r) @ '' HTTP/1.1'' @ crlf @
         out_line ''Host'' (host_text (rq_url r)) @
         concat (map (\<lambda>h. out_line (h_name h) (h_value h)) merged) @
         (if cookies \<noteq> [] then out_line ''Cookie'' cookies else []) @
         out_line ''Connection'' (if hc_keep_alive c then ''keep-alive'' else ''close'') @
         (if is_multipart r
          then out_line ''Content-Type'' (''multipart/form-data; boundary='' @ rq_boundary r) @
               out_line ''Content-Length'' (show_nat (unat (st_total_bytes (hc_current c))))
          else if rq_body r \<noteq> [] \<and> \<not> has_header merged ''Content-Length''
          then out_line ''Content-Length'' (show_nat (length (rq_body r))) else []) @
         crlf @ (if is_multipart r then [] else rq_body r))"

text \<open>What a multipart body is announced to take; \<open>Inl\<close> is what is thrown when the size of a file is 0 or cannot be found.\<close>

definition field_size :: "string \<Rightarrow> string \<times> string \<Rightarrow> u64" where
  "field_size boundary f =
     of_nat (2 + length boundary + 2) + of_nat (39 + length (fst f) + 4) + of_nat (length (snd f) + 2)"

definition file_part_size :: "string \<Rightarrow> client_file \<Rightarrow> u64 \<Rightarrow> u64" where
  "file_part_size boundary f file_size =
     of_nat (2 + length boundary + 2) + of_nat (38 + length (cf_field f) + 13 + length (cf_name f) + 3) +
     of_nat (14 + length (cf_type f) + 4) + file_size + 2"

fun files_size :: "(string \<Rightarrow> u64) \<Rightarrow> string \<Rightarrow> client_file list \<Rightarrow> string + u64" where
  "files_size size_of boundary [] = Inr 0"
| "files_size size_of boundary (f # fs) =
     (if size_of (cf_path f) = 0 then Inl (''Failed to get file size for: '' @ cf_path f)
      else case files_size size_of boundary fs of
        Inl e \<Rightarrow> Inl e
      | Inr n \<Rightarrow> Inr (file_part_size boundary f (size_of (cf_path f)) + n))"

definition calculate_multipart_size ::
    "(string \<Rightarrow> u64) \<Rightarrow> (string \<times> string) list \<Rightarrow> client_file list \<Rightarrow> string \<Rightarrow> string + u64" where
  "calculate_multipart_size size_of flds files boundary =
     (case files_size size_of boundary files of
        Inl e \<Rightarrow> Inl e
      | Inr n \<Rightarrow> Inr (sum_list (map (field_size boundary) flds) + n + of_nat (2 + length boundary + 4)))"

definition alphanum :: string where
  "alphanum = ''0123456789ABCDEFGHIJKLMNOPQRSTUVWXYZabcdefghijklmnopqrstuvwxyz''"

fun random_chars :: "('w \<Rightarrow> nat \<times> 'w) \<Rightarrow> nat \<Rightarrow> 'w \<Rightarrow> string \<times> 'w" where
  "random_chars rand 0 w = ([], w)"
| "random_chars rand (Suc n) w =
     (let (x, w1) = rand w; (s, w2) = random_chars rand n w1 in (alphanum ! (x mod length alphanum) # s, w2))"

definition generate_boundary :: "('w \<Rightarrow> nat \<times> 'w) \<Rightarrow> 'w \<Rightarrow> string \<times> 'w" where
  "generate_boundary rand w = (let (s, w1) = random_chars rand 16 w in (''----XTILSFormBoundary'' @ s, w1))"

section \<open>Ending a request\<close>

text \<open>\<open>CancelOnRunner\<close>: inside a callback the transport is closed later, by a posted task.\<close>

definition cancel_on_runner :: "'w client_op" where
  "cancel_on_runner c =
     (if st_completed (hc_current c) \<or> hc_state c = St_idle then c
      else let response = (st_response (hc_current c))\<lparr>rs_code := 0, rs_message := ''Request cancelled''\<rparr>;
               c1 = on_current (\<lambda>s. s\<lparr>st_response := response, st_completed := True, st_cancel_requested := True\<rparr>)
                 (c\<lparr>hc_active := hc_active c + 1, hc_last := response, hc_listener := None\<rparr>)
           in if st_in_callback (hc_current c) then c1 else c1\<lparr>hc_state := St_idle, hc_transport := None\<rparr>)"

definition finish_deferred_cancel :: "'w http_client \<Rightarrow> bool \<times> 'w http_client" where
  "finish_deferred_cancel c =
     (if \<not> st_cancel_requested (hc_current c) then (False, c)
      else if st_cancel_scheduled (hc_current c) then (True, c)
      else (True, (on_current (\<lambda>s. s\<lparr>st_cancel_scheduled := True\<rparr>) c)\<lparr>hc_posted := hc_posted c @ [Deferred_cancel (hc_active c)]\<rparr>))"

definition run_deferred_cancel :: "u64 \<Rightarrow> 'w client_op" where
  "run_deferred_cancel generation c =
     (if hc_active c \<noteq> generation \<or> \<not> st_cancel_requested (hc_current c) then c
      else on_current (\<lambda>s. s\<lparr>st_cancel_requested := False, st_cancel_scheduled := False\<rparr>)
        (c\<lparr>hc_transport := None, hc_state := St_idle\<rparr>))"

text \<open>A call of a listener: what it returns, whether it has cancelled the request.\<close>

definition in_callback :: "('w http_client \<Rightarrow> 'a \<times> 'w http_client) \<Rightarrow> 'w http_client \<Rightarrow> bool \<times> 'a \<times> 'w http_client" where
  "in_callback f c =
     (let (a, c1) = f (on_current (\<lambda>s. s\<lparr>st_in_callback := True\<rparr>) c);
          (stop, c2) = finish_deferred_cancel (on_current (\<lambda>s. s\<lparr>st_in_callback := False\<rparr>) c1)
      in (stop, a, c2))"

definition report_progress :: "'w client_env \<Rightarrow> u64 \<Rightarrow> u64 \<Rightarrow> 'w http_client \<Rightarrow> bool \<times> 'w http_client" where
  "report_progress E done all_bytes c =
     (case hc_listener c of
        None \<Rightarrow> (False, c)
      | Some l \<Rightarrow> (case in_callback (\<lambda>c. ((), on_progress E l done all_bytes c)) c of (stop, _, c1) \<Rightarrow> (stop, c1)))"

text \<open>The second result: whether the data are appended to the body.\<close>

definition offer_body :: "'w client_env \<Rightarrow> string \<Rightarrow> 'w http_client \<Rightarrow> bool \<times> bool \<times> 'w http_client" where
  "offer_body E data c =
     (case hc_listener c of None \<Rightarrow> (False, True, c) | Some l \<Rightarrow> in_callback (on_body_data E l data) c)"

definition handle_error :: "string \<Rightarrow> 'w client_op" where
  "handle_error error c =
     (if st_completed (hc_current c) then c
      else let response = (st_response (hc_current c))\<lparr>rs_code := 0, rs_message := error\<rparr>
           in on_current (\<lambda>s. s\<lparr>st_response := response, st_completed := True\<rparr>)
                (c\<lparr>hc_last := response, hc_state := St_idle,
                   hc_posted := hc_posted c @ (case hc_listener c of Some l \<Rightarrow> [Error_task l error] | None \<Rightarrow> [])\<rparr>))"

definition default_tls_config :: tls_config where
  "default_tls_config = \<lparr>tls_cert = [], tls_key = [], tls_ca = ''/etc/ssl/certs/ca-certificates.crt'', tls_verify = True\<rparr>"

definition client_tls_config :: "'w http_client \<Rightarrow> tls_config" where
  "client_tls_config c =
     (if \<not> hc_verify c then \<lparr>tls_cert = [], tls_key = [], tls_ca = [], tls_verify = False\<rparr>
      else if hc_cert c \<noteq> [] then default_tls_config\<lparr>tls_cert := hc_cert c\<rparr> else default_tls_config)"

definition connect_to_host :: "'w client_env \<Rightarrow> http_url \<Rightarrow> 'w http_client \<Rightarrow> bool \<times> 'w http_client" where
  "connect_to_host E url c =
     ev_connect E url (c\<lparr>hc_state := St_connecting,
       hc_transport := Some \<lparr>tr_url = url, tr_tls = is_https url, tr_config = client_tls_config c, tr_sent = []\<rparr>\<rparr>)"

text \<open>The part of \<open>HandleRedirect\<close> that follows the redirect.\<close>

definition redirect_url :: "http_url \<Rightarrow> string \<Rightarrow> http_url" where
  "redirect_url u location =
     (if hd location = CHR ''/'' then (base_url u)\<lparr>u_path := location\<rparr> else parse_url location)"

definition next_request_state :: "http_url \<Rightarrow> request_state \<Rightarrow> request_state" where
  "next_request_state url s =
     s\<lparr>st_request := (st_request s)\<lparr>rq_url := url\<rparr>, st_buffer := [], st_headers_received := False,
       st_has_length := False, st_length := 0, st_bytes_received := 0, st_body_bytes := 0, st_chunked := False,
       st_chunk_size := - 1, st_response := empty_response\<rparr>"

definition follow_redirect :: "'w client_env \<Rightarrow> 'w client_op" where
  "follow_redirect E c =
     (if st_redirects (hc_current c) \<ge> hc_max_redirects c then handle_error ''Too many redirects'' c
      else let location = response_header (st_response (hc_current c)) ''Location''
           in if location = [] then handle_error ''Redirect response missing Location header'' c
              else case (case hc_listener c of None \<Rightarrow> (False, (), c)
                         | Some l \<Rightarrow> in_callback (\<lambda>c. ((), on_redirect E l location c)) c) of (stop, _, c1) \<Rightarrow>
                if stop then c1
                else let c2 = on_current (\<lambda>s. s\<lparr>st_redirects := st_redirects s + 1\<rparr>) c1;
                         url = redirect_url (rq_url (st_request (hc_current c2))) location
                     in if \<not> is_valid_url url then handle_error ''Invalid redirect URL'' c2
                        else case connect_to_host E url (on_current (next_request_state url) c2) of
                          (ok, c3) \<Rightarrow> if ok then c3 else handle_error ''failed to send request'' c3)"

definition store_cookies :: "'w client_op" where
  "store_cookies c =
     fold (\<lambda>h. if h_name h = ''Set-Cookie''
               then process_set_cookie_header (h_value h) (u_host (rq_url (st_request (hc_current c)))) else (\<lambda>c. c))
       (rs_headers (st_response (hc_current c))) c"

definition complete_now :: "'w client_op" where
  "complete_now c =
     (if st_completed (hc_current c) then c
      else let c1 = store_cookies c; response = st_response (hc_current c1)
           in on_current (\<lambda>s. s\<lparr>st_completed := True\<rparr>)
                (c1\<lparr>hc_last := response, hc_state := St_idle,
                   hc_posted := hc_posted c1 @ (case hc_listener c1 of Some l \<Rightarrow> [Response_task l response] | None \<Rightarrow> [])\<rparr>))"

text \<open>\<open>CompleteRequest\<close> and \<open>HandleRedirect\<close> call each other.\<close>

partial_function (option) complete_request :: "'w client_env \<Rightarrow> 'w http_client \<Rightarrow> 'w http_client option" where
  "complete_request E c =
     (if is_redirect (st_response (hc_current c))
      then (if \<not> hc_follow c then complete_request E c else Some (follow_redirect E c))
      else Some (complete_now c))"

definition handle_redirect :: "'w client_env \<Rightarrow> 'w http_client \<Rightarrow> 'w http_client option" where
  "handle_redirect E c = (if \<not> hc_follow c then complete_request E c else Some (follow_redirect E c))"

section \<open>Sending a request\<close>

text \<open>\<open>Send\<close> of the transport.\<close>

definition tr_send :: "'w client_env \<Rightarrow> string \<Rightarrow> 'w http_client \<Rightarrow> bool \<times> 'w http_client" where
  "tr_send E bytes c =
     (case hc_transport c of
        None \<Rightarrow> (False, c)
      | Some tr \<Rightarrow>
          (case ev_send E bytes (hc_world c) of (ok, w) \<Rightarrow>
             (ok, if ok then c\<lparr>hc_world := w, hc_transport := Some (tr\<lparr>tr_sent := tr_sent tr @ [bytes]\<rparr>)\<rparr>
                  else c\<lparr>hc_world := w\<rparr>)))"

definition sent_more :: "nat \<Rightarrow> 'w client_op" where
  "sent_more n = on_current (\<lambda>s. s\<lparr>st_bytes_sent := st_bytes_sent s + of_nat n\<rparr>)"

definition send_counted :: "'w client_env \<Rightarrow> string \<Rightarrow> 'w http_client \<Rightarrow> bool \<times> 'w http_client" where
  "send_counted E bytes c = (case tr_send E bytes c of (ok, c1) \<Rightarrow> if ok then (True, sent_more (length bytes) c1) else (False, c1))"

definition sent_progress :: "'w client_env \<Rightarrow> 'w http_client \<Rightarrow> bool \<times> 'w http_client" where
  "sent_progress E c = report_progress E (st_bytes_sent (hc_current c)) (st_total_bytes (hc_current c)) c"

text \<open>One step after the other, as long as each succeeds.\<close>

fun all_ok :: "('w http_client \<Rightarrow> bool \<times> 'w http_client) list \<Rightarrow> 'w http_client \<Rightarrow> bool \<times> 'w http_client" where
  "all_ok [] c = (True, c)"
| "all_ok (f # fs) c = (case f c of (ok, c1) \<Rightarrow> if ok then all_ok fs c1 else (False, c1))"

definition unless_cancelled :: "('w http_client \<Rightarrow> bool \<times> 'w http_client) \<Rightarrow> 'w http_client \<Rightarrow> bool \<times> 'w http_client" where
  "unless_cancelled f c = (case f c of (stop, c1) \<Rightarrow> (\<not> stop, c1))"

text \<open>A \<open>StackString\<open><\<close>256\<open>>\<close>\<close>.\<close>

definition stack_string_256 :: "string \<Rightarrow> string" where
  "stack_string_256 formatted = c_str (take 255 formatted)"

definition dquote :: string where
  "dquote = [CHR 0x22]"

definition field_part :: "string \<Rightarrow> string \<times> string \<Rightarrow> string" where
  "field_part boundary f =
     ''--'' @ boundary @ crlf @
     stack_string (''Content-Disposition: form-data; name='' @ dquote @ c_str (fst f) @ dquote) @ crlf @ crlf @
     snd f @ crlf"

definition file_part_header :: "string \<Rightarrow> client_file \<Rightarrow> string" where
  "file_part_header boundary f =
     ''--'' @ boundary @ crlf @
     stack_string_256 (''Content-Disposition: form-data; name='' @ dquote @ c_str (cf_field f) @ dquote @
       ''; filename='' @ dquote @ c_str (cf_name f) @ dquote) @ crlf @
     ''Content-Type: '' @ cf_type f @ crlf @ crlf"

definition final_boundary :: "string \<Rightarrow> string" where
  "final_boundary boundary = ''--'' @ boundary @ ''--'' @ crlf"

text \<open>What \<open>read\<close> yields with a buffer of 4096 bytes.\<close>

function file_chunks :: "string \<Rightarrow> string list" where
  "file_chunks data = (if data = [] then [] else take 4096 data # file_chunks (drop 4096 data))"
  by pat_completeness auto
termination
  by (relation "measure length") auto

declare file_chunks.simps [simp del]

definition send_file_part :: "'w client_env \<Rightarrow> string \<Rightarrow> client_file \<Rightarrow> 'w http_client \<Rightarrow> bool \<times> 'w http_client" where
  "send_file_part E boundary f c =
     (case send_counted E (file_part_header boundary f) c of (ok, c1) \<Rightarrow>
        if \<not> ok then (False, c1)
        else case ev_file E (cf_path f) of
          None \<Rightarrow> (False, handle_error (''Failed to open file: '' @ cf_path f) c1)
        | Some data \<Rightarrow>
            all_ok (concat (map (\<lambda>d. [send_counted E d, unless_cancelled (sent_progress E)]) (file_chunks data)) @
              [unless_cancelled (sent_progress E), send_counted E crlf]) c1)"

definition send_multipart_body :: "'w client_env \<Rightarrow> out_request \<Rightarrow> 'w http_client \<Rightarrow> bool \<times> 'w http_client" where
  "send_multipart_body E r =
     all_ok (map (\<lambda>f. send_counted E (field_part (rq_boundary r) f)) (rq_fields r) @
       map (send_file_part E (rq_boundary r)) (rq_files r) @
       [send_counted E (final_boundary (rq_boundary r)), unless_cancelled (sent_progress E)])"

definition send_http_request :: "'w client_env \<Rightarrow> out_request \<Rightarrow> 'w http_client \<Rightarrow> bool \<times> 'w http_client" where
  "send_http_request E r c =
     (case tr_send E (build_http_request c r) c of (ok, c1) \<Rightarrow>
        if \<not> ok then (False, c1)
        else if is_multipart r then send_multipart_body E r c1 else (True, c1))"

section \<open>Receiving a response\<close>

text \<open>\<open>operator>>\<close> for a word and an \<open>int\<close>, then \<open>getline\<close>; once a reading has failed the rest is left as it was.\<close>

definition clamp_int :: "int \<Rightarrow> int \<times> bool" where
  "clamp_int i = (if i > 2147483647 then (2147483647, False) else if i < - 2147483648 then (- 2147483648, False) else (i, True))"

definition parse_status_line :: "string \<Rightarrow> int \<times> string" where
  "parse_status_line line =
     (case scan_integer 10 (dropWhile (\<lambda>x. \<not> is_space x) (dropWhile is_space line)) of
        None \<Rightarrow> (0, [])
      | Some (neg, v, rest) \<Rightarrow>
          (case clamp_int (if neg then - int v else int v) of (code, ok) \<Rightarrow>
             (code, if \<not> ok then [] else if rest \<noteq> [] \<and> hd rest = CHR '' '' then drop 1 rest else rest)))"

definition strip_cr :: "string \<Rightarrow> string" where
  "strip_cr line = (if line \<noteq> [] \<and> last line = cr then butlast line else line)"

definition parse_header_line :: "string \<Rightarrow> http_headers" where
  "parse_header_line line =
     (case find_sub '':'' line of
        None \<Rightarrow> []
      | Some colon_pos \<Rightarrow> [header (take colon_pos line) (trim_whitespace (drop (colon_pos + 1) line))])"

definition parse_response_headers :: "string \<Rightarrow> in_response \<Rightarrow> in_response" where
  "parse_response_headers header_text r =
     (case map strip_cr (getlines lf header_text) of
        [] \<Rightarrow> r
      | status # rest \<Rightarrow>
          (case parse_status_line status of (code, message) \<Rightarrow>
             r\<lparr>rs_code := code, rs_message := message,
               rs_headers := rs_headers r @ concat (map parse_header_line (takeWhile (\<lambda>l. l \<noteq> []) rest))\<rparr>))"

definition crlf2 :: string where
  "crlf2 = crlf @ crlf"

text \<open>The end of the headers has arrived: \<open>None\<close> as the result when the request has failed.\<close>

definition take_headers :: "nat \<Rightarrow> 'w http_client \<Rightarrow> bool \<times> 'w http_client" where
  "take_headers header_end c =
     (let s = hc_current c;
          response = parse_response_headers (take header_end (st_buffer s)) (st_response s);
          chunked = (find_sub ''chunked'' (response_header response ''Transfer-Encoding'') \<noteq> None);
          s1 = s\<lparr>st_headers_received := True, st_buffer := drop (header_end + 4) (st_buffer s),
            st_response := (if chunked then response\<lparr>rs_chunked := True\<rparr> else response), st_chunked := st_chunked s \<or> chunked\<rparr>;
          c1 = c\<lparr>hc_current := s1\<rparr>;
          length_str = response_header response ''Content-Length''
      in if length_str = [] then (True, c1)
         else case string_to_uint64 length_str 10 of
           None \<Rightarrow> (False, handle_error ''Invalid Content-Length header'' c1)
         | Some n \<Rightarrow>
             (let c2 = c\<lparr>hc_current := s1\<lparr>st_has_length := True, st_length := n,
                  st_response := (st_response s1)\<lparr>rs_length := n\<rparr>\<rparr>\<rparr>
              in if n > hc_max_buffer c
                 then (False, handle_error ''Response content length exceeds maximum buffer size'' c2)
                 else (True, c2)))"

definition append_body :: "bool \<Rightarrow> string \<Rightarrow> 'w client_op" where
  "append_body b data =
     on_current (\<lambda>s. if b then s\<lparr>st_response := (st_response s)\<lparr>rs_body := rs_body (st_response s) @ data\<rparr>\<rparr> else s)"

definition drop_buffer :: "nat \<Rightarrow> 'w client_op" where
  "drop_buffer n = on_current (\<lambda>s. s\<lparr>st_buffer := drop n (st_buffer s)\<rparr>)"

text \<open>The last chunk has arrived; what follows up to an empty line is dropped.\<close>

definition end_chunks :: "'w client_env \<Rightarrow> 'w http_client \<Rightarrow> 'w http_client option" where
  "end_chunks E c =
     (if take 2 (st_buffer (hc_current c)) = crlf then complete_request E (drop_buffer 2 c)
      else case find_sub crlf2 (st_buffer (hc_current c)) of
        Some trailer_end \<Rightarrow> complete_request E (drop_buffer (trailer_end + 4) c)
      | None \<Rightarrow> Some c)"

definition chunk_bytes :: "'w http_client \<Rightarrow> nat" where
  "chunk_bytes c = nat (sint (st_chunk_size (hc_current c)))"

text \<open>One chunk that has arrived whole: its data go to the listener and to the body.\<close>

definition take_chunk :: "'w client_env \<Rightarrow> 'w http_client \<Rightarrow> bool \<times> 'w http_client" where
  "take_chunk E c =
     (let n = chunk_bytes c; data = take n (st_buffer (hc_current c));
          c1 = on_current (\<lambda>s. s\<lparr>st_bytes_received := st_bytes_received s + of_nat n\<rparr>) c
      in case report_progress E (st_bytes_received (hc_current c1)) (- 1) c1 of (stop, c2) \<Rightarrow>
           if stop then (False, c2)
           else case offer_body E data c2 of (stop, b, c3) \<Rightarrow>
             if stop then (False, c3)
             else (True, on_current (\<lambda>s. s\<lparr>st_chunk_size := - 1\<rparr>) (drop_buffer (n + 2) (append_body b data c3))))"

text \<open>The line with the size of a chunk; \<open>int\<close> keeps the low 32 bits of it.\<close>

definition take_chunk_size :: "nat \<Rightarrow> 'w http_client \<Rightarrow> bool \<times> 'w http_client" where
  "take_chunk_size line_end c =
     (if sint (st_chunk_size (hc_current c)) \<ge> 0 then (True, c)
      else case string_to_uint64 (take line_end (st_buffer (hc_current c))) 16 of
        None \<Rightarrow> (False, handle_error ''Invalid chunk size in chunked encoding'' c)
      | Some n \<Rightarrow> (True, drop_buffer (line_end + 2) (on_current (\<lambda>s. s\<lparr>st_chunk_size := ucast n\<rparr>) c)))"

definition chunk_waiting :: "'w http_client \<Rightarrow> bool" where
  "chunk_waiting c \<longleftrightarrow> of_nat (length (st_buffer (hc_current c))) < (scast (st_chunk_size (hc_current c) + 2) :: u64)"

text \<open>
  The loop on the chunks. A size of \<open>-1\<close> or \<open>-2\<close> passes the test above and is converted to \<open>size_t\<close>: a listener is
  handed a view of that many bytes, past the end of the buffer (\<open>Endless_view\<close>); without a listener
  \<open>std::string::append\<close> throws \<open>std::length_error\<close>.
\<close>

datatype client_fault = Length_error | Endless_view

type_synonym 'w client_result = "(client_fault + 'w http_client) option"

definition take_endless_chunk :: "'w client_env \<Rightarrow> 'w http_client \<Rightarrow> 'w client_result" where
  "take_endless_chunk E c =
     (let c1 = on_current (\<lambda>s. s\<lparr>st_bytes_received := st_bytes_received s + scast (st_chunk_size s)\<rparr>) c
      in case report_progress E (st_bytes_received (hc_current c1)) (- 1) c1 of (stop, c2) \<Rightarrow>
           if stop then Some (Inr c2) else Some (Inl (if hc_listener c2 = None then Length_error else Endless_view)))"

partial_function (option) process_chunked_body :: "'w client_env \<Rightarrow> 'w http_client \<Rightarrow> 'w client_result" where
  "process_chunked_body E c =
     (case find_sub crlf (st_buffer (hc_current c)) of
        None \<Rightarrow> Some (Inr c)
      | Some line_end \<Rightarrow>
          (case take_chunk_size line_end c of (ok, c1) \<Rightarrow>
             if \<not> ok then Some (Inr c1)
             else if st_chunk_size (hc_current c1) = 0 then map_option Inr (end_chunks E c1)
             else if chunk_waiting c1 then Some (Inr c1)
             else if sint (st_chunk_size (hc_current c1)) < 0 then take_endless_chunk E c1
             else (case take_chunk E c1 of (ok, c2) \<Rightarrow> if \<not> ok then Some (Inr c2) else process_chunked_body E c2)))"

text \<open>Body data that are not chunked; the first result is false when a listener has cancelled.\<close>

definition take_body :: "'w client_env \<Rightarrow> 'w http_client \<Rightarrow> bool \<times> 'w http_client" where
  "take_body E c =
     (let data = st_buffer (hc_current c) in
      if data = [] then (True, c)
      else case report_progress E (st_bytes_received (hc_current c)) (st_total_bytes (hc_current c)) c of (stop, c1) \<Rightarrow>
        if stop then (False, c1)
        else case offer_body E data c1 of (stop, b, c2) \<Rightarrow>
          if stop then (False, c2)
          else (True, on_current (\<lambda>s. s\<lparr>st_body_bytes := st_body_bytes s + of_nat (length data)\<rparr>) (append_body b data c2)))"

definition process_fixed_length_body :: "'w client_env \<Rightarrow> 'w http_client \<Rightarrow> 'w http_client option" where
  "process_fixed_length_body E c =
     (case take_body E c of (ok, c1) \<Rightarrow>
        if \<not> ok then Some c1
        else let c2 = on_current (\<lambda>s. s\<lparr>st_buffer := []\<rparr>) c1
             in if \<not> st_has_length (hc_current c2) then Some c2
                else if st_body_bytes (hc_current c2) \<ge> st_length (hc_current c2) then complete_request E c2
                else Some c2)"

definition process_received_data :: "'w client_env \<Rightarrow> string \<Rightarrow> 'w http_client \<Rightarrow> 'w client_result" where
  "process_received_data E data c =
     (let c1 = on_current (\<lambda>s. s\<lparr>st_buffer := st_buffer s @ data, st_bytes_received := st_bytes_received s + of_nat (length data)\<rparr>) c;
          (ok, c2) = (if st_headers_received (hc_current c1) then (True, c1)
             else case find_sub crlf2 (st_buffer (hc_current c1)) of
               None \<Rightarrow> (True, c1)
             | Some header_end \<Rightarrow> take_headers header_end c1)
      in if \<not> ok then Some (Inr c2)
         else if \<not> st_headers_received (hc_current c2) then Some (Inr c2)
         else if st_chunked (hc_current c2) then process_chunked_body E c2
         else map_option Inr (process_fixed_length_body E c2))"

section \<open>Events of the transport and the runner\<close>

definition closed_for_events :: "'w http_client \<Rightarrow> bool" where
  "closed_for_events c \<longleftrightarrow> st_completed (hc_current c) \<or> hc_state c = St_idle"

definition on_connected :: "'w client_env \<Rightarrow> bool \<Rightarrow> 'w client_op" where
  "on_connected E success c =
     (if st_completed (hc_current c) \<or> hc_state c \<noteq> St_connecting then c
      else if \<not> success then handle_error ''Failed to connect to host'' c
      else let c1 = c\<lparr>hc_state := St_sending\<rparr>;
               s = hc_current c1;
               c2 = (if st_timeout s > 0 \<and> \<not> st_timeout_scheduled s
                     then (on_current (\<lambda>s. s\<lparr>st_timeout_scheduled := True\<rparr>) c1)
                       \<lparr>hc_posted := hc_posted c1 @ [Timeout_task (hc_active c1)]\<rparr>
                     else c1)
           in case send_http_request E (st_request (hc_current c2)) c2 of (ok, c3) \<Rightarrow>
                if ok then c3 else handle_error ''Failed to send HTTP request'' c3)"

definition on_data_received :: "'w client_env \<Rightarrow> string \<Rightarrow> 'w http_client \<Rightarrow> 'w client_result" where
  "on_data_received E data c =
     (if closed_for_events c then Some (Inr c) else process_received_data E data (c\<lparr>hc_state := St_receiving\<rparr>))"

definition on_disconnected :: "'w client_env \<Rightarrow> 'w http_client \<Rightarrow> 'w http_client option" where
  "on_disconnected E c =
     (if closed_for_events c then Some c
      else if st_headers_received (hc_current c) \<and> \<not> st_chunked (hc_current c) \<and> \<not> st_has_length (hc_current c)
      then complete_request E c
      else if hc_state c = St_receiving then complete_request E c
      else Some c)"

definition on_transport_error :: "string \<Rightarrow> 'w client_op" where
  "on_transport_error error c = (if closed_for_events c then c else handle_error error c)"

text \<open>A posted task; on a client that was destroyed it does nothing.\<close>

definition run_task :: "'w client_env \<Rightarrow> client_task \<Rightarrow> 'w client_op" where
  "run_task E task c =
     (if \<not> hc_alive c then c
      else case task of
        Deferred_cancel generation \<Rightarrow> run_deferred_cancel generation c
      | Timeout_task generation \<Rightarrow>
          if hc_active c = generation \<and> is_busy c \<and> \<not> st_completed (hc_current c)
          then handle_error ''Request timeout'' c else c
      | Response_task l response \<Rightarrow> on_http_response E l response c
      | Error_task l error \<Rightarrow> on_http_error E l error c)"

text \<open>The destructor.\<close>

definition destroy_client :: "'w client_op" where
  "destroy_client c = cancel_on_runner (c\<lparr>hc_alive := False\<rparr>)"

section \<open>Starting a request\<close>

definition prepare_request :: "'w client_env \<Rightarrow> out_request \<Rightarrow> 'w http_client \<Rightarrow> string option \<times> 'w http_client" where
  "prepare_request E r c =
     (if \<not> is_valid_url (rq_url r) then (Some ''Invalid URL'', c)
      else if \<not> is_multipart r then (None, c)
      else let (boundary, w) = (if rq_boundary r = [] then generate_boundary (ev_rand E) (hc_world c) else (rq_boundary r, hc_world c));
               c1 = on_current (\<lambda>s. s\<lparr>st_request := r\<lparr>rq_boundary := boundary\<rparr>\<rparr>) (c\<lparr>hc_world := w\<rparr>)
           in case calculate_multipart_size (ev_file_size E) (rq_fields r) (rq_files r) boundary of
                Inl e \<Rightarrow> (Some e, c1)
              | Inr n \<Rightarrow> (None, on_current (\<lambda>s. s\<lparr>st_total_bytes := n\<rparr>) c1))"

definition start_failed :: "'w client_env \<Rightarrow> string \<Rightarrow> 'w client_op" where
  "start_failed E error c =
     (if st_completed (hc_current c) then c
      else let response = (st_response (hc_current c))\<lparr>rs_code := 0, rs_message := error\<rparr>;
               c1 = on_current (\<lambda>s. s\<lparr>st_response := response, st_completed := True\<rparr>) (c\<lparr>hc_last := response, hc_state := St_idle\<rparr>)
           in case hc_listener c of None \<Rightarrow> c1 | Some l \<Rightarrow> on_http_error E l error c1)"

definition send_async :: "'w client_env \<Rightarrow> out_request \<Rightarrow> nat option \<Rightarrow> 'w http_client \<Rightarrow> bool \<times> 'w http_client" where
  "send_async E r listener c =
     (if hc_state c \<noteq> St_idle then (False, c)
      else let c1 = c\<lparr>hc_state := St_connecting, hc_listener := listener, hc_active := hc_generation c + 1,
               hc_generation := hc_generation c + 1,
               hc_current := reset_state\<lparr>st_request := r,
                 st_timeout := (if rq_timeout r > 0 then rq_timeout r else hc_timeout c)\<rparr>\<rparr>
           in case prepare_request E r c1 of
                (Some error, c2) \<Rightarrow> (False, start_failed E error c2)
              | (None, c2) \<Rightarrow>
                  (case connect_to_host E (rq_url r) c2 of (ok, c3) \<Rightarrow>
                     if ok then (True, c3) else (False, start_failed E ''Failed to initiate connection'' c3)))"

text \<open>\<open>Send\<close>: what it returns when the request cannot be started, and after waiting for its end.\<close>

definition send_refused :: "'w http_client \<Rightarrow> in_response" where
  "send_refused c =
     (let m = (if st_completed (hc_current c) then rs_message (st_response (hc_current c)) else ''Client is busy'')
      in empty_response\<lparr>rs_message := (if m = [] then ''Failed to start request'' else m)\<rparr>)"

definition send_waited :: "'w http_client \<Rightarrow> in_response \<times> 'w http_client" where
  "send_waited c =
     (if st_completed (hc_current c) then (st_response (hc_current c), c)
      else (empty_response\<lparr>rs_message := ''Request timeout''\<rparr>, cancel_on_runner c))"

end
