(* ===== verification/String_Props.thy ===== *)
theory String_Props
  imports String_Utils
begin

text \<open>
  Properties of the string helpers: which byte strings survive UTF-8 cleaning, numbers read back
  from their text, and splitting what was joined.
\<close>

section \<open>UTF-8\<close>

text \<open>The encoding of a code point, from the definition of UTF-8.\<close>

definition utf8_bytes :: "nat \<Rightarrow> byte list" where
  "utf8_bytes cp =
     (if cp < 0x80 then [of_nat cp]
      else if cp < 0x800 then [of_nat (0xC0 + cp div 64), of_nat (0x80 + cp mod 64)]
      else if cp < 0x10000 then
        [of_nat (0xE0 + cp div 4096), of_nat (0x80 + cp div 64 mod 64), of_nat (0x80 + cp mod 64)]
      else [of_nat (0xF0 + cp div 262144), of_nat (0x80 + cp div 4096 mod 64),
            of_nat (0x80 + cp div 64 mod 64), of_nat (0x80 + cp mod 64)])"

text \<open>Unicode scalar values.\<close>

definition is_scalar :: "nat \<Rightarrow> bool" where
  "is_scalar cp \<longleftrightarrow> cp < 0x110000 \<and> \<not> (0xD800 \<le> cp \<and> cp < 0xE000)"

text \<open>What the scanner takes for one: it only bounds the sequences that begin with \<open>F4\<close>.\<close>

definition accepted :: "nat \<Rightarrow> bool" where
  "accepted cp \<longleftrightarrow> is_scalar cp \<or> 0x140000 \<le> cp \<and> cp < 0x200000"

lemma all_bytes:
  assumes "list_all (\<lambda>n. P (of_nat n)) [0..<256]"
  shows "P (b :: byte)"
proof -
  have "unat b < 256"
    using unsigned_less [of b, where ?'a = nat] by simp
  then have "P (of_nat (unat b))"
    using assms unfolding list_all_iff by (metis atLeastLessThan_iff set_upt zero_le)
  moreover have "of_nat (unat b) = b"
    by simp
  ultimately show ?thesis
    by metis
qed

lemma utf8_length_nat:
  "utf8_length b =
     (if unat b < 128 then Some 1 else if 192 \<le> unat b \<and> unat b < 224 then Some 2
      else if 224 \<le> unat b \<and> unat b < 240 then Some 3 else if 240 \<le> unat b \<and> unat b < 248 then Some 4
      else None)"
  by (rule all_bytes [of "\<lambda>b. utf8_length b =
     (if unat b < 128 then Some 1 else if 192 \<le> unat b \<and> unat b < 224 then Some 2
      else if 224 \<le> unat b \<and> unat b < 240 then Some 3 else if 240 \<le> unat b \<and> unat b < 248 then Some 4
      else None)"]) code_simp

lemma is_continuation_nat: "is_continuation b \<longleftrightarrow> 128 \<le> unat b \<and> unat b < 192"
  by (rule all_bytes [of "\<lambda>b. is_continuation b \<longleftrightarrow> 128 \<le> unat b \<and> unat b < 192"]) code_simp

lemma unat_small: "n < 256 \<Longrightarrow> unat (of_nat n :: byte) = n"
  by (simp add: unat_of_nat)

text \<open>A continuation byte holds six bits.\<close>

lemma continuation_bits:
  assumes "is_continuation b"
  obtains y where "y < 64" and "b = of_nat (128 + y)"
proof
  show "unat b - 128 < 64" and "b = of_nat (128 + (unat b - 128))"
    using assms by (auto simp: is_continuation_nat)
qed

lemma lead_bits:
  assumes "k \<le> unat b" and "unat b < k + m"
  obtains x where "x < m" and "b = of_nat (k + x)"
proof
  show "unat b - k < m" and "b = of_nat (k + (unat b - k))"
    using assms by auto
qed

lemma digits64:
  assumes "y < 64" and "z < 64"
  shows "((x * 64 + y) * 64 + z) div 4096 = x" "((x * 64 + y) * 64 + z) div 64 mod 64 = (y :: nat)"
    "((x * 64 + y) * 64 + z) mod 64 = z"
proof -
  have "((x * 64 + y) * 64 + z) div 64 = x * 64 + y"
    using assms by simp
  then show "((x * 64 + y) * 64 + z) div 64 mod 64 = y" "((x * 64 + y) * 64 + z) div 4096 = x"
    using assms div_mult2_eq [of "(x * 64 + y) * 64 + z" 64 64] by simp_all
  show "((x * 64 + y) * 64 + z) mod 64 = z"
    using assms by (metis mod_less mod_mult_self3)
qed

lemma digits64':
  assumes "v < 64" and "y < 64" and "z < 64"
  shows "(((x * 64 + v) * 64 + y) * 64 + z) div 262144 = x"
    "(((x * 64 + v) * 64 + y) * 64 + z) div 4096 mod 64 = (v :: nat)"
proof -
  have "(((x * 64 + v) * 64 + y) * 64 + z) div 4096 = x * 64 + v"
    using digits64(1) [OF assms(2,3)] .
  then show "(((x * 64 + v) * 64 + y) * 64 + z) div 4096 mod 64 = v"
    "(((x * 64 + v) * 64 + y) * 64 + z) div 262144 = x"
    using assms div_mult2_eq [of "((x * 64 + v) * 64 + y) * 64 + z" 4096 64] by simp_all
qed

text \<open>A sequence the scanner accepts is the encoding of an accepted code point, and conversely.\<close>

lemma step_encode:
  assumes "s \<noteq> []" and "utf8_step s = (True, n)"
  shows "\<exists>cp. accepted cp \<and> take n s = utf8_bytes cp"
proof -
  obtain m where len: "utf8_length (hd s) = Some m"
    using assms(2) by (cases "utf8_length (hd s)") (auto simp: utf8_step_def)
  have n: "n = m" "n \<le> length s" "\<not> utf8_excluded n (hd s) (s ! 1)" "list_all is_continuation (tl (take n s))"
    using assms(2) len by (auto simp: utf8_step_def split: if_splits)
  consider "n = 1" | "n = 2" | "n = 3" | "n = 4"
    using len n(1) by (auto simp: utf8_length_def split: if_splits)
  then show ?thesis
  proof cases
    case 1
    then have "unat (hd s) < 128"
      using len n(1) by (auto simp: utf8_length_nat split: if_splits)
    then show ?thesis
      using 1 assms(1)
      by (intro exI [of _ "unat (hd s)"]) (cases s; auto simp: accepted_def is_scalar_def utf8_bytes_def)
  next
    case 2
    then obtain c b r where s: "s = c # b # r"
      using n(2) by (metis One_nat_def Suc_1 Suc_le_length_iff)
    have "192 \<le> unat c" "unat c < 192 + 32" "is_continuation b" "194 \<le> unat c"
      using 2 len n s by (auto simp: utf8_length_nat utf8_excluded_def word_less_nat_alt split: if_splits)
    then obtain x y where xy: "x < 32" "c = of_nat (192 + x)" "y < 64" "b = of_nat (128 + y)"
      by (metis continuation_bits lead_bits)
    then have "2 \<le> x"
      using \<open>194 \<le> unat c\<close> by (simp add: unat_small del: of_nat_add)
    then show ?thesis
      using xy 2 s
      by (intro exI [of _ "x * 64 + y"]) (simp add: accepted_def is_scalar_def utf8_bytes_def)
  next
    case 3
    then obtain c b d r where s: "s = c # b # d # r"
      using n(2) by (metis Suc_le_length_iff numeral_3_eq_3)
    have c: "224 \<le> unat c" "unat c < 224 + 16" "is_continuation b" "is_continuation d"
      using 3 len n s by (auto simp: utf8_length_nat numeral_3_eq_3 split: if_splits)
    have ex: "\<not> (unat c = 224 \<and> unat b < 160)" "\<not> (unat c = 237 \<and> unat b \<ge> 160)"
      using 3 n s by (auto simp: utf8_excluded_def word_less_nat_alt word_le_nat_alt word_unat_eq_iff)
    obtain x y z where xyz: "x < 16" "c = of_nat (224 + x)" "y < 64" "b = of_nat (128 + y)" "z < 64"
        "d = of_nat (128 + z)"
      using c by (metis continuation_bits lead_bits)
    have ranges: "x = 0 \<longrightarrow> 32 \<le> y" "x = 13 \<longrightarrow> y < 32"
      using ex xyz by (auto simp: unat_small simp del: of_nat_add)
    let ?cp = "(x * 64 + y) * 64 + z"
    have "\<not> ?cp < 0x800" "?cp < 0x10000" "\<not> (0xD800 \<le> ?cp \<and> ?cp < 0xE000)"
      using ranges xyz by (cases "x = 0"; cases "x = 13"; auto)+
    then show ?thesis
      using xyz 3 s digits64 [OF xyz(3,5), of x]
      by (intro exI [of _ ?cp]) (simp add: accepted_def is_scalar_def utf8_bytes_def numeral_3_eq_3)
  next
    case 4
    then obtain c e b d r where s: "s = c # e # b # d # r"
      using n(2) by (cases s; cases "tl s"; cases "tl (tl s)"; cases "tl (tl (tl s))") auto
    have c: "240 \<le> unat c" "unat c < 240 + 8" "is_continuation e" "is_continuation b" "is_continuation d"
      using 4 len n s by (auto simp: utf8_length_nat eval_nat_numeral split: if_splits)
    have ex: "\<not> (unat c = 240 \<and> unat e < 144)" "\<not> (unat c = 244 \<and> unat e > 143)"
      using 4 n s by (auto simp: utf8_excluded_def word_less_nat_alt word_le_nat_alt word_unat_eq_iff)
    obtain x v y z where xyz: "x < 8" "c = of_nat (240 + x)" "v < 64" "e = of_nat (128 + v)" "y < 64"
        "b = of_nat (128 + y)" "z < 64" "d = of_nat (128 + z)"
      using c by (metis continuation_bits lead_bits)
    have ranges: "x = 0 \<longrightarrow> 16 \<le> v" "x = 4 \<longrightarrow> v < 16"
      using ex xyz by (auto simp: unat_small simp del: of_nat_add)
    define cp where "cp = ((x * 64 + v) * 64 + y) * 64 + z"
    have "\<not> cp < 0x10000" "accepted cp"
      using ranges xyz unfolding cp_def accepted_def is_scalar_def
      by (cases "x = 0"; cases "x < 4"; cases "x = 4"; auto)+
    moreover have "utf8_bytes cp = [c, e, b, d]" if "\<not> cp < 0x10000"
      using that digits64 [OF xyz(5,7), of "x * 64 + v"] digits64' [OF xyz(3,5,7), of x]
      unfolding cp_def [symmetric] utf8_bytes_def xyz by simp
    ultimately show ?thesis
      using 4 s by auto
  qed
qed

lemma low_part: "(q :: nat) div 64 = x \<Longrightarrow> q < x * 64 + k \<Longrightarrow> q mod 64 < k"
  using div_mult_mod_eq [of q 64] by simp

lemma unat_byte_sum: "k + n < 256 \<Longrightarrow> unat (of_nat (k + n) :: byte) = k + n"
  by (rule unat_small)

lemma encode_step:
  assumes "accepted cp"
  shows "utf8_step (utf8_bytes cp @ r) = (True, length (utf8_bytes cp))"
proof -
  note nat_simps = utf8_length_nat is_continuation_nat utf8_excluded_def word_less_nat_alt word_le_nat_alt
    word_unat_eq_iff unat_byte_sum
  have hi: "cp < 0x200000" and no_sur: "\<not> (0xD800 \<le> cp \<and> cp < 0xE000)"
    and gap: "\<not> (0x110000 \<le> cp \<and> cp < 0x140000)"
    using assms by (auto simp: accepted_def is_scalar_def)
  consider "cp < 0x80" | "0x80 \<le> cp" "cp < 0x800" | "0x800 \<le> cp" "cp < 0x10000" | "0x10000 \<le> cp"
    by linarith
  then show ?thesis
  proof cases
    case 1
    then show ?thesis
      by (simp add: utf8_step_def utf8_bytes_def utf8_length_nat unat_small utf8_excluded_def)
  next
    case 2
    then have "2 \<le> cp div 64" "cp div 64 < 32" "cp mod 64 < 64"
      by auto
    then show ?thesis
      using 2 by (simp add: utf8_step_def utf8_bytes_def nat_simps del: of_nat_add)
  next
    case 3
    have "cp div 4096 < 16" "cp div 4096 = 0 \<longrightarrow> 32 \<le> cp div 64 mod 64"
      using 3 by auto
    moreover have "cp div 4096 = 13 \<longrightarrow> cp div 64 mod 64 < 32"
    proof
      assume 13: "cp div 4096 = 13"
      then have "cp < 864 * 64"
        using no_sur by auto
      then have "cp div 64 < 13 * 64 + 32"
        using less_mult_imp_div_less by fastforce
      then show "cp div 64 mod 64 < 32"
        using 13 div_mult2_eq [of cp 64 64] by (intro low_part [of _ 13]) simp_all
    qed
    ultimately have "0 < cp div 4096 \<or> \<not> cp div 64 mod 64 < 32" "cp div 4096 = 13 \<longrightarrow> \<not> 32 \<le> cp div 64 mod 64"
      "cp div 4096 < 16"
      by linarith+
    then show ?thesis
      using 3 by (simp add: utf8_step_def utf8_bytes_def nat_simps del: of_nat_add)
  next
    case 4
    have "cp div 262144 < 8" "cp div 262144 = 0 \<longrightarrow> 16 \<le> cp div 4096 mod 64"
      using 4 hi by auto
    moreover have "cp div 262144 = 4 \<longrightarrow> cp div 4096 mod 64 < 16"
    proof
      assume x: "cp div 262144 = 4"
      then have "cp < 272 * 4096"
        using gap by auto
      then have "cp div 4096 < 4 * 64 + 16"
        using less_mult_imp_div_less by fastforce
      then show "cp div 4096 mod 64 < 16"
        using x div_mult2_eq [of cp 4096 64] by (intro low_part [of _ 4]) simp_all
    qed
    ultimately have "0 < cp div 262144 \<or> \<not> cp div 4096 mod 64 < 16" "cp div 262144 < 8"
      "cp div 262144 = 4 \<longrightarrow> \<not> 15 < cp div 4096 mod 64"
      by linarith+
    then show ?thesis
      using 4 by (simp add: utf8_step_def utf8_bytes_def nat_simps del: of_nat_add)
  qed
qed

lemma utf8_clean_nil [simp]: "utf8_clean [] = []"
  by (simp add: utf8_clean.simps)

lemma encode_nonempty: "utf8_bytes cp \<noteq> []"
  by (simp add: utf8_bytes_def)

lemma clean_encoded:
  assumes "list_all accepted cps"
  shows "utf8_clean (concat (map utf8_bytes cps)) = concat (map utf8_bytes cps)"
  using assms
proof (induction cps)
  case (Cons cp cps)
  then show ?case
    using encode_step [of cp "concat (map utf8_bytes cps)"] encode_nonempty [of cp]
    by (subst utf8_clean.simps) simp
qed simp

lemma clean_is_encoded: "\<exists>cps. list_all accepted cps \<and> utf8_clean s = concat (map utf8_bytes cps)"
proof (induction s rule: utf8_clean.induct)
  case (1 s)
  show ?case
  proof (cases "s = []")
    case True
    then show ?thesis
      by (intro exI [of _ "[]"]) simp
  next
    case False
    obtain valid n where step: "utf8_step s = (valid, n)"
      by (cases "utf8_step s")
    obtain cps where cps: "list_all accepted cps" "utf8_clean (drop n s) = concat (map utf8_bytes cps)"
      using 1 [OF False step [symmetric]] by auto
    have clean: "utf8_clean s = (if valid then take n s else []) @ utf8_clean (drop n s)"
      using False step by (subst utf8_clean.simps) simp
    show ?thesis
    proof (cases valid)
      case True
      then obtain cp where "accepted cp" "take n s = utf8_bytes cp"
        using step_encode [OF False] step by auto
      then show ?thesis
        using cps clean True by (intro exI [of _ "cp # cps"]) simp
    qed (use cps clean in auto)
  qed
qed

text \<open>Property C17. Cleaning leaves a sequence of encodings of the code points the scanner accepts, the Unicode
  scalar values and, as it bounds only sequences that begin with \<open>F4\<close>, the values \<open>0x140000\<close> to
  \<open>0x1FFFFF\<close>; it leaves exactly the strings of that form unchanged, valid UTF-8 among them, and
  cleaning twice is cleaning once.\<close>

theorem utf8_cleaning:
  "(\<exists>cps. list_all accepted cps \<and> utf8_clean s = concat (map utf8_bytes cps)) \<and>
   (utf8_clean s = s \<longleftrightarrow> (\<exists>cps. list_all accepted cps \<and> s = concat (map utf8_bytes cps))) \<and>
   utf8_clean (utf8_clean s) = utf8_clean s \<and>
   utf8_clean (utf8_bytes 0x140000) = [0xF5, 0x80, 0x80, 0x80]"
proof -
  have "utf8_clean s = s \<longleftrightarrow> (\<exists>cps. list_all accepted cps \<and> s = concat (map utf8_bytes cps))"
    using clean_is_encoded [of s] clean_encoded by metis
  moreover have "utf8_clean (utf8_clean s) = utf8_clean s"
    using clean_is_encoded [of s] clean_encoded by metis
  moreover have "utf8_clean (utf8_bytes 0x140000) = utf8_bytes 0x140000"
    using clean_encoded [of "[0x140000]"] by (simp add: accepted_def)
  moreover have "utf8_bytes 0x140000 = [0xF5, 0x80, 0x80, 0x80]"
    by (simp add: utf8_bytes_def)
  ultimately show ?thesis
    using clean_is_encoded by metis
qed

section \<open>Numbers\<close>

lemma digit_is_digit_of: "is_digit c \<Longrightarrow> is_digit_of 10 c \<and> the (alnum_value c) = digit_value c"
  by (auto simp: is_digit_def is_digit_of_def alnum_value_def ch_def digit_value_def)

lemma digits_value_of: "list_all is_digit s \<Longrightarrow> value_of 10 s = digits_value s"
proof -
  assume "list_all is_digit s"
  then have "foldl (\<lambda>a c. 10 * a + the (alnum_value c)) k s = foldl (\<lambda>a c. 10 * a + digit_value c) k s" for k
    by (induction s arbitrary: k) (simp_all add: digit_is_digit_of)
  then show ?thesis
    by (simp add: value_of_def digits_value_def)
qed

lemma digits_scanned:
  assumes "list_all is_digit s"
  shows "takeWhile (is_digit_of 10) s = s" "dropWhile (is_digit_of 10) s = []" "list_all (is_digit_of 10) s"
    "c_str s = s"
proof -
  have "is_digit_of 10 c" "c \<noteq> nul" if "c \<in> set s" for c
    using assms that digit_is_digit_of by (auto simp: list_all_iff nul_def is_digit_def)
  then show "takeWhile (is_digit_of 10) s = s" "dropWhile (is_digit_of 10) s = []" "list_all (is_digit_of 10) s"
    "c_str s = s"
    by (simp_all add: takeWhile_eq_all_conv dropWhile_eq_Nil_conv list_all_iff c_str_def)
qed

lemma scan_show_nat: "scan_integer 10 (show_nat n) = Some (False, n, [])"
proof -
  obtain c cs where s: "show_nat n = c # cs" "is_digit c" "list_all is_digit cs"
    using show_nat_Cons by blast
  have digits: "list_all is_digit (c # cs)"
    using s by simp
  have "\<not> is_space c" "c \<noteq> CHR ''-''" "c \<noteq> CHR ''+''"
    using s(2) by (auto simp: is_digit_def is_space_def)
  moreover have "skip_base_prefix 10 t = t" for t
    by (auto simp: skip_base_prefix_def split: list.splits)
  moreover have "value_of 10 (c # cs) = n"
    using digits_value_of [OF digits] s(1) by (metis digits_value_show_nat)
  ultimately show ?thesis
    using digits_scanned(1) [OF digits] digits_scanned(2) [OF digits]
    unfolding scan_integer_def take_sign_def s(1) by (simp del: takeWhile.simps dropWhile.simps
        takeWhile_eq_all_conv dropWhile_eq_Nil_conv add: dropWhile.simps [of is_space])
qed

lemma read_uint32_text:
  "string_to_uint32 (show_nat n) 10 = Some (if n < 2 ^ 64 then of_nat n else - 1)"
proof -
  have digits: "list_all is_digit (show_nat n)"
    by simp
  have "show_nat n \<noteq> []"
    using show_nat_Cons by (metis list.discI)
  moreover have "ucast (of_nat n :: u64) = (of_nat n :: u32)"
    by (rule bit_word_eqI) (simp add: bit_simps)
  moreover have "ucast (- 1 :: u64) = (- 1 :: u32)"
    by (rule bit_word_eqI) (simp add: bit_simps)
  ultimately show ?thesis
    unfolding string_to_uint32_def c_string_to_uint32_def strto_unsigned_def
    using digits_scanned(4) [OF digits] by (simp add: scan_show_nat whole_def)
qed

lemma read_number_view:
  "string_view_to_number 0 hi 10 (show_nat n) = (if int n \<le> hi then Some (int n) else None)"
  "hd (show_nat n) \<noteq> CHR ''-''"
proof -
  have digits: "list_all is_digit (show_nat n)"
    by simp
  obtain c cs where s: "show_nat n = c # cs" "is_digit c"
    using show_nat_Cons by blast
  have "value_of 10 (show_nat n) = n"
    using digits_value_of [OF digits] by simp
  moreover have minus: "hd (show_nat n) \<noteq> CHR ''-''" "hd (show_nat n) \<noteq> CHR ''+''"
    using s by (auto simp: is_digit_def)
  ultimately show "string_view_to_number 0 hi 10 (show_nat n) = (if int n \<le> hi then Some (int n) else None)"
    unfolding string_view_to_number_def from_chars_def
    using digits_scanned(3) [OF digits] s by (auto split: list.splits)
  show "hd (show_nat n) \<noteq> CHR ''-''"
    by (rule minus)
qed

lemma read_uint32_view:
  "string_view_to_uint32 (show_nat n) 10 = (if n < 2 ^ 32 then Some (of_nat n) else None)"
  using read_number_view(1) [of "2 ^ 32 - 1" n] read_number_view(2) [of n] by (auto simp: string_view_to_uint32_def)

lemma read_uint64_view:
  "string_view_to_uint64 (show_nat n) 10 = (if n < 2 ^ 64 then Some (of_nat n) else None)"
  using read_number_view(1) [of "2 ^ 64 - 1" n] read_number_view(2) [of n] by (auto simp: string_view_to_uint64_def)

text \<open>The text of a number below \<open>2^64\<close> is read back modulo \<open>2^32\<close> as a \<open>uint32_t\<close>: the
  conversion does not check the range, so \<open>4294967296\<close> is read as 0. The conversion of a view
  does, and refuses what does not fit.\<close>

theorem uint32_text:
  "string_to_uint32 (show_nat n) 10 = Some (if n < 2 ^ 64 then of_nat n else - 1) \<and>
   string_view_to_uint32 (show_nat n) 10 = (if n < 2 ^ 32 then Some (of_nat n) else None)"
  by (simp only: read_uint32_text read_uint32_view simp_thms)

section \<open>Splitting and joining\<close>

lemma find_char_none: "d \<notin> set p \<Longrightarrow> find_sub [d] p = None"
  by (induction p) (auto simp: starts_with_def)

lemma find_char_first: "d \<notin> set p \<Longrightarrow> find_sub [d] (p @ d # r) = Some (length p)"
  by (induction p) (auto simp: starts_with_def)

lemma join_nonempty: "ps \<noteq> [] \<Longrightarrow> (\<And>p. p \<in> set ps \<Longrightarrow> p \<noteq> []) \<Longrightarrow> join_strings ps d \<noteq> []"
  by (cases ps) auto

lemma split_loop_join:
  "(\<And>p. p \<in> set ps \<Longrightarrow> p \<noteq> [] \<and> d \<notin> set p) \<Longrightarrow> split_loop [d] (join_strings ps [d]) = ps"
proof (induction ps)
  case Nil
  show ?case
    by (simp add: split_loop.simps)
next
  case (Cons p ps)
  show ?case
  proof (cases "ps = []")
    case True
    then show ?thesis
      using Cons.prems by (subst split_loop.simps) (simp add: find_char_none)
  next
    case False
    then have "join_strings ps [d] \<noteq> []"
      using Cons.prems by (intro join_nonempty) auto
    then have "split_loop [d] (join_strings (p # ps) [d]) = p # split_loop [d] (join_strings ps [d])"
      using Cons.prems [of p] False by (subst split_loop.simps) (simp add: find_char_first)
    then show ?thesis
      using Cons by simp
  qed
qed

text \<open>Splitting a text at a character after joining nonempty pieces without that character gives the
  pieces back.\<close>

theorem split_join:
  assumes "\<And>p. p \<in> set ps \<Longrightarrow> p \<noteq> [] \<and> d \<notin> set p"
  shows "split_string (join_strings ps [d]) [d] = Some ps"
  using split_loop_join [of ps d] assms by (simp add: split_string_def)

lemma split_join_witness:
  "split_string (join_strings [''a'', ''bc''] '','') '','' = Some [''a'', ''bc'']"
  by (rule split_join) auto

end
