(* ===== verification/Http_Props.thy ===== *)
theory Http_Props
  imports Http_Common String_Props
begin

text \<open>
  Encoded text and forms decode to what was encoded, a URL is read back from its text, and headers
  are found whatever the case of their names.
\<close>

section \<open>Encoding\<close>

text \<open>A digit of an escape.\<close>

lemma alnum_plain:
  assumes "alnum_value c = Some d"
  shows "\<not> is_space c" "c \<noteq> CHR ''-''" "c \<noteq> CHR ''+''" "c \<noteq> nul"
  using assms by (auto simp: alnum_value_def is_space_def nul_def ch_def)

lemma upper_digit_value: "d < 16 \<Longrightarrow> alnum_value (uppercase (xdigit_char d)) = Some d"
  by (auto simp: xdigit_char_def uppercase_def alnum_value_def ch_def)

lemmas upper_digit = upper_digit_value upper_digit_value [THEN alnum_plain(1)]
  upper_digit_value [THEN alnum_plain(2)] upper_digit_value [THEN alnum_plain(3)]
  upper_digit_value [THEN alnum_plain(4)]

lemma upper_digit_unreserved: "d < 16 \<Longrightarrow> is_unreserved (uppercase (xdigit_char d))"
  by (simp add: is_unreserved_def is_alnum_def is_digit_of_def upper_digit_value)

lemma escape_read: "string_to_uint32 (upper_hex2 c) 16 = Some (of_nat (ch c))"
proof -
  have range: "ch c < 256"
    by (simp add: ch_def)
  then have digits: "ch c div 16 < 16" "ch c mod 16 < 16"
    by auto
  have "ucast (of_nat (ch c) :: u64) = (of_nat (ch c) :: u32)"
    by (rule bit_word_eqI) (simp add: bit_simps)
  then show ?thesis
    using range digits upper_digit [OF digits(1)] upper_digit [OF digits(2)]
    unfolding string_to_uint32_def c_string_to_uint32_def strto_unsigned_def scan_integer_def upper_hex2_def
      take_sign_def skip_base_prefix_def
    by (simp add: c_str_def is_digit_of_def value_of_def whole_def)
qed

lemma encoded_plain: "c \<in> set (upper_hex2 x) \<Longrightarrow> is_unreserved c"
proof -
  have "ch x < 256"
    by (simp add: ch_def)
  then have "ch x div 16 < 16" "ch x mod 16 < 16"
    by auto
  then show "c \<in> set (upper_hex2 x) \<Longrightarrow> is_unreserved c"
    using upper_digit_unreserved by (auto simp: upper_hex2_def simp del: mod_less_divisor)
qed

lemma set_url_encode: "c \<in> set (url_encode s) \<Longrightarrow> is_unreserved c \<or> c = CHR ''%''"
  by (auto simp: url_encode_def split: if_splits dest: encoded_plain)

lemma special_reserved: "\<not> is_unreserved CHR ''%''" "\<not> is_unreserved CHR ''+''" "\<not> is_unreserved CHR ''=''"
    "\<not> is_unreserved CHR ''&''"
  by code_simp+

lemma unat_ch: "unat (of_nat (ch c) :: u32) = ch c" "(of_nat (ch c) :: u32) \<le> 255" "char_of (ch c) = c"
proof -
  have "ch c < 256"
    by (simp add: ch_def)
  then show "unat (of_nat (ch c) :: u32) = ch c"
    by (simp add: unat_of_nat)
  with \<open>ch c < 256\<close> show "(of_nat (ch c) :: u32) \<le> 255"
    by (simp add: word_le_nat_alt)
  show "char_of (ch c) = c"
    by (simp add: ch_def)
qed

lemma decode_encoded: "url_decode (url_encode s) = s"
proof (induction s)
  case Nil
  show ?case by (simp add: url_encode_def)
next
  case (Cons c s)
  have cons: "url_encode (c # s) = (if is_unreserved c then [c] else CHR ''%'' # upper_hex2 c) @ url_encode s"
    by (simp add: url_encode_def)
  show ?case
  proof (cases "is_unreserved c")
    case True
    then have "c \<noteq> CHR ''%''" "c \<noteq> CHR ''+''"
      using special_reserved by auto
    then show ?thesis
      using cons True Cons by simp
  next
    case False
    obtain a b where hex: "upper_hex2 c = [a, b]"
      by (simp add: upper_hex2_def)
    then show ?thesis
      using cons False Cons escape_read [of c] by (simp add: unat_ch)
  qed
qed

lemma getlines_nil [simp]: "getlines d [] = []"
  by (simp add: getlines.simps)

lemma getlines_join:
  "(\<And>p. p \<in> set ps \<Longrightarrow> p \<noteq> [] \<and> d \<notin> set p) \<Longrightarrow> getlines d (join_strings ps [d]) = ps"
proof (induction ps)
  case (Cons p ps)
  then have p: "p \<noteq> []" "d \<notin> set p"
    by auto
  then have plain: "takeWhile (\<lambda>c. c \<noteq> d) p = p" "dropWhile (\<lambda>c. c \<noteq> d) p = []"
    by (auto simp: takeWhile_eq_all_conv dropWhile_eq_Nil_conv)
  have parts: "takeWhile (\<lambda>c. c \<noteq> d) (p @ d # r) = p \<and> dropWhile (\<lambda>c. c \<noteq> d) (p @ d # r) = d # r" for r
    using p(2) by (induction p) auto
  show ?case
    using Cons p plain parts by (subst getlines.simps) simp
qed simp

lemma split_encoded: "split_pair (url_encode k @ ''='' @ url_encode v) = Some (url_encode k, url_encode v)"
proof -
  have "CHR ''='' \<notin> set (url_encode k)"
    using set_url_encode special_reserved by blast
  then have "find_sub ''='' (url_encode k @ ''='' @ url_encode v) = Some (length (url_encode k))"
    using find_char_first by simp
  then show ?thesis
    by (simp add: split_pair_def)
qed

text \<open>Property C18. URL decoding inverts URL encoding on every byte string, and \<open>ParseFormData\<close> gives
  back the map that \<open>FormDataEncode\<close> wrote, whatever its keys and values hold.\<close>

theorem form_data_roundtrip:
  assumes "omap_wf data"
  shows "(\<forall>s. url_decode (url_encode s) = s) \<and> parse_form_data (form_data_encode data) = data"
proof -
  let ?pair = "\<lambda>(k, v). url_encode k @ ''='' @ url_encode v"
  have "getlines CHR ''&'' (form_data_encode data) = map ?pair data"
    unfolding form_data_encode_def
    by (rule getlines_join) (use set_url_encode special_reserved in \<open>fastforce\<close>)
  moreover have "form_data_step (?pair e) = (case e of (k, v) \<Rightarrow> omap_set k v)" for e
    by (cases e) (simp add: fun_eq_iff form_data_step_def split_encoded [simplified] decode_encoded)
  ultimately have "parse_form_data (form_data_encode data) = fold (\<lambda>(k, v). omap_set k v) data []"
    by (simp add: parse_form_data_def fold_map comp_def)
  then show ?thesis
    using omap.fold_put_entries [OF assms] decode_encoded by simp
qed

lemma form_data_roundtrip_witness:
  "parse_form_data (form_data_encode [(''a&b'', ''x=1''), (''c'', ''d'')]) = [(''a&b'', ''x=1''), (''c'', ''d'')]"
proof -
  have "omap_wf [(''a&b'', ''x=1''), (''c'', ''d'')]"
    by code_simp
  then show ?thesis
    using form_data_roundtrip by blast
qed

section \<open>URLs\<close>

lemma find_char_append: "c \<notin> set a \<Longrightarrow> find_sub [c] (a @ b) = map_option (\<lambda>i. i + length a) (find_sub [c] b)"
  by (induction a) (auto simp: starts_with_def option.map_comp comp_def option.map_ident)

lemma find_char_here: "find_sub [c] (c # s) = Some 0"
  by (simp add: starts_with_def)

lemma find_scheme:
  assumes "CHR '':'' \<notin> set s"
  shows "find_sub ''://'' (s @ ''://'' @ r) = Some (length s)"
  using assms by (induction s) (auto simp: starts_with_def)

lemma rfind_none: "c \<notin> set s \<Longrightarrow> rfind_char s c = None"
  by (simp add: rfind_char_def find_char_none)

lemma rfind_last: "c \<notin> set b \<Longrightarrow> rfind_char (a @ c # b) c = Some (length a)"
  using find_char_first [of c "rev b" "rev a"] by (simp add: rfind_char_def)

lemma char_at_drop: "char_at s n c \<longleftrightarrow> (\<exists>r. drop n s = c # r)"
  by (metis Cons_nth_drop_Suc char_at_def drop_all list.discI list.inject not_less)

lemma drop_next: "drop n s = c # r \<Longrightarrow> drop (Suc n) s = r"
  by (metis drop_Suc list.sel(3) tl_drop)

text \<open>The parts of a URL are where the separators say.\<close>

lemma parse_parts:
  assumes s: "CHR '':'' \<notin> set s"
    and h: "CHR ''/'' \<notin> set h" "CHR ''?'' \<notin> set h" "CHR ''#'' \<notin> set h"
    and p: "p = CHR ''/'' # p'" "CHR ''?'' \<notin> set p" "CHR ''#'' \<notin> set p"
    and q: "q = (if q' = [] then [] else CHR ''?'' # q')" "CHR ''#'' \<notin> set q'"
    and f: "f = (if f' = [] then [] else CHR ''#'' # f')"
  shows "parse_url (s @ ''://'' @ h @ p @ q @ f) =
    (case parse_host_port h (empty_url\<lparr>u_scheme := s\<rparr>) of
       None \<Rightarrow> empty_url | Some u \<Rightarrow> u\<lparr>u_path := p, u_query := q', u_fragment := f'\<rparr>)"
proof -
  let ?n = "length s + 3"
  let ?url = "s @ ''://'' @ h @ p @ q @ f"
  have fresh: "u_query u = [] \<and> u_fragment u = []" if "parse_host_port h (empty_url\<lparr>u_scheme := s\<rparr>) = Some u" for u
    using that by (auto simp: parse_host_port_def empty_url_def split: option.splits if_splits)
  have drop_n: "drop (?n + k) ?url = drop k (h @ p @ q @ f)" for k
  proof -
    have "?n + k = k + length (s @ ''://'')"
      by simp
    then show ?thesis
      by (metis append.assoc append_eq_conv_conj drop_drop)
  qed
  have from_n: "find_from ?url [c] ?n = map_option (\<lambda>i. i + ?n) (find_sub [c] (h @ p @ q @ f))" for c
    using drop_n [of 0] unfolding find_from_def by simp
  have hp: "find_sub ''/'' (h @ p @ q @ f) = Some (length h)"
    using h p find_char_first by simp
  have hf: "find_sub ''#'' (h @ p @ q @ f) = (if f' = [] then None else Some (length h + length p + length q))"
    using h p q f find_char_first [of "CHR ''#''" "h @ p @ q"] find_char_none [of "CHR ''#''" "h @ p @ q"] by simp
  define x where "x = find_sub ''?'' (q @ f)"
  have hq: "find_sub ''?'' (h @ p @ q @ f) = map_option (\<lambda>i. i + length (h @ p)) x"
    unfolding x_def using h p find_char_append [of "CHR ''?''" "h @ p" "q @ f"] by simp
  have x: "q' \<noteq> [] \<Longrightarrow> x = Some 0" "q' = [] \<Longrightarrow> f' = [] \<Longrightarrow> x = None"
    unfolding x_def q f by (simp_all add: starts_with_def)
  define qs where "qs = find_from ?url ''?'' ?n"
  define fs where "fs = find_from ?url ''#'' ?n"
  have fs: "fs = (if f' = [] then None else Some (?n + length h + length p + length q))"
    unfolding fs_def from_n hf by simp
  have qs: "qs = map_option (\<lambda>i. ?n + length h + length p + i) x"
    unfolding qs_def from_n hq by (cases x) simp_all
  have host_end: "min_pos [find_from ?url ''/'' ?n, qs, fs] (length ?url) = ?n + length h"
    unfolding from_n hp using qs fs by (cases x) auto
  have path_end: "min_pos [qs, fs] (length ?url) = ?n + length h + length p"
    using qs fs f q x by (cases x) auto
  have query_end: "min_pos [fs] (length ?url) = ?n + length h + length p + length q"
    using fs f by auto
  have at_host: "drop (?n + length h) ?url = p @ q @ f" and at_path: "drop (?n + length h + length p) ?url = q @ f"
    and at_query: "drop (?n + length h + length p + length q) ?url = f" and at_start: "drop ?n ?url = h @ p @ q @ f"
    using drop_n [of "length h"] drop_n [of "length h + length p"] drop_n [of 0]
      drop_n [of "length h + length p + length q"] by (simp_all add: add.assoc)
  have start: "find_from ?url ''://'' 0 = Some (length s)"
    using find_scheme [OF s] by (simp add: find_from_def)
  define url where "url = ?url"
  define n where "n = ?n"
  define a where "a = n + length h"
  define b where "b = a + length p"
  define e where "e = b + length q"
  note fold = url_def [symmetric] n_def [symmetric] a_def [symmetric] b_def [symmetric] e_def [symmetric]
  have parts: "drop n url = h @ p @ q @ f" "drop a url = p @ q @ f" "drop b url = q @ f" "drop e url = f"
    using at_start at_host at_path at_query unfolding fold .
  have bounds: "min_pos [find_from url ''/'' n, qs, fs] (length url) = a" "min_pos [qs, fs] (length url) = b"
      "min_pos [fs] (length url) = e"
    using host_end path_end query_end unfolding fold .
  have scheme_part: "take (length s) url = s" "find_from url ''://'' 0 = Some (length s)"
    using start by (simp_all add: url_def)
  have host_part: "substr url n (a - n) = h"
    using parts by (simp add: substr_def a_def)
  have path_part: "char_at url a CHR ''/''" "substr url a (b - a) = p"
    using parts p by (simp_all add: char_at_drop substr_def b_def)
  have query_part: "char_at url b CHR ''?'' \<longleftrightarrow> q' \<noteq> []" "q' \<noteq> [] \<Longrightarrow> substr url (b + 1) (e - (b + 1)) = q'"
      "q' = [] \<Longrightarrow> e = b"
    using parts(3) q f by (auto simp: char_at_drop substr_def e_def drop_next)
  have fragment_part: "char_at url e CHR ''#'' \<longleftrightarrow> f' \<noteq> []" "f' \<noteq> [] \<Longrightarrow> drop (e + 1) url = f'"
    using parts(4) f by (auto simp: char_at_drop drop_next)
  show ?thesis
    unfolding url_def [symmetric] parse_url_def scheme_part option.case Let_def n_def [symmetric]
      qs_def [folded url_def n_def, symmetric] fs_def [folded url_def n_def, symmetric] bounds host_part
    using path_part query_part fragment_part fresh
    by (cases "q' = []"; cases "f' = []"; cases "parse_host_port h (empty_url\<lparr>u_scheme := s\<rparr>)") simp_all
qed

text \<open>What the constructor makes of the text of a URL whose parts hold no separator of a later part.\<close>

definition url_clean :: "http_url \<Rightarrow> bool" where
  "url_clean u \<longleftrightarrow> CHR '':'' \<notin> set (u_scheme u) \<and> set (u_host u) \<inter> set '':/?#'' = {} \<and>
     u_path u \<noteq> [] \<and> hd (u_path u) = CHR ''/'' \<and> set (u_path u) \<inter> set ''?#'' = {} \<and>
     CHR ''#'' \<notin> set (u_query u)"

lemma host_port_text:
  assumes "CHR '':'' \<notin> set h"
  shows "parse_host_port h u = Some (u\<lparr>u_host := h, u_port := get_default_port u\<rparr>)"
    "parse_host_port (h @ '':'' @ show_nat n) u =
       (if n < 2 ^ 64 \<and> n mod 2 ^ 32 \<le> 65535 then Some (u\<lparr>u_host := h, u_port := of_nat (n mod 2 ^ 32)\<rparr>) else None)"
proof -
  show "parse_host_port h u = Some (u\<lparr>u_host := h, u_port := get_default_port u\<rparr>)"
    using assms by (simp add: parse_host_port_def rfind_none)
  have "CHR '':'' \<notin> set (show_nat n)"
    using show_nat_digits [of n] by (auto simp: list_all_iff is_digit_def)
  moreover have "show_nat n \<noteq> []"
    by simp
  moreover have "unat (of_nat n :: u32) = n mod 2 ^ 32"
    by (simp add: unat_of_nat)
  moreover have "unat (- 1 :: u32) = 4294967295"
    by (simp add: unsigned_minus_1_eq_mask mask_eq_exp_minus_1)
  moreover have "ucast (of_nat n :: u32) = (of_nat (n mod 2 ^ 32) :: u16)"
    unfolding take_bit_eq_mod [symmetric] by (rule bit_word_eqI) (simp add: bit_simps)
  ultimately show "parse_host_port (h @ '':'' @ show_nat n) u =
       (if n < 2 ^ 64 \<and> n mod 2 ^ 32 \<le> 65535 then Some (u\<lparr>u_host := h, u_port := of_nat (n mod 2 ^ 32)\<rparr>) else None)"
    unfolding parse_host_port_def
    by (simp add: rfind_last read_uint32_text word_less_nat_alt)
qed

text \<open>Property C19. A URL whose parts hold no separator of a later part is read back from its text,
  with every port, the default one included. A port that does not fit is refused only by its value
  modulo \<open>2^32\<close>.\<close>

theorem url_roundtrip:
  assumes "url_clean u"
  shows "parse_url (url_to_string u) = u \<and>
    parse_url (''http://h:'' @ show_nat n @ ''/'') =
      (if n < 2 ^ 64 \<and> n mod 2 ^ 32 \<le> 65535
       then \<lparr>u_scheme = ''http'', u_host = ''h'', u_port = of_nat (n mod 2 ^ 32), u_path = ''/'', u_query = [], u_fragment = []\<rparr>
       else empty_url)"
proof
  let ?start = "empty_url\<lparr>u_scheme := u_scheme u\<rparr>"
  define h where "h = u_host u @ (if u_port u \<noteq> get_default_port u then '':'' @ show_nat (unat (u_port u)) else [])"
  obtain p' where path: "u_path u = CHR ''/'' # p'"
    using assms by (cases "u_path u") (auto simp: url_clean_def)
  have digits: "c \<in> set (show_nat k) \<Longrightarrow> is_digit c" for c k
    using show_nat_digits [of k] by (auto simp: list_all_iff)
  have seps: "\<not> is_digit CHR '':''" "\<not> is_digit CHR ''/''" "\<not> is_digit CHR ''?''" "\<not> is_digit CHR ''#''"
    by (simp_all add: is_digit_def)
  have host: "CHR '':'' \<notin> set (u_host u)" and h: "CHR ''/'' \<notin> set h" "CHR ''?'' \<notin> set h" "CHR ''#'' \<notin> set h"
    using assms seps by (auto simp: url_clean_def h_def dest: digits)
  have "unat (u_port u) < 65536"
    using unsigned_less [of "u_port u", where ?'a = nat] by simp
  then have "parse_host_port h ?start = Some (?start\<lparr>u_host := u_host u, u_port := u_port u\<rparr>)"
    using host_port_text [OF host, where u = ?start] by (auto simp: h_def get_default_port_def is_https_def)
  moreover have "parse_url (url_to_string u) =
      (case parse_host_port h ?start of None \<Rightarrow> empty_url
       | Some v \<Rightarrow> v\<lparr>u_path := u_path u, u_query := u_query u, u_fragment := u_fragment u\<rparr>)"
  proof -
    let ?q = "if u_query u = [] then [] else CHR ''?'' # u_query u"
    let ?f = "if u_fragment u = [] then [] else CHR ''#'' # u_fragment u"
    have "url_to_string u = u_scheme u @ ''://'' @ h @ u_path u @ ?q @ ?f"
      by (simp add: url_to_string_def h_def)
    then show ?thesis
      using assms by (simp only:) (rule parse_parts [OF _ h path _ _ refl _ refl]; simp add: url_clean_def)
  qed
  ultimately show "parse_url (url_to_string u) = u"
    by simp
  have "parse_url (''http'' @ ''://'' @ (''h'' @ '':'' @ show_nat n) @ ''/'' @ [] @ []) =
      (case parse_host_port (''h'' @ '':'' @ show_nat n) (empty_url\<lparr>u_scheme := ''http''\<rparr>) of None \<Rightarrow> empty_url
       | Some v \<Rightarrow> v\<lparr>u_path := ''/'', u_query := [], u_fragment := []\<rparr>)"
    using seps by (intro parse_parts) (auto dest: digits)
  then show "parse_url (''http://h:'' @ show_nat n @ ''/'') =
      (if n < 2 ^ 64 \<and> n mod 2 ^ 32 \<le> 65535
       then \<lparr>u_scheme = ''http'', u_host = ''h'', u_port = of_nat (n mod 2 ^ 32), u_path = ''/'', u_query = [], u_fragment = []\<rparr>
       else empty_url)"
    using host_port_text(2) [of "''h''" n "empty_url\<lparr>u_scheme := ''http''\<rparr>"] by (simp add: empty_url_def)
qed

lemma url_roundtrip_witness:
  "parse_url (url_to_string \<lparr>u_scheme = ''https'', u_host = ''h'', u_port = 8443, u_path = ''/a:b'',
      u_query = ''x=/y?'', u_fragment = ''f''\<rparr>) =
    \<lparr>u_scheme = ''https'', u_host = ''h'', u_port = 8443, u_path = ''/a:b'', u_query = ''x=/y?'', u_fragment = ''f''\<rparr>"
  by (rule url_roundtrip [THEN conjunct1]) (simp add: url_clean_def)

section \<open>Headers\<close>

lemma ci_refl: "case_insensitive_equal a a"
  by (simp add: case_insensitive_equal_def list_all2_refl)

lemma ci_lower: "case_insensitive_equal a b \<longleftrightarrow> to_lower a = to_lower b"
  by (simp add: case_insensitive_equal_def to_lower_def list_all2_conv_all_nth list_eq_iff_nth_eq
      cong: conj_cong)

lemma find_add_header:
  "find_header (add_header hs n v) m =
     (if case_insensitive_equal n m then map_option (\<lambda>h. h\<lparr>h_value := v\<rparr>) (Some (case find_header hs n of None \<Rightarrow> header n v | Some h \<Rightarrow> h))
      else find_header hs m)"
  by (induction hs) (auto simp: find_header_def ci_lower header_def)

text \<open>After \<open>AddHeader\<close> the header is found under every case of its name and every
  other header is as before; a header that was there keeps its place and the spelling of its name.\<close>

theorem add_header_lookup:
  "get_header_value (add_header hs n v) m =
     (if case_insensitive_equal n m then v else get_header_value hs m) \<and>
   (has_header (add_header hs n v) m \<longleftrightarrow> case_insensitive_equal n m \<or> has_header hs m) \<and>
   (if has_header hs n then map h_name (add_header hs n v) = map h_name hs
    else add_header hs n v = hs @ [header n v])"
proof -
  have "if has_header hs n then map h_name (add_header hs n v) = map h_name hs
    else add_header hs n v = hs @ [header n v]"
    by (induction hs) (auto simp: has_header_def find_header_def split: if_splits)
  then show ?thesis
    by (auto simp: get_header_value_def has_header_def find_add_header)
qed

end
