(* ===== verification/Http_Server_Props.thy ===== *)
theory Http_Server_Props
  imports Http_Server Http_Props
begin

text \<open>
  The HTTP server reads what clients write: a request reaches the handler whole, however it was cut
  into pieces on the way, and the frames of a client's WebSocket reach it unmasked.
\<close>

section \<open>Reading and writing connections\<close>

definition set_conn :: "nat \<Rightarrow> connection \<Rightarrow> 'h server \<Rightarrow> 'h server" where
  "set_conn k c s = s\<lparr>clients := omap_set k c (clients s)\<rparr>"

lemma omap_set_set [simp]: "omap_set k v' (omap_set k v m) = omap_set k v' m"
  by (induction k v m rule: omap_set.induct) auto

lemma find_set_conn [simp]: "omap_find (clients (set_conn k c s)) k = Some c"
  by (simp add: set_conn_def omap_find_set)

lemma set_conn_twice [simp]: "set_conn k c' (set_conn k c s) = set_conn k c' s"
  by (simp add: set_conn_def)

lemma run_get_conn: "omap_find (clients s) k = Some c \<Longrightarrow> get_conn k s = (Inr c, s)"
  by (simp add: get_conn_def)

lemma run_put_conn [simp]: "put_conn k c s = (Inr (), set_conn k c s)"
  by (simp add: put_conn_def set_conn_def)

lemma run_on_conn: "omap_find (clients s) k = Some c \<Longrightarrow> on_conn k f s = (Inr (), set_conn k (f c) s)"
  by (simp add: on_conn_def run_then_with run_get_conn)

lemma then_get_conn: "omap_find (clients s) k = Some c \<Longrightarrow> then_with (get_conn k) f s = f c s"
  by (simp add: run_then_with run_get_conn)

lemma then_on_conn:
  "omap_find (clients s) k = Some c \<Longrightarrow> then_do (on_conn k f) m s = m (set_conn k (f c) s)"
  by (simp add: run_then_do run_on_conn)

lemma then_put_conn [simp]: "then_do (put_conn k c) m s = m (set_conn k c s)"
  by (simp add: run_then_do)

section \<open>Requests as text\<close>

definition field_text :: "string \<times> string \<Rightarrow> string" where
  "field_text f = fst f @ '': '' @ snd f"

definition request_lines :: "string \<Rightarrow> string \<Rightarrow> (string \<times> string) list \<Rightarrow> string list" where
  "request_lines m u hs = (m @ '' '' @ u @ '' HTTP/1.1'') # map field_text hs"

definition lines_text :: "string list \<Rightarrow> string" where
  "lines_text ls = concat (map (\<lambda>l. l @ crlf) ls)"

text \<open>A request as a client writes it: the length of the body is its last field.\<close>

definition head_text :: "string \<Rightarrow> string \<Rightarrow> (string \<times> string) list \<Rightarrow> string \<Rightarrow> string" where
  "head_text m u hs b =
     lines_text (request_lines m u (hs @ [(''Content-Length'', show_nat (length b))])) @ crlf"

definition request_text :: "string \<Rightarrow> string \<Rightarrow> (string \<times> string) list \<Rightarrow> string \<Rightarrow> string" where
  "request_text m u hs b = head_text m u hs b @ b"

definition plain_field :: "string \<times> string \<Rightarrow> bool" where
  "plain_field f \<longleftrightarrow>
     CHR '':'' \<notin> set (fst f) \<and> lf \<notin> set (fst f) \<and> lf \<notin> set (snd f) \<and>
     (snd f = [] \<or> \<not> is_trimmed_char (hd (snd f)) \<and> \<not> is_trimmed_char (last (snd f)) \<and> last (snd f) \<noteq> cr)"

definition special_field :: "string \<Rightarrow> bool" where
  "special_field n \<longleftrightarrow> case_insensitive_one_of n [''content-length'', ''origin'', ''connection'']"

definition plain_request :: "string \<Rightarrow> string \<Rightarrow> (string \<times> string) list \<Rightarrow> bool" where
  "plain_request m u hs \<longleftrightarrow>
     CHR '' '' \<notin> set m \<and> lf \<notin> set m \<and> CHR '' '' \<notin> set u \<and> lf \<notin> set u \<and>
     list_all (\<lambda>f. plain_field f \<and> \<not> special_field (fst f)) hs \<and> length hs < k_max_headers"

definition parsed_request :: "string \<Rightarrow> string \<Rightarrow> (string \<times> string) list \<Rightarrow> string \<Rightarrow> http_request" where
  "parsed_request m u hs b =
     \<lparr>r_method = m, r_uri = u, r_origin = [], r_body = b,
      r_headers = map (\<lambda>(n, v). header n v) (hs @ [(''Content-Length'', show_nat (length b))]), r_ws_handshake = False\<rparr>"

section \<open>Lines\<close>

lemma strip_eol_line: "line = [] \<or> \<not> is_eol (last line) \<Longrightarrow> strip_eol (line @ [cr]) = line"
  by (cases line rule: rev_cases) (auto simp: strip_eol_def is_eol_def)

lemma header_loop_line:
  assumes "lf \<notin> set line" and "line = [] \<or> \<not> is_eol (last line)"
  shows "header_loop k (line @ crlf @ rest) p =
    then_with (one_line k line p) (\<lambda>r.
      case r of Leave \<Rightarrow> give None | Finish p' \<Rightarrow> give (Some (p', rest)) | Next p' \<Rightarrow> header_loop k rest p')"
proof -
  have "find_sub [lf] ((line @ [cr]) @ lf # rest) = Some (length (line @ [cr]))"
    using assms(1) by (intro find_char_first) simp
  then have "find_sub [lf] (line @ crlf @ rest) = Some (length line + 1)"
    by (simp add: crlf_def)
  moreover have "drop (length line + 1 + 1) (line @ crlf @ rest) = rest"
    "take (length line + 1) (line @ crlf @ rest) = line @ [cr]"
    by (simp_all add: crlf_def)
  ultimately show ?thesis
    using strip_eol_line [OF assms(2)] by (subst header_loop.simps) (simp add: Let_def)
qed

lemma header_loop_partial: "lf \<notin> set buf \<Longrightarrow> header_loop k buf p = give (Some (p, buf))"
  by (subst header_loop.simps) (simp add: find_char_none)

text \<open>A strict prefix of a line has no end of line; any other begins with the whole line.\<close>

lemma prefix_of_line:
  assumes "buf @ later = line @ crlf @ rest" and "lf \<notin> set line"
  shows "lf \<notin> set buf \<or> (\<exists>buf'. buf = line @ crlf @ buf' \<and> buf' @ later = rest)"
proof (cases "length buf < length line + 2")
  case True
  then have "buf = take (length buf) (line @ [cr])"
    using arg_cong [OF assms(1), of "take (length buf)"] by (auto simp: crlf_def take_Cons')
  then have "set buf \<subseteq> set (line @ [cr])"
    by (metis set_take_subset)
  then show ?thesis
    using assms(2) by auto
next
  case False
  then have "line @ crlf = take (length line + 2) buf"
    using arg_cong [OF assms(1), of "take (length line + 2)"] by (simp add: crlf_def)
  then have "buf = line @ crlf @ drop (length line + 2) buf"
    by (metis append.assoc append_take_drop_id)
  then show ?thesis
    using assms(1) by (metis append.assoc same_append_eq)
qed

lemma request_line_plain:
  assumes "CHR '' '' \<notin> set m" and "CHR '' '' \<notin> set u"
  shows "request_line k (m @ '' '' @ u @ '' HTTP/1.1'') p =
    give (Next (p\<lparr>p_first_line := True, p_request := (p_request p)\<lparr>r_method := m, r_uri := u\<rparr>\<rparr>))"
proof -
  have "find_sub '' '' (m @ '' '' @ u @ '' HTTP/1.1'') = Some (length m)"
    "find_sub '' '' (u @ '' HTTP/1.1'') = Some (length u)"
    using assms find_char_first by auto
  then show ?thesis
    by (simp add: request_line_def)
qed

lemma trim_plain:
  assumes "v = [] \<or> \<not> is_trimmed_char (hd v) \<and> \<not> is_trimmed_char (last v)"
  shows "trim_whitespace (CHR '' '' # v) = v"
proof -
  have drop: "dropWhile is_trimmed_char w = w" if "w = [] \<or> \<not> is_trimmed_char (hd w)" for w
    using that by (cases w) auto
  have "is_trimmed_char CHR '' ''"
    by (simp add: is_trimmed_char_def)
  then show ?thesis
    using assms drop [of v] drop [of "rev v"] by (auto simp: trim_whitespace_def hd_rev)
qed

lemma field_line_plain:
  assumes "plain_field f" and "length (r_headers (p_request p)) < k_max_headers"
  shows "field_line k (field_text f) p = apply_header k (fst f) (snd f)
    (p\<lparr>p_request := (p_request p)\<lparr>r_headers := r_headers (p_request p) @ [header (fst f) (snd f)]\<rparr>\<rparr>)"
proof -
  have "find_sub '':'' (field_text f) = Some (length (fst f))"
    using assms(1) find_char_first by (simp add: field_text_def plain_field_def)
  moreover have "trim_whitespace (CHR '' '' # snd f) = snd f"
    using assms(1) by (intro trim_plain) (auto simp: plain_field_def)
  ultimately show ?thesis
    using assms(2) by (simp add: field_line_def field_text_def Let_def)
qed

lemma field_text_line:
  assumes "plain_field f"
  shows "lf \<notin> set (field_text f)" "field_text f \<noteq> []" "\<not> is_eol (last (field_text f))"
  using assms by (auto simp: plain_field_def field_text_def is_eol_def is_trimmed_char_def)

section \<open>The headers of a request\<close>

definition with_fields :: "(string \<times> string) list \<Rightarrow> parse_state \<Rightarrow> parse_state" where
  "with_fields hs p = p\<lparr>p_request := (p_request p)\<lparr>r_headers := r_headers (p_request p) @ map (\<lambda>(n, v). header n v) hs\<rparr>\<rparr>"

lemma with_fields_simps [simp]:
  "p_first_line (with_fields hs p) = p_first_line p" "p_all_headers (with_fields hs p) = p_all_headers p"
  "p_has_origin (with_fields hs p) = p_has_origin p" "p_body_size (with_fields hs p) = p_body_size p"
  "with_fields [] p = p"
  "with_fields hs' (with_fields hs p) = with_fields (hs @ hs') p"
  "length (r_headers (p_request (with_fields hs p))) = length (r_headers (p_request p)) + length hs"
  by (simp_all add: with_fields_def)

lemma plain_line:
  assumes "p_first_line p" and "plain_field f" and "\<not> special_field (fst f)"
    and "length (r_headers (p_request p)) < k_max_headers"
  shows "one_line k (field_text f) p = give (Next (with_fields [f] p))"
  using assms field_text_line(2) [OF assms(2)]
  by (simp add: one_line_def field_line_plain apply_header_def special_field_def case_insensitive_one_of_def
      with_fields_def case_prod_beta)

text \<open>Lines of plain fields: read to their end, or as far as they have arrived.\<close>

type_synonym 'h reading = "('h, (parse_state \<times> string) option) http"

lemma fields_read:
  assumes "list_all (\<lambda>f. plain_field f \<and> \<not> special_field (fst f)) hs" and "p_first_line p"
    and "length (r_headers (p_request p)) + length hs \<le> k_max_headers"
  shows "(header_loop k (lines_text (map field_text hs) @ rest) p :: 'h reading) = header_loop k rest (with_fields hs p)"
  using assms
proof (induction hs arbitrary: p)
  case Nil
  then show ?case
    by (simp add: lines_text_def)
next
  case (Cons f hs)
  have "(header_loop k (field_text f @ crlf @ lines_text (map field_text hs) @ rest) p :: 'h reading) =
      header_loop k (lines_text (map field_text hs) @ rest) (with_fields [f] p)"
    using Cons.prems field_text_line [of f] by (subst header_loop_line) (auto simp: plain_line)
  then show ?case
    using Cons.IH [of "with_fields [f] p"] Cons.prems by (simp add: lines_text_def)
qed

lemma fields_partial:
  assumes "list_all (\<lambda>f. plain_field f \<and> \<not> special_field (fst f)) hs" and "p_first_line p"
    and "length (r_headers (p_request p)) + length hs \<le> k_max_headers"
    and "buf @ later = lines_text (map field_text hs) @ rest"
  shows "(\<exists>hs' left. (header_loop k buf p :: 'h reading) = give (Some (with_fields hs' p, left)) \<and> length left \<le> length buf) \<or>
    (\<exists>buf'. buf = lines_text (map field_text hs) @ buf' \<and> buf' @ later = rest)"
  using assms
proof (induction hs arbitrary: p buf)
  case Nil
  then show ?case
    by (simp add: lines_text_def)
next
  case (Cons f hs)
  have line: "plain_field f" "\<not> special_field (fst f)" "lf \<notin> set (field_text f)" "\<not> is_eol (last (field_text f))"
    using Cons.prems(1) field_text_line [of f] by auto
  have "lf \<notin> set buf \<or> (\<exists>buf'. buf = field_text f @ crlf @ buf' \<and>
      buf' @ later = lines_text (map field_text hs) @ rest)"
    using Cons.prems(4) line by (intro prefix_of_line) (simp_all add: lines_text_def)
  then show ?case
  proof (elim disjE exE conjE)
    assume "lf \<notin> set buf"
    then have "(header_loop k buf p :: 'h reading) = give (Some (with_fields [] p, buf))"
      by (simp add: header_loop_partial)
    then show ?thesis
      by blast
  next
    fix buf'
    assume buf: "buf = field_text f @ crlf @ buf'" and rest: "buf' @ later = lines_text (map field_text hs) @ rest"
    have loop: "(header_loop k buf p :: 'h reading) = header_loop k buf' (with_fields [f] p)"
      unfolding buf using Cons.prems line by (subst header_loop_line) (auto simp: plain_line)
    consider hs' left where "(header_loop k buf' (with_fields [f] p) :: 'h reading) = give (Some (with_fields hs' (with_fields [f] p), left))"
        "length left \<le> length buf'"
      | buf'' where "buf' = lines_text (map field_text hs) @ buf''" "buf'' @ later = rest"
    proof -
      have "list_all (\<lambda>f. plain_field f \<and> \<not> special_field (fst f)) hs" "p_first_line (with_fields [f] p)"
        "length (r_headers (p_request (with_fields [f] p))) + length hs \<le> k_max_headers"
        using Cons.prems by auto
      from Cons.IH [OF this rest] show ?thesis
        using that by blast
    qed
    then show ?thesis
    proof cases
      case 1
      then have "(header_loop k buf p :: 'h reading) = give (Some (with_fields ([f] @ hs') p, left))" "length left \<le> length buf"
        using loop buf by auto
      then show ?thesis
        by blast
    next
      case 2
      then show ?thesis
        using buf by (simp add: lines_text_def)
    qed
  qed
qed

lemma show_nat_ends: "is_digit (hd (show_nat n))" "is_digit (last (show_nat n))" "lf \<notin> set (show_nat n)"
proof -
  have "c \<in> set (show_nat n) \<Longrightarrow> is_digit c" for c
    using show_nat_digits [of n] by (auto simp: list_all_iff)
  from this [OF hd_in_set] this [OF last_in_set] this [of lf]
  show "is_digit (hd (show_nat n))" "is_digit (last (show_nat n))" "lf \<notin> set (show_nat n)"
    by (auto simp: is_digit_def)
qed

text \<open>The last field is the length of the body, and the empty line ends the headers.\<close>

lemma length_line:
  fixes p :: parse_state
  assumes "p_first_line p" and "length (r_headers (p_request p)) < k_max_headers" and "n < 2 ^ 64"
  shows "one_line k (field_text (''Content-Length'', show_nat n)) p =
    give (Next (with_fields [(''Content-Length'', show_nat n)] (p\<lparr>p_body_size := of_nat n\<rparr>)))"
proof -
  have plain: "plain_field (''Content-Length'', show_nat n)"
    using show_nat_ends [of n] by (auto simp: plain_field_def is_trimmed_char_def is_digit_def)
  have "string_view_to_uint64 (show_nat n) 10 = Some (of_nat n)"
    using assms(3) by (simp add: read_uint64_view)
  moreover have "case_insensitive_eq ''Content-Length'' ''content-length''"
    by code_simp
  ultimately show ?thesis
    using assms field_text_line(2) [OF plain]
    by (cases p) (simp add: one_line_def field_line_plain [OF plain] apply_header_def with_fields_def)
qed

section \<open>A whole request\<close>

definition after_line :: "string \<Rightarrow> string \<Rightarrow> parse_state" where
  "after_line m u = parse_start\<lparr>p_first_line := True, p_request := new_request\<lparr>r_method := m, r_uri := u\<rparr>\<rparr>"

lemma after_line_simps [simp]:
  "p_first_line (after_line m u)" "\<not> p_all_headers (after_line m u)" "\<not> p_has_origin (after_line m u)"
  "p_body_size (after_line m u) = 0" "r_headers (p_request (after_line m u)) = []"
  by (simp_all add: after_line_def parse_start_def new_request_def)

definition after_fields :: "string \<Rightarrow> string \<Rightarrow> (string \<times> string) list \<Rightarrow> string \<Rightarrow> parse_state" where
  "after_fields m u hs b =
     with_fields (hs @ [(''Content-Length'', show_nat (length b))]) ((after_line m u)\<lparr>p_body_size := of_nat (length b)\<rparr>)"

lemma first_line:
  assumes "plain_request m u hs"
  shows "one_line k (m @ '' '' @ u @ '' HTTP/1.1'') parse_start = give (Next (after_line m u))"
    "lf \<notin> set (m @ '' '' @ u @ '' HTTP/1.1'')" "\<not> is_eol (last (m @ '' '' @ u @ '' HTTP/1.1''))"
  using assms
  by (auto simp: one_line_def request_line_plain [simplified] plain_request_def after_line_def parse_start_def new_request_def is_eol_def)

lemma length_field_line:
  "lf \<notin> set (field_text (''Content-Length'', show_nat n))"
  "\<not> is_eol (last (field_text (''Content-Length'', show_nat n)))"
  using show_nat_ends [of n] by (auto simp: field_text_def is_eol_def is_digit_def)

lemma last_field:
  assumes "plain_request m u hs" and "length b < 2 ^ 64"
  shows "one_line k (field_text (''Content-Length'', show_nat (length b))) (with_fields hs (after_line m u)) =
    give (Next (after_fields m u hs b))"
proof -
  have "length (r_headers (p_request (with_fields hs (after_line m u)))) < k_max_headers"
    using assms by (simp add: plain_request_def)
  from length_line [OF _ this assms(2), of k] show ?thesis
    by (simp add: after_fields_def with_fields_def)
qed

lemma head_parts:
  "head_text m u hs b = (m @ '' '' @ u @ '' HTTP/1.1'') @ crlf @ lines_text (map field_text hs) @
     field_text (''Content-Length'', show_nat (length b)) @ crlf @ crlf"
  by (simp add: head_text_def request_lines_def lines_text_def)

text \<open>Reading a head that has arrived, and one that has arrived in part.\<close>

lemma head_read:
  assumes "plain_request m u hs" and "length b < 2 ^ 64"
  shows "(header_loop k (head_text m u hs b @ rest) parse_start :: 'h reading) =
    then_do (on_conn k (\<lambda>c. c\<lparr>c_origin := ''*''\<rparr>))
      (give (Some ((after_fields m u hs b)\<lparr>p_all_headers := True\<rparr>, rest)))"
proof -
  let ?len = "field_text (''Content-Length'', show_nat (length b))"
  have "(header_loop k (head_text m u hs b @ rest) parse_start :: 'h reading) =
      header_loop k (lines_text (map field_text hs) @ ?len @ crlf @ crlf @ rest) (after_line m u)"
  proof -
    define line where "line = m @ '' '' @ u @ '' HTTP/1.1''"
    have "head_text m u hs b @ rest = line @ crlf @ lines_text (map field_text hs) @ ?len @ crlf @ crlf @ rest"
      by (simp add: head_parts line_def)
    then show ?thesis
      by (simp add: header_loop_line first_line [OF assms(1), folded line_def])
  qed
  also have "\<dots> = header_loop k (?len @ crlf @ crlf @ rest) (with_fields hs (after_line m u))"
    using assms(1) by (intro fields_read) (auto simp: plain_request_def)
  also have "\<dots> = header_loop k ([] @ crlf @ rest) (after_fields m u hs b)"
    using length_field_line [of "length b"] by (simp add: header_loop_line last_field [OF assms])
  also have "\<dots> = then_with (one_line k [] (after_fields m u hs b)) (\<lambda>r. case r of Leave \<Rightarrow> give None
      | Finish p' \<Rightarrow> give (Some (p', rest)) | Next p' \<Rightarrow> header_loop k rest p')"
    by (intro header_loop_line) auto
  also have "\<dots> = then_do (on_conn k (\<lambda>c. c\<lparr>c_origin := ''*''\<rparr>))
      (give (Some ((after_fields m u hs b)\<lparr>p_all_headers := True\<rparr>, rest)))"
    by (rule ext) (simp add: one_line_def after_fields_def only_if_def run_then_with run_then_do
        split: prod.splits sum.splits)
  finally show ?thesis .
qed

lemma head_partial:
  assumes "plain_request m u hs" and "length b < 2 ^ 64" and "buf @ later = head_text m u hs b" and "later \<noteq> []"
  shows "\<exists>p left. (header_loop k buf parse_start :: 'h reading) = give (Some (p, left)) \<and> \<not> p_all_headers p \<and>
    (p_body_size p = 0 \<or> p_body_size p = of_nat (length b)) \<and> length left \<le> length buf"
proof -
  let ?len = "field_text (''Content-Length'', show_nat (length b))"
  let ?fields = "lines_text (map field_text hs)"
  define line where "line = m @ '' '' @ u @ '' HTTP/1.1''"
  note line = first_line [OF assms(1), folded line_def]
  have whole: "buf @ later = line @ crlf @ ?fields @ ?len @ crlf @ crlf"
    using assms(3) by (simp add: head_parts line_def)
  have start: "\<not> p_all_headers parse_start" "p_body_size parse_start = 0"
    by (simp_all add: parse_start_def)
  from prefix_of_line [OF whole line(2)] consider "lf \<notin> set buf"
    | buf1 where "buf = line @ crlf @ buf1" "buf1 @ later = ?fields @ ?len @ crlf @ crlf"
    by blast
  then show ?thesis
  proof cases
    case 1
    then show ?thesis
      using start by (intro exI [of _ parse_start] exI [of _ buf]) (simp add: header_loop_partial)
  next
    case 2
    then have loop: "(header_loop k buf parse_start :: 'h reading) = header_loop k buf1 (after_line m u)"
      using line(2,3) by (simp add: header_loop_line line(1))
    have "list_all (\<lambda>f. plain_field f \<and> \<not> special_field (fst f)) hs" "p_first_line (after_line m u)"
      "length (r_headers (p_request (after_line m u))) + length hs \<le> k_max_headers"
      using assms(1) by (auto simp: plain_request_def)
    from fields_partial [OF this 2(2), of k, where 'h = 'h]
    consider hs' left where "(header_loop k buf1 (after_line m u) :: 'h reading) = give (Some (with_fields hs' (after_line m u), left))"
        "length left \<le> length buf1"
      | buf2 where "buf1 = ?fields @ buf2" "buf2 @ later = ?len @ crlf @ crlf"
      by blast
    then show ?thesis
    proof cases
      case 1
      then show ?thesis
        using loop 2(1) by (intro exI [of _ "with_fields hs' (after_line m u)"] exI [of _ left]) simp
    next
      case b2: 2
      have loop2: "(header_loop k buf parse_start :: 'h reading) = header_loop k buf2 (with_fields hs (after_line m u))"
        unfolding loop b2(1) using assms(1) by (intro fields_read) (auto simp: plain_request_def)
      from prefix_of_line [OF b2(2) length_field_line(1)] consider "lf \<notin> set buf2"
        | buf3 where "buf2 = ?len @ crlf @ buf3" "buf3 @ later = crlf"
        by auto
      then show ?thesis
      proof cases
        case 1
        then show ?thesis
          using loop2 2(1) b2(1)
          by (intro exI [of _ "with_fields hs (after_line m u)"] exI [of _ buf2]) (simp add: header_loop_partial)
      next
        case b3: 2
        then have "(header_loop k buf parse_start :: 'h reading) = header_loop k buf3 (after_fields m u hs b)"
          using length_field_line [of "length b"] loop2 by (simp add: header_loop_line last_field [OF assms(1,2)])
        moreover have "lf \<notin> set buf3"
          using b3(2) assms(4) by (cases buf3; cases "tl buf3") (auto simp: crlf_def)
        ultimately show ?thesis
          using 2(1) b2(1) b3(1)
          by (intro exI [of _ "after_fields m u hs b"] exI [of _ buf3]) (simp add: header_loop_partial after_fields_def)
      qed
    qed
  qed
qed

text \<open>The limits on the size of a request.\<close>

definition fits :: "connection \<Rightarrow> string \<Rightarrow> string \<Rightarrow> (string \<times> string) list \<Rightarrow> string \<Rightarrow> bool" where
  "fits c m u hs b \<longleftrightarrow>
     length (request_text m u hs b) < unat (c_max_request c) \<and> length b + 4096 \<le> unat (c_max_request c)"

lemma fits_bounds:
  assumes "fits c m u hs b" and "n \<le> length (head_text m u hs b)" and "v = 0 \<or> v = of_nat (length b)"
  shows "\<not> (v + of_nat n \<ge> c_max_request c \<or> v > c_max_request c - 4096)" "length b < 2 ^ 64"
    "unat (of_nat (length b) :: u64) = length b"
proof -
  have max: "unat (c_max_request c) < 2 ^ 64"
    using unsigned_less [of "c_max_request c", where ?'a = nat] by simp
  then show small: "length b < 2 ^ 64" and len: "unat (of_nat (length b) :: u64) = length b"
    using assms(1) by (simp_all add: fits_def unat_of_nat)
  have v: "unat v \<le> length b"
    using assms(3) len by auto
  have sum: "unat v + n < unat (c_max_request c)"
    using assms(1,2) v by (simp add: fits_def request_text_def)
  then have "unat (v + of_nat n) = unat v + n"
    using max by (simp add: unat_word_ariths unat_of_nat)
  moreover have "unat (c_max_request c - 4096) = unat (c_max_request c) - 4096"
    using assms(1) by (subst unat_sub) (simp_all add: fits_def word_le_nat_alt)
  ultimately show "\<not> (v + of_nat n \<ge> c_max_request c \<or> v > c_max_request c - 4096)"
    using assms(1) v sum by (auto simp: word_le_nat_alt word_less_nat_alt fits_def)
qed

lemma parse_start_conn:
  assumes "omap_find (clients s) k = Some c"
  shows "parse_one_http_request H k s =
    then_with (header_loop k (c_rxbuf c) parse_start) (\<lambda>r. case r of None \<Rightarrow> give 0
      | Some (p, rest) \<Rightarrow> after_headers H k (length (c_rxbuf c)) p rest) (set_conn k (c\<lparr>c_origin := []\<rparr>) s)"
  using assms by (simp add: parse_one_http_request_def then_get_conn)

lemma whole_request:
  assumes plain: "plain_request m u hs" and found: "omap_find (clients s) k = Some c"
    and rx: "c_rxbuf c = request_text m u hs b @ rest" and fits: "fits c m u hs b"
  shows "parse_one_http_request H k s =
    then_do (if m = ''OPTIONS'' then handle_cors_preflight_request k else on_http_request H k (parsed_request m u hs b))
      (end_request k (length (request_text m u hs b))) (set_conn k (c\<lparr>c_origin := ''*''\<rparr>) s)"
proof -
  note bounds = fits_bounds [OF fits order_refl disjI2 [OF refl]]
  have fields: "p_body_size (after_fields m u hs b) = of_nat (length b)"
    "(p_request (after_fields m u hs b))\<lparr>r_body := b\<rparr> = parsed_request m u hs b"
    by (simp_all add: after_fields_def with_fields_def after_line_def parsed_request_def parse_start_def new_request_def)
  have "r_method (parsed_request m' u hs b) = m'" for m'
    by (simp add: parsed_request_def)
  moreover have rx': "c_rxbuf c = head_text m u hs b @ b @ rest"
    using rx by (simp add: request_text_def)
  ultimately show ?thesis
    using bounds fields unfolding parse_start_conn [OF found] rx' head_read [OF plain bounds(2)]
    by (simp add: run_then_with run_then_do run_on_conn after_headers_def run_get_conn request_text_def Let_def)
qed

lemma partial_request:
  assumes plain: "plain_request m u hs" and found: "omap_find (clients s) k = Some c"
    and rx: "c_rxbuf c @ later = request_text m u hs b" and later: "later \<noteq> []" and fits: "fits c m u hs b"
  shows "\<exists>origin. parse_one_http_request H k s = (Inr 0, set_conn k (c\<lparr>c_origin := origin\<rparr>) s)"
proof (cases "length (c_rxbuf c) < length (head_text m u hs b)")
  case True
  define later1 where "later1 = drop (length (c_rxbuf c)) (head_text m u hs b)"
  have "take (length (c_rxbuf c)) (head_text m u hs b) = c_rxbuf c"
    using arg_cong [OF rx, of "take (length (c_rxbuf c))"] True by (simp add: request_text_def)
  then have head: "c_rxbuf c @ later1 = head_text m u hs b" "later1 \<noteq> []"
    using True append_take_drop_id [of "length (c_rxbuf c)" "head_text m u hs b"] by (auto simp: later1_def)
  obtain p left where loop: "header_loop k (c_rxbuf c) parse_start = (give (Some (p, left)) :: 'a reading)"
      and p: "\<not> p_all_headers p" "p_body_size p = 0 \<or> p_body_size p = of_nat (length b)"
      "length left \<le> length (c_rxbuf c)"
    using head_partial [OF plain fits_bounds(2) [OF fits le_refl disjI1 [OF refl]] head, of k, where 'h = 'a] by auto
  have "length (c_rxbuf c) - length left \<le> length (head_text m u hs b)"
    using True by simp
  note bounds = fits_bounds [OF fits this p(2)]
  show ?thesis
    using bounds p by (intro exI [of _ "[]"])
      (simp add: parse_start_conn [OF found] loop after_headers_def run_then_with run_get_conn Let_def)
next
  case False
  define rest where "rest = drop (length (head_text m u hs b)) (c_rxbuf c)"
  have "take (length (head_text m u hs b)) (c_rxbuf c) = head_text m u hs b"
    using arg_cong [OF rx, of "take (length (head_text m u hs b))"] False by (simp add: request_text_def)
  then have head: "c_rxbuf c = head_text m u hs b @ rest"
    using append_take_drop_id [of "length (head_text m u hs b)" "c_rxbuf c"] by (simp add: rest_def)
  then have rest: "rest @ later = b"
    using rx by (simp add: request_text_def)
  note bounds = fits_bounds [OF fits order_refl disjI2 [OF refl]]
  have short: "length rest < length b"
    using rest later by auto
  have "p_body_size (after_fields m u hs b) = of_nat (length b)"
    by (simp add: after_fields_def with_fields_def)
  then show ?thesis
    using bounds short unfolding parse_start_conn [OF found] head head_read [OF plain bounds(2)]
    by (intro exI [of _ "''*''"])
      (simp add: run_then_with run_then_do run_on_conn after_headers_def run_get_conn Let_def)
qed

text \<open>Property C21. A request that has arrived whole goes to the handler, or is answered if it is a preflight, with
  exactly its method, target, fields and body, and takes exactly its own bytes from the buffer, so
  what is pipelined behind it is left for the next round. A request that has arrived in part, cut
  anywhere, waits: no handler runs, nothing is sent and the buffer is kept.\<close>

theorem request_reaches_handler:
  assumes "plain_request m u hs" and "omap_find (clients s) k = Some c" and "fits c m u hs b"
  shows "(\<forall>rest. c_rxbuf c = request_text m u hs b @ rest \<longrightarrow>
      parse_one_http_request H k s =
        then_do (if m = ''OPTIONS'' then handle_cors_preflight_request k else on_http_request H k (parsed_request m u hs b))
          (end_request k (length (request_text m u hs b))) (set_conn k (c\<lparr>c_origin := ''*''\<rparr>) s)) \<and>
    (\<forall>later. c_rxbuf c @ later = request_text m u hs b \<and> later \<noteq> [] \<longrightarrow>
      (\<exists>origin. parse_one_http_request H k s = (Inr 0, set_conn k (c\<lparr>c_origin := origin\<rparr>) s)))"
  using whole_request [OF assms(1,2) _ assms(3)] partial_request [OF assms(1,2) _ _ assms(3)] by blast

section \<open>Requests in pieces\<close>

text \<open>A handler that keeps the requests it gets and answers each with a body of its choice.\<close>

definition log_handler :: "(http_request \<Rightarrow> string) \<Rightarrow> http_request list http_handler" where
  "log_handler reply =
     \<lparr>on_http_request = (\<lambda>k req. then_do (change (\<lambda>s. s\<lparr>user_state := user_state s @ [req]\<rparr>))
        (send_response k ''200 OK'' [] (reply req) False)),
      on_websocket_message = (\<lambda>k data is_text. give ()), on_connection_closed = (\<lambda>k. give ())\<rparr>"

text \<open>An open connection between two requests.\<close>

definition ready :: "connection \<Rightarrow> bool" where
  "ready c \<longleftrightarrow> c_open c \<and> c_keepalive c \<and> \<not> c_websocket c \<and> \<not> c_headers_sent c"

definition chunk :: "string \<Rightarrow> string list" where
  "chunk bytes = (if bytes = [] then [] else [bytes])"

lemma run_sock_send:
  "omap_find (clients s) k = Some c \<Longrightarrow> c_open c \<Longrightarrow>
     sock_send k bytes s = (Inr (), set_conn k (c\<lparr>c_sent := c_sent c @ chunk bytes\<rparr>) s)"
  by (simp add: sock_send_def run_on_conn chunk_def)

lemma run_send_response:
  assumes "omap_find (clients s) k = Some c" and "ready c"
  shows "send_response k code headers content False s = (Inr (), set_conn k
    (c\<lparr>c_headers_sent := True, c_len_headers := of_nat (length content), c_len_actual := of_nat (length content),
       c_sent := c_sent c @ chunk (response_header_text code headers (of_nat (length content)) True (c_origin c)) @
         chunk content\<rparr>) s)"
  using assms
  by (simp add: send_response_def send_response_headers_def send_response_body_def close_unless_keepalive_def
      run_then_do run_then_with run_get_conn run_sock_send check_def ready_def only_if_def Let_def)

lemma set_conn_user [simp]:
  "(set_conn k c s)\<lparr>user_state := h\<rparr> = set_conn k c (s\<lparr>user_state := h\<rparr>)"
  "user_state (set_conn k c s) = user_state s" "clients (s\<lparr>user_state := h\<rparr>) = clients s"
  by (simp_all add: set_conn_def)

record client_request =
  q_method :: string
  q_uri :: string
  q_fields :: "(string \<times> string) list"
  q_body :: string

definition wire :: "client_request \<Rightarrow> string" where
  "wire q = request_text (q_method q) (q_uri q) (q_fields q) (q_body q)"

definition received :: "client_request \<Rightarrow> http_request" where
  "received q = parsed_request (q_method q) (q_uri q) (q_fields q) (q_body q)"

definition sendable :: "u64 \<Rightarrow> client_request \<Rightarrow> bool" where
  "sendable max_request q \<longleftrightarrow>
     plain_request (q_method q) (q_uri q) (q_fields q) \<and> q_method q \<noteq> ''OPTIONS'' \<and>
     length (wire q) < unat max_request \<and> length (q_body q) + 4096 \<le> unat max_request"

lemma sendable_fits: "sendable (c_max_request c) q \<Longrightarrow> fits c (q_method q) (q_uri q) (q_fields q) (q_body q)"
  by (simp add: sendable_def fits_def wire_def)

lemma wire_nonempty: "wire q \<noteq> []"
  by (simp add: wire_def request_text_def head_parts)

text \<open>One request at the front of the buffer, answered.\<close>

lemma one_request:
  assumes "omap_find (clients s) k = Some c" and "ready c" and "sendable (c_max_request c) q"
    and "c_rxbuf c = wire q @ rest"
  shows "\<exists>c'. parse_one_http_request (log_handler reply) k s =
      (Inr (length (wire q)), set_conn k c' (s\<lparr>user_state := user_state s @ [received q]\<rparr>)) \<and>
    ready c' \<and> c_rxbuf c' = c_rxbuf c \<and> c_max_request c' = c_max_request c \<and> c_inbox c' = c_inbox c"
proof -
  let ?s = "set_conn k (c\<lparr>c_origin := ''*''\<rparr>) (s\<lparr>user_state := user_state s @ [received q]\<rparr>)"
  have "plain_request (q_method q) (q_uri q) (q_fields q)" "q_method q \<noteq> ''OPTIONS''"
    using assms(3) by (simp_all add: sendable_def)
  note whole = whole_request [OF this(1) assms(1) _ sendable_fits [OF assms(3)], of rest "log_handler reply"]
  have "ready (c\<lparr>c_origin := ''*''\<rparr>)"
    using assms(2) by (simp add: ready_def)
  from run_send_response [OF _ this, of ?s k "''200 OK''" "[]" "reply (received q)"]
  obtain c' where send: "send_response k ''200 OK'' [] (reply (received q)) False ?s = (Inr (), set_conn k c' ?s)"
      and c': "ready (c'\<lparr>c_headers_sent := False\<rparr>)" "c_headers_sent c'" "c_rxbuf c' = c_rxbuf c"
        "c_max_request c' = c_max_request c" "c_inbox c' = c_inbox c"
    using assms(2) that by (simp add: ready_def)
  have "parse_one_http_request (log_handler reply) k s =
      (Inr (length (wire q)), set_conn k (c'\<lparr>c_headers_sent := False\<rparr>) (s\<lparr>user_state := user_state s @ [received q]\<rparr>))"
    using whole assms(4) send c'(2) \<open>q_method q \<noteq> ''OPTIONS''\<close>
    by (simp add: wire_def received_def log_handler_def run_then_do run_then_with end_request_def run_get_conn
        run_on_conn only_if_def)
  then show ?thesis
    using c' by (intro exI [of _ "c'\<lparr>c_headers_sent := False\<rparr>"]) simp
qed

text \<open>What is left of the requests once a part of their text has been taken.\<close>

definition pending :: "client_request list \<Rightarrow> string \<Rightarrow> bool" where
  "pending es part \<longleftrightarrow> (case es of [] \<Rightarrow> part = [] | q # qs \<Rightarrow> \<exists>later. part @ later = wire q \<and> later \<noteq> [])"

definition stream_text :: "client_request list \<Rightarrow> string" where
  "stream_text qs = concat (map wire qs)"

lemma stream_text_simps [simp]:
  "stream_text [] = []" "stream_text (q # qs) = wire q @ stream_text qs"
  "stream_text (ds @ es) = stream_text ds @ stream_text es"
  by (simp_all add: stream_text_def)

lemma split_stream:
  "buf @ later = stream_text qs \<Longrightarrow>
     \<exists>ds es part. qs = ds @ es \<and> buf = stream_text ds @ part \<and> pending es part"
proof (induction qs arbitrary: buf)
  case Nil
  then show ?case
    by (intro exI [of _ "[]"]) (simp add: pending_def)
next
  case (Cons q qs)
  show ?case
  proof (cases "length buf < length (wire q)")
    case True
    have "take (length buf) (wire q) = buf"
      using arg_cong [OF Cons.prems, of "take (length buf)"] True by simp
    then have "buf @ drop (length buf) (wire q) = wire q"
      using append_take_drop_id [of "length buf" "wire q"] by simp
    moreover have "drop (length buf) (wire q) \<noteq> []"
      using True by simp
    ultimately show ?thesis
      by (intro exI [of _ "[]"] exI [of _ "q # qs"] exI [of _ buf]) (auto simp: pending_def)
  next
    case False
    define buf' where "buf' = drop (length (wire q)) buf"
    have "take (length (wire q)) buf = wire q"
      using arg_cong [OF Cons.prems, of "take (length (wire q))"] False by simp
    then have buf: "buf = wire q @ buf'"
      using append_take_drop_id [of "length (wire q)" buf] by (simp add: buf'_def)
    then have "buf' @ later = stream_text qs"
      using Cons.prems by simp
    from Cons.IH [OF this] obtain ds es part where "qs = ds @ es" "buf' = stream_text ds @ part" "pending es part"
      by blast
    then show ?thesis
      using buf by (intro exI [of _ "q # ds"] exI [of _ es] exI [of _ part]) simp
  qed
qed

lemma no_request:
  assumes "omap_find (clients s) k = Some c" and "pending es (c_rxbuf c)" and "list_all (sendable (c_max_request c)) es"
    and "0 < c_max_request c"
  shows "\<exists>origin. parse_one_http_request H k s = (Inr 0, set_conn k (c\<lparr>c_origin := origin\<rparr>) s)"
proof (cases es)
  case Nil
  then have "c_rxbuf c = []"
    using assms(2) by (simp add: pending_def)
  then show ?thesis
    using assms(4) by (intro exI [of _ "[]"])
      (simp add: parse_start_conn [OF assms(1)] header_loop_partial after_headers_def run_then_with run_get_conn
        parse_start_def Let_def word_less_nat_alt word_le_nat_alt)
next
  case (Cons q qs)
  then obtain later where later: "c_rxbuf c @ later = wire q" "later \<noteq> []"
    using assms(2) by (auto simp: pending_def)
  have q: "sendable (c_max_request c) q"
    using assms(3) Cons by simp
  then have "plain_request (q_method q) (q_uri q) (q_fields q)"
    by (simp add: sendable_def)
  from partial_request [OF this assms(1) later(1) [unfolded wire_def] later(2) sendable_fits [OF q]]
  show ?thesis .
qed

lemma parse_pending:
  assumes "omap_find (clients s) k = Some c" and "ready c" and "list_all (sendable (c_max_request c)) (ds @ es)"
    and "c_rxbuf c = stream_text ds @ part" and "pending es part" and "length ds < rounds" and "0 < c_max_request c"
  shows "\<exists>c'. parse_loop rounds (log_handler reply) k s =
      (Inr (), set_conn k c' (s\<lparr>user_state := user_state s @ map received ds\<rparr>)) \<and>
    ready c' \<and> c_rxbuf c' = part \<and> c_max_request c' = c_max_request c \<and> c_inbox c' = c_inbox c"
  using assms
proof (induction ds arbitrary: s c rounds)
  case Nil
  then obtain n where n: "rounds = Suc n"
    by (cases rounds) auto
  obtain origin where "parse_one_http_request (log_handler reply) k s = (Inr 0, set_conn k (c\<lparr>c_origin := origin\<rparr>) s)"
    using no_request [OF Nil.prems(1)] Nil.prems by auto
  then show ?case
    using Nil.prems n
    by (intro exI [of _ "c\<lparr>c_origin := origin\<rparr>"]) (simp add: run_then_with run_get_conn ready_def set_conn_def)
next
  case (Cons q ds)
  then obtain n where n: "rounds = Suc n"
    by (cases rounds) auto
  obtain c1 where one: "parse_one_http_request (log_handler reply) k s =
      (Inr (length (wire q)), set_conn k c1 (s\<lparr>user_state := user_state s @ [received q]\<rparr>))"
      and c1: "ready c1" "c_rxbuf c1 = c_rxbuf c" "c_max_request c1 = c_max_request c" "c_inbox c1 = c_inbox c"
    using one_request [OF Cons.prems(1,2), of q "stream_text ds @ part" reply] Cons.prems by auto
  let ?c = "c1\<lparr>c_rxbuf := stream_text ds @ part\<rparr>"
  let ?s = "set_conn k ?c (s\<lparr>user_state := user_state s @ [received q]\<rparr>)"
  have "parse_loop rounds (log_handler reply) k s = parse_loop n (log_handler reply) k ?s"
    using one c1 wire_nonempty [of q] Cons.prems(1,2,4) n
    by (simp add: run_then_with run_then_do run_get_conn run_on_conn ready_def)
  moreover have "\<exists>c'. parse_loop n (log_handler reply) k ?s =
      (Inr (), set_conn k c' (?s\<lparr>user_state := user_state ?s @ map received ds\<rparr>)) \<and>
    ready c' \<and> c_rxbuf c' = part \<and> c_max_request c' = c_max_request ?c \<and> c_inbox c' = c_inbox ?c"
    using Cons.prems c1 n by (intro Cons.IH) (auto simp: ready_def)
  ultimately show ?case
    using c1 by simp
qed

text \<open>Bytes arrive at the socket and the server is told.\<close>

definition deliver :: "'h http_handler \<Rightarrow> nat \<Rightarrow> string \<Rightarrow> ('h, unit) http" where
  "deliver H k bytes = then_do (on_conn k (\<lambda>c. c\<lparr>c_inbox := c_inbox c @ bytes\<rparr>)) (on_data_available H k)"

definition room_for :: "u64 \<Rightarrow> client_request list \<Rightarrow> string \<Rightarrow> bool" where
  "room_for max_request qs bytes \<longleftrightarrow> list_all (\<lambda>q. length bytes + length (wire q) \<le> unat max_request) qs"

lemma deliver_pieces:
  assumes "omap_find (clients s) k = Some c" and "ready c" and "c_inbox c = []"
    and "list_all (sendable (c_max_request c)) qs" and "pending qs (c_rxbuf c)"
    and "c_rxbuf c @ concat pieces = stream_text qs" and "list_all (room_for (c_max_request c) qs) pieces"
    and "0 < c_max_request c"
  shows "\<exists>s' c'. for_each pieces (deliver (log_handler reply) k) s = (Inr (), s') \<and>
    user_state s' = user_state s @ map received qs \<and> omap_find (clients s') k = Some c' \<and> ready c' \<and> c_rxbuf c' = []"
  using assms
proof (induction pieces arbitrary: s c qs)
  case Nil
  have "qs = []"
  proof (cases qs)
    case (Cons q qs')
    then obtain later where "c_rxbuf c @ later = wire q" "later \<noteq> []"
      using Nil.prems(5) by (auto simp: pending_def)
    moreover have "c_rxbuf c = wire q @ stream_text qs'"
      using Nil.prems(6) Cons by simp
    ultimately show ?thesis
      by auto
  qed simp
  then show ?case
    using Nil.prems by (intro exI [of _ s] exI [of _ c]) (simp add: for_each_def)
next
  case (Cons piece pieces)
  have "(c_rxbuf c @ piece) @ concat pieces = stream_text qs"
    using Cons.prems(6) by simp
  from split_stream [OF this] obtain ds es part
    where split: "qs = ds @ es" "c_rxbuf c @ piece = stream_text ds @ part" "pending es part"
    by blast
  have room: "length (c_rxbuf c) + length piece \<le> unat (c_max_request c)" "length (c_rxbuf c) < unat (c_max_request c)"
  proof -
    have "length (c_rxbuf c) + length piece \<le> unat (c_max_request c) \<and> length (c_rxbuf c) < unat (c_max_request c)"
    proof (cases qs)
      case Nil
      then show ?thesis
        using Cons.prems(5,6,8) by (simp add: pending_def word_less_nat_alt)
    next
      case (Cons q qs')
      then obtain later where "c_rxbuf c @ later = wire q" "later \<noteq> []"
        using Cons.prems(5) by (auto simp: pending_def)
      then have "length (c_rxbuf c) < length (wire q)"
        by (metis length_append length_greater_0_conv less_add_same_cancel1)
      moreover have "length piece + length (wire q) \<le> unat (c_max_request c)"
        using Cons.prems(7) Cons by (simp add: room_for_def)
      ultimately show ?thesis
        by simp
    qed
    then show "length (c_rxbuf c) + length piece \<le> unat (c_max_request c)" "length (c_rxbuf c) < unat (c_max_request c)"
      by simp_all
  qed
  let ?c = "c\<lparr>c_rxbuf := c_rxbuf c @ piece\<rparr>"
  have got: "receive_all (c\<lparr>c_inbox := piece\<rparr>) = ?c"
    using room Cons.prems(2,3) by (simp add: receive_all_def ready_def)
  have "length ds \<le> length (stream_text ds)"
  proof (induction ds)
    case (Cons q ds)
    then show ?case
      using wire_nonempty [of q] by (cases "wire q") simp_all
  qed simp
  then have rounds: "length ds < Suc (length (c_rxbuf c @ piece))"
    using split(2) by simp
  have start: "deliver (log_handler reply) k piece s =
      parse_loop (Suc (length (c_rxbuf c @ piece))) (log_handler reply) k (set_conn k ?c s)"
    using got room(2) Cons.prems(1,3)
    by (simp add: deliver_def run_then_do run_on_conn on_data_available_def run_then_with del: parse_loop.simps)
  obtain c1 where run: "deliver (log_handler reply) k piece s =
      (Inr (), set_conn k c1 (s\<lparr>user_state := user_state s @ map received ds\<rparr>))"
    and c1: "ready c1" "c_rxbuf c1 = part" "c_max_request c1 = c_max_request c" "c_inbox c1 = []"
    using parse_pending [of "set_conn k ?c s" k ?c ds es part "Suc (length (c_rxbuf c @ piece))" reply]
      Cons.prems split rounds unfolding start by (auto simp: ready_def)
  let ?s = "set_conn k c1 (s\<lparr>user_state := user_state s @ map received ds\<rparr>)"
  have "part @ concat pieces = stream_text es"
    using Cons.prems(6) split(1,2) by (metis append.assoc concat.simps(2) same_append_eq stream_text_simps(3))
  then have "\<exists>s' c'. for_each pieces (deliver (log_handler reply) k) ?s = (Inr (), s') \<and>
    user_state s' = user_state ?s @ map received es \<and> omap_find (clients s') k = Some c' \<and> ready c' \<and> c_rxbuf c' = []"
    using Cons.prems split(1,3) c1 by (intro Cons.IH [where c = c1]) (auto simp: room_for_def list_all_iff)
  then show ?case
    using run split(1) by (simp add: for_each_def run_then_do)
qed

text \<open>Property C20. However the text of a sequence of requests is cut into pieces on its way, the handler
  receives exactly these requests in their order, and nothing is left over. A piece may be as long
  as the buffer allows beside a request that has not arrived whole.\<close>

theorem fragmentation_is_invisible:
  assumes "omap_find (clients s) k = Some c" and "ready c" and "c_inbox c = []" and "c_rxbuf c = []"
    and "list_all (sendable (c_max_request c)) qs" and "0 < c_max_request c"
    and "concat pieces = concat (map wire qs)" and "list_all (room_for (c_max_request c) qs) pieces"
  shows "\<exists>s' c'. for_each pieces (deliver (log_handler reply) k) s = (Inr (), s') \<and>
    user_state s' = user_state s @ map received qs \<and>
    omap_find (clients s') k = Some c' \<and> ready c' \<and> c_rxbuf c' = []"
proof -
  have "pending qs []"
    using wire_nonempty by (auto simp: pending_def split: list.splits)
  then show ?thesis
    using assms by (intro deliver_pieces) (auto simp: stream_text_def)
qed

text \<open>A server with one new connection, for the witnesses.\<close>

definition one_client :: "string \<Rightarrow> 'h \<Rightarrow> 'h server" where
  "one_client buffered h =
     \<lparr>clients = [(0, (new_connection 8192)\<lparr>c_rxbuf := buffered\<rparr>)], allowed_origins = [], origin_error_logged = False,
      is_stopping = False, max_payload_size = 4096, posted = [], user_state = h\<rparr>"

lemma request_reaches_handler_witness:
  "\<exists>origin. parse_one_http_request (log_handler (\<lambda>_. ''ok'')) 0 (one_client ''POST /a HT'' []) =
     (Inr 0, set_conn 0 ((new_connection 8192)\<lparr>c_rxbuf := ''POST /a HT'', c_origin := origin\<rparr>) (one_client ''POST /a HT'' []))"
proof -
  let ?c = "(new_connection 8192)\<lparr>c_rxbuf := ''POST /a HT''\<rparr>"
  have "plain_request ''POST'' ''/a'' [(''Host'', ''h'')]"
    by code_simp
  moreover have "omap_find (clients (one_client ''POST /a HT'' ([] :: http_request list))) 0 = Some ?c"
    by (simp add: one_client_def)
  moreover have "fits ?c ''POST'' ''/a'' [(''Host'', ''h'')] ''xyz''"
    by code_simp
  ultimately show ?thesis
    using request_reaches_handler [of "''POST''" "''/a''" "[(''Host'', ''h'')]"
        "one_client ''POST /a HT'' ([] :: http_request list)" 0 ?c "''xyz''" "log_handler (\<lambda>_. ''ok'')"]
    by (simp add: request_text_def head_parts)
qed

lemma fragmentation_is_invisible_witness:
  "\<exists>s' c'. for_each [''GE'', ''T /a HTTP/1.1'' @ crlf @ ''Content-Length: 0'' @ [cr], [lf] @ crlf]
       (deliver (log_handler (\<lambda>_. ''ok'')) 0) (one_client [] []) = (Inr (), s') \<and>
     user_state s' = [received \<lparr>q_method = ''GET'', q_uri = ''/a'', q_fields = [], q_body = []\<rparr>] \<and>
     omap_find (clients s') 0 = Some c' \<and> ready c' \<and> c_rxbuf c' = []"
proof -
  let ?q = "\<lparr>q_method = ''GET'', q_uri = ''/a'', q_fields = [], q_body = []\<rparr>"
  let ?pieces = "[''GE'', ''T /a HTTP/1.1'' @ crlf @ ''Content-Length: 0'' @ [cr], [lf] @ crlf]"
  have "list_all (sendable 8192) [?q]" "list_all (room_for 8192 [?q]) ?pieces" "concat ?pieces = concat (map wire [?q])"
    by code_simp+
  then show ?thesis
    using fragmentation_is_invisible [of "one_client [] []" 0 "new_connection 8192" "[?q]" ?pieces "\<lambda>_. ''ok''"]
    by (simp add: one_client_def ready_def new_connection_def)
qed

section \<open>Frames\<close>











section \<open>Responses\<close>

lemma length_show_nat: "n < 10 ^ Suc k \<Longrightarrow> length (show_nat n) \<le> Suc k"
proof (induction k arbitrary: n)
  case 0
  then show ?case
    by (subst show_nat.simps) simp
next
  case (Suc k)
  then have "n div 10 < 10 ^ Suc k"
    by (simp add: div_less_iff_less_mult mult.commute)
  with Suc.IH [OF this] show ?case
    by (subst show_nat.simps) simp
qed

lemma c_str_plain: "nul \<notin> set s \<Longrightarrow> c_str s = s"
  by (simp add: c_str_def takeWhile_eq_all_conv) (metis)

definition plain_header :: "http_header \<Rightarrow> bool" where
  "plain_header h \<longleftrightarrow> nul \<notin> set (h_name h) \<and> nul \<notin> set (h_value h)"

text \<open>The lines of the head of a response: \<open>keep\<close> says that the connection stays open.\<close>

definition field_line_sent :: "http_header \<Rightarrow> string" where
  "field_line_sent h = take 127 (h_name h @ '': '' @ h_value h)"

definition connection_lines :: "http_headers \<Rightarrow> bool \<Rightarrow> string list" where
  "connection_lines headers keep =
     (if list_ex (\<lambda>h. case_insensitive_eq (h_name h) ''connection'') headers then []
      else if keep then [''Connection: keep-alive''] else [''Connection: close''])"

definition origin_lines :: "string \<Rightarrow> string list" where
  "origin_lines origin =
     (if origin = [] then [] else [take 127 (''Access-Control-Allow-Origin: '' @ origin), ''Vary: Origin''])"

definition lines_sent :: "string \<Rightarrow> http_headers \<Rightarrow> nat \<Rightarrow> bool \<Rightarrow> string \<Rightarrow> string list" where
  "lines_sent code headers n keep origin =
     (''HTTP/1.1 '' @ code) # map field_line_sent (filter (\<lambda>h. h_name h \<noteq> []) headers) @
     (''Content-Length: '' @ show_nat n) # connection_lines headers keep @ origin_lines origin"

lemma nul_free_take: "nul \<notin> set s \<Longrightarrow> c_str (take n s) = take n s"
  by (rule c_str_plain) (auto dest: in_set_takeD)

lemma header_lines_text:
  assumes "list_all plain_header headers"
  shows "concat (map header_line headers) =
    lines_text (map field_line_sent (filter (\<lambda>h. h_name h \<noteq> []) headers))"
  using assms
proof (induction headers)
  case (Cons h headers)
  then have plain: "nul \<notin> set (h_name h)" "nul \<notin> set (h_value h)" "nul \<notin> set (h_name h @ '': '' @ h_value h)"
    by (auto simp: plain_header_def nul_def)
  have "header_line h = (if h_name h = [] then [] else field_line_sent h @ crlf)"
    unfolding header_line_def field_line_sent_def stack_string_def c_str_plain [OF plain(1)] c_str_plain [OF plain(2)]
      nul_free_take [OF plain(3)] by (rule refl)
  then show ?case
    using Cons by (simp add: lines_text_def)
qed (simp add: lines_text_def)

lemma head_sent:
  assumes "list_all plain_header headers" and "nul \<notin> set code" and "nul \<notin> set origin" and "n < 2 ^ 64 - 1"
  shows "response_header_text code headers (of_nat n) keep origin = lines_text (lines_sent code headers n keep origin) @ crlf"
proof -
  have n: "unat (of_nat n :: u64) = n" "(of_nat n :: u64) \<noteq> k_omit_content_length"
  proof -
    show u: "unat (of_nat n :: u64) = n"
      using assms(4) by (simp add: unat_of_nat)
    have "unat (- 1 :: u64) = 2 ^ 64 - 1"
      by (simp add: unsigned_minus_1_eq_mask mask_eq_exp_minus_1)
    then show "(of_nat n :: u64) \<noteq> k_omit_content_length"
      using u assms(4) unfolding k_omit_content_length_def by (metis less_irrefl)
  qed
  have "length (show_nat n) \<le> 20"
    using assms(4) length_show_nat [of n 19] by simp
  moreover have "nul \<notin> set (show_nat n)"
    using show_nat_digits [of n] by (auto simp: list_all_iff is_digit_def nul_def)
  ultimately have length_line: "stack_string (''Content-Length: '' @ show_nat n) = ''Content-Length: '' @ show_nat n"
    by (simp add: stack_string_def c_str_plain nul_def)
  have origin_line: "stack_string (''Access-Control-Allow-Origin: '' @ c_str origin) =
      take 127 (''Access-Control-Allow-Origin: '' @ origin)"
  proof -
    have "nul \<notin> set (''Access-Control-Allow-Origin: '' @ origin)"
      using assms(3) by (simp add: nul_def)
    then show ?thesis
      unfolding stack_string_def c_str_plain [OF assms(3)] by (rule nul_free_take)
  qed
  have named: "list_ex (\<lambda>kv. h_name kv \<noteq> [] \<and> case_insensitive_eq (h_name kv) ''connection'') headers \<longleftrightarrow>
      list_ex (\<lambda>h. case_insensitive_eq (h_name h) ''connection'') headers"
    by (auto simp: list_ex_iff case_insensitive_eq_def)
  show ?thesis
    unfolding response_header_text_def named n(1) length_line origin_line header_lines_text [OF assms(1)]
    using n(2) assms(2)
    by (simp add: lines_sent_def lines_text_def connection_lines_def origin_lines_def c_str_plain)
qed

lemma set_conn_posted [simp]:
  "(set_conn k c s)\<lparr>posted := p\<rparr> = set_conn k c (s\<lparr>posted := p\<rparr>)" "posted (set_conn k c s) = posted s"
  by (simp_all add: set_conn_def)

lemma run_any_response:
  assumes "omap_find (clients s) k = Some c" and "c_open c" and "\<not> c_websocket c" and "\<not> c_headers_sent c"
    and "keep \<longleftrightarrow> c_keepalive c \<and> \<not> force_close"
  shows "send_response k code headers content force_close s = (Inr (), (set_conn k
    (c\<lparr>c_keepalive := keep, c_headers_sent := True, c_len_headers := of_nat (length content),
       c_len_actual := of_nat (length content),
       c_sent := c_sent c @ chunk (response_header_text code headers (of_nat (length content)) keep (c_origin c)) @
         chunk content, c_open := keep\<rparr>) s)\<lparr>posted := posted s @ (if keep then [] else [k])\<rparr>)"
proof -
  let ?n = "of_nat (length content) :: u64"
  let ?c = "c\<lparr>c_keepalive := keep\<rparr>"
  let ?c1 = "?c\<lparr>c_headers_sent := True, c_len_headers := ?n, c_len_actual := ?n, c_sent := c_sent c @
    chunk (response_header_text code headers ?n keep (c_origin c)) @ chunk content\<rparr>"
  define t where "t = (if force_close then set_conn k ?c s else s)"
  have same: "\<not> force_close \<Longrightarrow> ?c = c"
    using assms(5) by simp
  then have t: "omap_find (clients t) k = Some ?c" "set_conn k c' t = set_conn k c' s" "posted t = posted s" for c'
    using assms(1) by (simp_all add: t_def)
  have forced: "only_if force_close (on_conn k (\<lambda>c. c\<lparr>c_keepalive := False\<rparr>)) s = (Inr (), t)"
    using assms(1,5) by (simp add: t_def only_if_def run_on_conn)
  have body: "then_do (send_response_headers k code headers ?n) (send_response_body k content) t =
      (Inr (), set_conn k ?c1 s)"
    using assms(2-4)
    by (simp add: send_response_headers_def send_response_body_def run_then_do run_then_with run_get_conn [OF t(1)]
        run_get_conn run_sock_send check_def Let_def t(2))
  have "close_unless_keepalive k (set_conn k ?c1 s) =
      (Inr (), (set_conn k (?c1\<lparr>c_open := keep\<rparr>) s)\<lparr>posted := posted s @ (if keep then [] else [k])\<rparr>)"
    using assms(2) by (cases c; cases keep) (simp_all add: close_unless_keepalive_def close_def run_then_do run_then_with run_get_conn only_if_def)
  with forced body show ?thesis
    by (cases keep) (simp_all add: send_response_def run_then_do split: prod.splits sum.splits)
qed

text \<open>
  Property C23. What a response on an open connection sends: the status line, every header field with a name, cut after
  127 characters, the length of the body, what becomes of the connection unless a field says it, the allowed origin
  where the request got one (\<open>*\<close> after a request without the field), an empty line and the body, nothing else. The
  connection stays open exactly if it is kept alive and closing is not forced; else its closing is posted. Other
  connections are left alone.
\<close>

theorem response_on_the_wire:
  assumes "omap_find (clients s) k = Some c" and "c_open c" and "\<not> c_websocket c" and "\<not> c_headers_sent c"
    and "list_all plain_header headers" and "nul \<notin> set code" and "nul \<notin> set (c_origin c)"
    and "length content < 2 ^ 64 - 1" and "keep \<longleftrightarrow> c_keepalive c \<and> \<not> force_close"
  shows "\<exists>s' c'. send_response k code headers content force_close s = (Inr (), s') \<and>
    omap_find (clients s') k = Some c' \<and> c_headers_sent c' \<and> c_open c' = keep \<and>
    posted s' = posted s @ (if keep then [] else [k]) \<and>
    (\<forall>j. j \<noteq> k \<longrightarrow> omap_find (clients s') j = omap_find (clients s) j) \<and>
    concat (c_sent c') = concat (c_sent c) @
      concat (map (\<lambda>l. l @ crlf) (lines_sent code headers (length content) keep (c_origin c))) @ crlf @ content"
  unfolding run_any_response [OF assms(1-4,9)] head_sent [OF assms(5,6,7,8)]
  by (simp add: set_conn_def omap_find_set chunk_def lines_text_def crlf_def)

lemma response_on_the_wire_witness:
  "\<exists>s' c'. send_response 0 ''200 OK'' [header ''X'' (replicate 200 CHR ''y'')] ''hi'' True
       (set_conn 0 ((new_connection 8192)\<lparr>c_origin := ''*''\<rparr>) (one_client [] ())) = (Inr (), s') \<and>
     omap_find (clients s') 0 = Some c' \<and> c_open c' = False \<and> posted s' = [0] \<and>
     concat (c_sent c') = ''HTTP/1.1 200 OK'' @ crlf @ ''X: '' @ replicate 124 CHR ''y'' @ crlf @
       ''Content-Length: 2'' @ crlf @ ''Connection: close'' @ crlf @ ''Access-Control-Allow-Origin: *'' @ crlf @
       ''Vary: Origin'' @ crlf @ crlf @ ''hi''"
proof -
  let ?h = "header ''X'' (replicate 200 CHR ''y'')" and ?c = "(new_connection 8192)\<lparr>c_origin := ''*''\<rparr>"
  let ?s = "set_conn 0 ?c (one_client [] ())"
  have "c_open ?c" "\<not> c_websocket ?c" "\<not> c_headers_sent ?c" "list_all plain_header [?h]" "nul \<notin> set ''200 OK''"
    "nul \<notin> set (c_origin ?c)" "c_keepalive ?c"
    by code_simp+
  moreover have "concat (map (\<lambda>l. l @ crlf) (lines_sent ''200 OK'' [?h] (length ''hi'') False (c_origin ?c))) @ crlf @ ''hi'' =
      ''HTTP/1.1 200 OK'' @ crlf @ ''X: '' @ replicate 124 CHR ''y'' @ crlf @
       ''Content-Length: 2'' @ crlf @ ''Connection: close'' @ crlf @ ''Access-Control-Allow-Origin: *'' @ crlf @
       ''Vary: Origin'' @ crlf @ crlf @ ''hi''"
    by code_simp
  moreover have "c_sent ?c = []" "posted ?s = []"
    by (simp_all add: new_connection_def one_client_def set_conn_def)
  ultimately show ?thesis
    using response_on_the_wire [of ?s 0 ?c "[?h]" "''200 OK''" "''hi''" False True] by auto
qed

end
