(* ===== verification/Http_Multipart.thy ===== *)
theory Http_Multipart
  imports Http_Props
begin

text \<open>
  Bodies of type \<open>multipart/form-data\<close> (\<open>net/http_multipart.h\<close>, \<open>net/http_multipart.cc\<close>) and what
  the parser gets from them.

  The record \<open>multipart\<close> is the members \<open>fields_\<close> and \<open>files_\<close>; the loop of \<open>Parse\<close> is at a position of
  the body, as in the code.
\<close>

record form_field =
  ff_name :: string
  ff_value :: string

record form_file =
  fl_field_name :: string
  fl_filename :: string
  fl_content_type :: string
  fl_content :: string

record multipart =
  mp_fields :: "form_field list"
  mp_files :: "form_file list"

definition trim_view :: "string \<Rightarrow> string" where
  "trim_view sv = rev (dropWhile is_space (rev (dropWhile is_space sv)))"

definition find_substring :: "string \<Rightarrow> string \<Rightarrow> nat option" where
  "find_substring haystack needle =
     (if needle = [] then Some 0 else if haystack = [] then None else find_sub needle haystack)"

section \<open>Parameters of header values\<close>

text \<open>The text of a value up to its end, which a quote or one of the given characters marks.\<close>

definition quoted_or_until :: "(string \<Rightarrow> string) \<Rightarrow> string \<Rightarrow> string \<Rightarrow> string" where
  "quoted_or_until unclosed ends v =
     (if v = [] then []
      else if hd v = CHR 0x22
      then (case find_sub [CHR 0x22] (tl v) of None \<Rightarrow> unclosed (tl v) | Some quote_end \<Rightarrow> take quote_end (tl v))
      else trim_view (takeWhile (\<lambda>c. c \<notin> set ends) v))"

definition extract_param :: "string \<Rightarrow> string \<Rightarrow> string" where
  "extract_param header_value param_name =
     (let search_lower = to_lower param_name @ ''=''
      in case find_sub search_lower (to_lower header_value) of
           None \<Rightarrow> []
         | Some pos \<Rightarrow> quoted_or_until (\<lambda>v. v) '';'' (drop (pos + length search_lower) header_value))"

definition extract_boundary :: "string \<Rightarrow> string" where
  "extract_boundary content_type =
     (case find_sub ''boundary='' (to_lower content_type) of
        None \<Rightarrow> []
      | Some pos \<Rightarrow> quoted_or_until trim_view (''; '' @ [CHR 0x09]) (drop (pos + 9) content_type))"

definition parse_content_disposition :: "string \<Rightarrow> (string \<times> string) option" where
  "parse_content_disposition v =
     (let name = extract_param v ''name''; filename = extract_param v ''filename''
      in if name = [] then None else Some (name, filename))"

section \<open>One part\<close>

text \<open>Where the headers end and the content begins.\<close>

definition split_part :: "string \<Rightarrow> (string \<times> string) option" where
  "split_part part =
     (let crlf_pos = find_substring part [CHR 0x0D, CHR 0x0A, CHR 0x0D, CHR 0x0A];
          lf_pos = find_substring part [CHR 0x0A, CHR 0x0A]
      in case (crlf_pos, lf_pos) of
           (Some c, Some l) \<Rightarrow>
             if c \<le> l then Some (take c part, drop (c + 4) part) else Some (take l part, drop (l + 2) part)
         | (Some c, None) \<Rightarrow> Some (take c part, drop (c + 4) part)
         | (None, Some l) \<Rightarrow> Some (take l part, drop (l + 2) part)
         | (None, None) \<Rightarrow> None)"

definition drop_last_cr :: "string \<Rightarrow> string" where
  "drop_last_cr line = (if line \<noteq> [] \<and> last line = CHR 0x0D then butlast line else line)"

definition part_header :: "string \<Rightarrow> (string, string) omap \<Rightarrow> (string, string) omap" where
  "part_header line headers =
     (let l = drop_last_cr line
      in case find_sub '':'' l of
           None \<Rightarrow> headers
         | Some colon \<Rightarrow>
             omap_set (to_lower (trim_view (take colon l))) (trim_view (drop (colon + 1) l)) headers)"

definition part_headers :: "string \<Rightarrow> (string, string) omap" where
  "part_headers headers_section = fold part_header (getlines CHR 0x0A headers_section) []"

definition parse_part :: "string \<Rightarrow> multipart \<Rightarrow> multipart" where
  "parse_part part mp =
     (case split_part part of
        None \<Rightarrow> mp
      | Some (headers_section, body_section) \<Rightarrow>
          let headers = part_headers headers_section
          in case omap_find headers ''content-disposition'' of
               None \<Rightarrow> mp
             | Some disposition \<Rightarrow>
                 (case parse_content_disposition disposition of
                    None \<Rightarrow> mp
                  | Some (name, filename) \<Rightarrow>
                      if filename \<noteq> []
                      then mp\<lparr>mp_files := mp_files mp @
                             [\<lparr>fl_field_name = name, fl_filename = filename,
                               fl_content_type = (case omap_find headers ''content-type'' of
                                  Some t \<Rightarrow> t | None \<Rightarrow> ''application/octet-stream''),
                               fl_content = body_section\<rparr>]\<rparr>
                      else mp\<lparr>mp_fields := mp_fields mp @ [\<lparr>ff_name = name, ff_value = body_section\<rparr>]\<rparr>))"

section \<open>The body\<close>

text \<open>The end of a part: without the line end before the delimiter at \<open>next_pos\<close>.\<close>

definition part_end :: "string \<Rightarrow> nat \<Rightarrow> nat" where
  "part_end body next_pos =
     (if next_pos \<ge> 2 \<and> char_at body (next_pos - 2) CHR 0x0D \<and> char_at body (next_pos - 1) CHR 0x0A then next_pos - 2
      else if next_pos \<ge> 1 \<and> char_at body (next_pos - 1) CHR 0x0A then next_pos - 1
      else next_pos)"

text \<open>\<open>substr(pos, end - pos)\<close>: the difference wraps if the end is before the position.\<close>

definition part_view :: "string \<Rightarrow> nat \<Rightarrow> nat \<Rightarrow> string" where
  "part_view body pos e = (if pos \<le> e then take (e - pos) (drop pos body) else drop pos body)"

definition after_delimiter :: "string \<Rightarrow> nat \<Rightarrow> nat" where
  "after_delimiter body pos =
     (let p1 = (if char_at body pos CHR 0x0D then pos + 1 else pos)
      in if char_at body p1 CHR 0x0A then p1 + 1 else p1)"

function parts_loop :: "string \<Rightarrow> string \<Rightarrow> nat \<Rightarrow> multipart \<times> bool \<Rightarrow> multipart \<times> bool" where
  "parts_loop boundary body pos (mp, found_any) =
     (let delimiter = ''--'' @ boundary; close_delimiter = ''--'' @ boundary @ ''--''
      in if pos \<ge> length body then (mp, found_any)
         else case find_from body delimiter pos of
           None \<Rightarrow> (mp, found_any)
         | Some next_pos \<Rightarrow>
             let e = part_end body next_pos;
                 part = part_view body pos e;
                 st = (if part \<noteq> [] \<or> pos \<noteq> e then (parse_part part mp, True) else (mp, found_any));
                 pos1 = next_pos + length delimiter
             in if starts_with (drop next_pos body) close_delimiter then st
                else parts_loop boundary body (after_delimiter body pos1) st)"
  by pat_completeness auto
termination
proof (relation "measure (\<lambda>(b, body, pos, st). length body - pos)", simp, goal_cases)
  case (1 boundary body pos mp found delim close_delim at e part st pos1)
  then have "pos \<le> at"
    by (auto simp: find_from_def)
  then have "pos < after_delimiter body pos1"
    using 1 by (auto simp: after_delimiter_def Let_def)
  then show ?case
    using 1 by auto
qed

declare parts_loop.simps [simp del]

definition multipart_parse :: "string \<Rightarrow> string \<Rightarrow> multipart \<times> bool" where
  "multipart_parse body boundary =
     (let none = \<lparr>mp_fields = [], mp_files = []\<rparr>; delimiter = ''--'' @ boundary
      in if body = [] \<or> boundary = [] then (none, False)
         else case find_sub delimiter body of
           None \<Rightarrow> (none, False)
         | Some pos \<Rightarrow> parts_loop boundary body (after_delimiter body (pos + length delimiter)) (none, False))"

end
