(* ===== verification/Http_Multipart_Props.thy ===== *)
theory Http_Multipart_Props
  imports Http_Multipart
begin

text \<open>
  Multipart bodies that a client builds are taken apart into their fields and files.
\<close>

datatype part =
    P_field string string
  | P_file string string string string

abbreviation quote :: char where "quote \<equiv> CHR 0x22"

text \<open>The literal texts are kept folded in the proofs.\<close>

definition name_text :: string where "name_text = ''form-data; name=''"
definition filename_text :: string where "filename_text = ''; filename=''"

definition cd_text :: string where "cd_text = ''Content-Disposition''"
definition ct_text :: string where "ct_text = ''Content-Type''"

definition head_line :: "string \<Rightarrow> string \<Rightarrow> string" where
  "head_line name v = name @ CHR '':'' # CHR '' '' # v"

fun disposition :: "part \<Rightarrow> string" where
  "disposition (P_field n v) = name_text @ [quote] @ n @ [quote]"
| "disposition (P_file n f t c) =
     name_text @ [quote] @ n @ [quote] @ filename_text @ [quote] @ f @ [quote]"

fun header_lines :: "part \<Rightarrow> string list" where
  "header_lines (P_field n v) = [head_line cd_text (disposition (P_field n v))]"
| "header_lines (P_file n f t c) =
     [head_line cd_text (disposition (P_file n f t c)), head_line ct_text t]"

fun content :: "part \<Rightarrow> string" where
  "content (P_field n v) = v"
| "content (P_file n f t c) = c"

definition part_text :: "part \<Rightarrow> string" where
  "part_text p = join_strings (header_lines p) crlf @ crlf @ crlf @ content p"

definition body_text :: "string \<Rightarrow> part list \<Rightarrow> string" where
  "body_text b ps =
     concat (map (\<lambda>p. ''--'' @ b @ crlf @ part_text p @ crlf) ps) @ ''--'' @ b @ ''--'' @ crlf"

text \<open>Names without quotes and line ends, in which \<open>filename=\<close> does not occur; a type without blanks around it.\<close>

definition clean_name :: "string \<Rightarrow> bool" where
  "clean_name n \<longleftrightarrow> n \<noteq> [] \<and> quote \<notin> set n \<and> cr \<notin> set n \<and> lf \<notin> set n \<and>
     find_sub ''filename='' (to_lower n) = None"

fun clean_part :: "part \<Rightarrow> bool" where
  "clean_part (P_field n v) \<longleftrightarrow> clean_name n"
| "clean_part (P_file n f t c) \<longleftrightarrow> clean_name n \<and> clean_name f \<and> cr \<notin> set t \<and> lf \<notin> set t \<and> trim_view t = t"

definition separated :: "string \<Rightarrow> part list \<Rightarrow> bool" where
  "separated b ps \<longleftrightarrow> b \<noteq> [] \<and> cr \<notin> set b \<and> lf \<notin> set b \<and>
     list_all (\<lambda>p. find_sub (''--'' @ b) (part_text p) = None) ps"

section \<open>Searching around a separator\<close>

lemma starts_with_sep:
  assumes "d \<notin> set needle"
  shows "starts_with (a @ d # r) needle \<longleftrightarrow> starts_with a needle"
proof (cases "length needle \<le> length a")
  case False
  then have "length a < length needle"
    by simp
  then have "starts_with (a @ d # r) needle \<Longrightarrow> needle ! length a = d"
    unfolding starts_with_def by (metis nth_append_length nth_take)
  then have "starts_with (a @ d # r) needle \<Longrightarrow> d \<in> set needle"
    using \<open>length a < length needle\<close> nth_mem by metis
  moreover have "\<not> starts_with a needle"
    using False by (auto simp: starts_with_def)
  ultimately show ?thesis
    using assms by blast
qed (simp add: starts_with_def)

lemma find_sub_sep:
  assumes "d \<notin> set needle" and "needle \<noteq> []"
  shows "find_sub needle (a @ d # r) =
    (case find_sub needle a of Some i \<Rightarrow> Some i | None \<Rightarrow> map_option (\<lambda>i. i + length a + 1) (find_sub needle r))"
proof (induction a)
  case Nil
  then show ?case
    using assms starts_with_sep [OF assms(1), of "[]" r] by (auto simp: starts_with_def)
next
  case (Cons x a)
  have "starts_with (x # a @ d # r) needle \<longleftrightarrow> starts_with (x # a) needle"
    using starts_with_sep [OF assms(1), of "x # a" r] by simp
  then show ?case
    using Cons by (auto simp: option.map_comp comp_def split: option.splits)
qed

lemma find_sub_here: "needle \<noteq> [] \<Longrightarrow> find_sub needle (needle @ r) = Some 0"
  by (cases needle) (simp_all add: starts_with_def)

section \<open>The parameters of a part\<close>

lemma lower_append: "to_lower (a @ b) = to_lower a @ to_lower b"
  by (simp add: to_lower_def)

lemma lower_Cons: "to_lower (c # b) = lowercase c # to_lower b"
  by (simp add: to_lower_def)

lemma lower_simps: "to_lower [] = []" "length (to_lower s) = length s" "lowercase quote = quote"
proof -
  show "lowercase quote = quote"
    by code_simp
qed (simp_all add: to_lower_def)

lemma quoted: "quote \<notin> set n \<Longrightarrow> quoted_or_until u e (quote # n @ quote # r) = n"
  using find_char_first [of quote n r] by (simp add: quoted_or_until_def)

lemma literal_texts:
  "to_lower name_text = name_text" "to_lower filename_text = filename_text"
  "length name_text = 16" "length filename_text = 11"
  "find_sub ''name='' name_text = Some 11" "find_sub ''filename='' name_text = None"
  "find_sub ''filename='' filename_text = Some 2"
  "to_lower ''name'' @ ''='' = ''name=''" "to_lower ''filename'' @ ''='' = ''filename=''"
  by code_simp+

lemma lower_disposition:
  "to_lower (name_text @ quote # n @ quote # r) = name_text @ quote # to_lower n @ quote # to_lower r"
  by (simp add: lower_append lower_Cons lower_simps literal_texts)

lemma name_param:
  assumes "quote \<notin> set n"
  shows "extract_param (name_text @ quote # n @ quote # r) ''name'' = n"
proof -
  define needle where "needle = ''name=''"
  have needle: "quote \<notin> set needle" "needle \<noteq> []" "length needle = 5" "find_sub needle name_text = Some 11"
    using literal_texts(5) by (simp_all add: needle_def)
  then have "find_sub needle (name_text @ quote # to_lower n @ quote # to_lower r) = Some 11"
    by (simp add: find_sub_sep)
  then show ?thesis
    using quoted [OF assms] needle(3)
    by (simp add: extract_param_def literal_texts(8) lower_disposition needle_def [symmetric] Let_def literal_texts(3))
qed

lemma no_filename_param:
  assumes "quote \<notin> set n" and "find_sub ''filename='' (to_lower n) = None"
  shows "extract_param (name_text @ quote # n @ [quote]) ''filename'' = []"
proof -
  define needle where "needle = ''filename=''"
  have needle: "quote \<notin> set needle" "needle \<noteq> []" "find_sub needle name_text = None" "find_sub needle (to_lower n) = None"
    using literal_texts(6) assms(2) by (simp_all add: needle_def)
  then have "find_sub needle (name_text @ quote # to_lower n @ quote # to_lower []) = None"
    by (simp add: find_sub_sep lower_simps)
  then show ?thesis
    using lower_disposition [of n "[]"] by (simp add: extract_param_def literal_texts(9) needle_def [symmetric] Let_def)
qed

lemma filename_param:
  assumes "quote \<notin> set n" and "find_sub ''filename='' (to_lower n) = None" and "quote \<notin> set f"
  shows "extract_param (name_text @ quote # n @ quote # filename_text @ quote # f @ [quote]) ''filename'' = f"
proof -
  define needle where "needle = ''filename=''"
  have needle: "quote \<notin> set needle" "needle \<noteq> []" "length needle = 9" "find_sub needle name_text = None"
      "find_sub needle (to_lower n) = None" "find_sub needle filename_text = Some 2"
    using literal_texts(6,7) assms(2) by (simp_all add: needle_def)
  have low: "to_lower (name_text @ quote # n @ quote # filename_text @ quote # f @ [quote]) =
      name_text @ quote # to_lower n @ quote # filename_text @ quote # to_lower f @ [quote]"
    by (simp add: lower_append lower_Cons lower_simps literal_texts)
  have "find_sub needle (name_text @ quote # to_lower n @ quote # filename_text @ quote # to_lower f @ [quote]) =
      Some (2 + length n + 1 + 16 + 1)"
    using needle by (simp add: find_sub_sep lower_simps literal_texts)
  moreover have "drop (2 + length n + 1 + 16 + 1 + 9) (name_text @ quote # n @ quote # filename_text @ quote # f @ [quote]) =
      quote # f @ [quote]"
  proof -
    have "2 + length n + 1 + 16 + 1 + 9 = length (name_text @ quote # n @ quote # filename_text)"
      using literal_texts(3,4) by simp
    then show ?thesis
      by (metis append.assoc append_Cons append_eq_conv_conj)
  qed
  ultimately show ?thesis
    using quoted [OF assms(3), of _ _ "[]"] needle(3)
    by (simp add: extract_param_def literal_texts(9) needle_def [symmetric] low Let_def del: drop_append)
qed

section \<open>Headers and content\<close>

lemma find_sub_skip:
  "x \<notin> set a \<Longrightarrow> find_sub (x # xs) (a @ r) = map_option (\<lambda>i. i + length a) (find_sub (x # xs) r)"
  by (induction a) (auto simp: starts_with_def option.map_comp comp_def option.map_ident)

definition plain_line :: "string \<Rightarrow> bool" where
  "plain_line l \<longleftrightarrow> l \<noteq> [] \<and> cr \<notin> set l \<and> lf \<notin> set l"

lemma head_end:
  assumes "ls \<noteq> []" and "list_all plain_line ls"
  shows "find_sub [cr, lf, cr, lf] (join_strings ls crlf @ crlf @ crlf @ c) = Some (length (join_strings ls crlf)) \<and>
    (\<forall>i. find_sub [lf, lf] (join_strings ls crlf @ crlf @ crlf @ c) = Some i \<longrightarrow> length (join_strings ls crlf) \<le> i)"
  using assms
proof (induction ls)
  case (Cons l ls)
  then have l: "cr \<notin> set l" "lf \<notin> set l"
    by (auto simp: plain_line_def)
  show ?case
  proof (cases ls)
    case Nil
    then show ?thesis
      using l by (auto simp: crlf_def find_sub_skip starts_with_def)
  next
    case (Cons l2 ls2)
    obtain x xs where join: "join_strings ls crlf = x # xs" "x \<noteq> cr" "x \<noteq> lf"
      using Cons.prems(2) \<open>ls = l2 # ls2\<close> by (cases l2) (auto simp: plain_line_def)
    define rest where "rest = join_strings ls crlf @ crlf @ crlf @ c"
    have rest: "rest = x # xs @ crlf @ crlf @ c"
      using join(1) by (simp add: rest_def)
    have skip: "find_sub needle (l @ cr # lf # rest) = map_option (\<lambda>i. i + length l + 2) (find_sub needle rest)"
      if "needle = [cr, lf, cr, lf] \<or> needle = [lf, lf]" for needle
    proof -
      have "\<not> starts_with (cr # lf # rest) needle" "\<not> starts_with (lf # rest) needle"
        using that join(2,3) by (auto simp: starts_with_def rest)
      then have "find_sub needle (cr # lf # rest) = map_option (\<lambda>i. i + 2) (find_sub needle rest)"
        by (simp add: option.map_comp comp_def)
      then show ?thesis
        using that l by (auto simp: find_sub_skip option.map_comp comp_def)
    qed
    have whole: "join_strings (l # ls) crlf @ crlf @ crlf @ c = l @ cr # lf # rest"
      "length (join_strings (l # ls) crlf) = length l + 2 + length (join_strings ls crlf)"
      using \<open>ls = l2 # ls2\<close> by (simp_all add: rest_def crlf_def)
    have "find_sub [cr, lf, cr, lf] rest = Some (length (join_strings ls crlf)) \<and>
        (\<forall>i. find_sub [lf, lf] rest = Some i \<longrightarrow> length (join_strings ls crlf) \<le> i)"
      using Cons.IH Cons.prems \<open>ls = l2 # ls2\<close> by (simp add: rest_def)
    then show ?thesis
      unfolding whole by (auto simp: skip)
  qed
qed simp

lemma part_lines:
  assumes "clean_part p"
  shows "header_lines p \<noteq> []" "list_all plain_line (header_lines p)"
proof -
  have "cr \<notin> set x \<and> lf \<notin> set x" if "x \<in> {cd_text, ct_text, name_text, filename_text}" for x
    using that by (auto simp: cd_text_def ct_text_def name_text_def filename_text_def)
  then show "list_all plain_line (header_lines p)"
    using assms by (cases p) (auto simp: plain_line_def head_line_def clean_name_def)
  show "header_lines p \<noteq> []"
    by (cases p) simp_all
qed

lemma split_part_text:
  assumes "clean_part p"
  shows "split_part (part_text p) = Some (join_strings (header_lines p) crlf, content p)"
proof -
  note head = head_end [OF part_lines [OF assms], of "content p"]
  have "find_substring (part_text p) [cr, lf, cr, lf] = Some (length (join_strings (header_lines p) crlf))"
    using head by (simp add: find_substring_def part_text_def crlf_def)
  moreover have "find_substring (part_text p) [lf, lf] = find_sub [lf, lf] (part_text p)"
    by (simp add: find_substring_def part_text_def crlf_def)
  moreover have "drop (length (join_strings (header_lines p) crlf) + 4) (part_text p) = content p"
    "take (length (join_strings (header_lines p) crlf)) (part_text p) = join_strings (header_lines p) crlf"
    by (simp_all add: part_text_def crlf_def)
  ultimately show ?thesis
    using head by (auto simp: split_part_def Let_def part_text_def split: option.splits)
qed

lemma literal_fields:
  "CHR '':'' \<notin> set cd_text" "CHR '':'' \<notin> set ct_text" "to_lower (trim_view cd_text) = ''content-disposition''"
  "to_lower (trim_view ct_text) = ''content-type''" "hd name_text = CHR ''f''" "name_text \<noteq> []" "is_space CHR '' ''"
  "\<not> is_space CHR ''f''" "\<not> is_space quote"
  by code_simp+

lemma trim_blank: "trim_view (CHR '' '' # v) = trim_view v"
  by (simp add: trim_view_def literal_fields)

lemma trim_id:
  assumes "v \<noteq> []" and "\<not> is_space (hd v)" and "\<not> is_space (last v)"
  shows "trim_view v = v"
proof -
  have drop: "dropWhile is_space w = w" if "w = [] \<or> \<not> is_space (hd w)" for w
    using that by (cases w) auto
  then show ?thesis
    using assms drop [of v] drop [of "rev v"] by (auto simp: trim_view_def hd_rev)
qed

lemma part_header_line:
  assumes "CHR '':'' \<notin> set name" and "drop_last_cr line = head_line name v"
  shows "part_header line hs = omap_set (to_lower (trim_view name)) (trim_view v) hs"
proof -
  have "find_sub '':'' (head_line name v) = Some (length name)"
    using assms(1) find_char_first by (simp add: head_line_def)
  then show ?thesis
    using assms(2) by (simp add: part_header_def Let_def) (simp add: head_line_def trim_blank)
qed

lemma drop_cr:
  "drop_last_cr (l @ [cr]) = l" "cr \<notin> set l \<Longrightarrow> drop_last_cr l = l"
proof -
  have "l \<noteq> [] \<Longrightarrow> last l \<in> set l"
    by (rule last_in_set)
  then show "cr \<notin> set l \<Longrightarrow> drop_last_cr l = l"
    by (auto simp: drop_last_cr_def simp del: last_in_set)
qed (simp add: drop_last_cr_def)

lemma trim_disposition: "trim_view (disposition p) = disposition p"
proof (rule trim_id)
  show "disposition p \<noteq> []" "\<not> is_space (hd (disposition p))" "\<not> is_space (last (disposition p))"
    by (cases p; simp add: literal_fields)+
qed

lemma getlines_one: "plain_line l \<Longrightarrow> getlines lf l = [l]"
  using getlines_join [of "[l]" lf] by (simp add: plain_line_def)

lemma getlines_two:
  assumes "plain_line l" and "plain_line l'"
  shows "getlines lf (l @ crlf @ l') = [l @ [cr], l']"
proof -
  have "getlines lf (join_strings [l @ [cr], l'] [lf]) = [l @ [cr], l']"
    using assms by (intro getlines_join) (auto simp: plain_line_def)
  then show ?thesis
    by (simp add: crlf_def)
qed

lemma headers_of_part:
  assumes "clean_part p"
  shows "omap_find (part_headers (join_strings (header_lines p) crlf)) ''content-disposition'' = Some (disposition p)"
    "p = P_file n f t c \<Longrightarrow> omap_find (part_headers (join_strings (header_lines p) crlf)) ''content-type'' = Some t"
proof -
  have cd: "part_header line hs = omap_set ''content-disposition'' (disposition p) hs"
    if "drop_last_cr line = head_line cd_text (disposition p)" for line hs
    using part_header_line [OF literal_fields(1) that] by (simp add: literal_fields trim_disposition)
  note lines = part_lines(2) [OF assms]
  have "omap_find (part_headers (join_strings (header_lines p) crlf)) ''content-disposition'' = Some (disposition p) \<and>
      (\<forall>n f t c. p = P_file n f t c \<longrightarrow>
        omap_find (part_headers (join_strings (header_lines p) crlf)) ''content-type'' = Some t)"
  proof (cases p)
    case (P_field n v)
    then have "plain_line (head_line cd_text (disposition p))"
      using lines by simp
    then have "part_headers (join_strings (header_lines p) crlf) = omap_set ''content-disposition'' (disposition p) []"
      using cd drop_cr(2) P_field by (simp add: part_headers_def getlines_one plain_line_def del: disposition.simps)
    then show ?thesis
      using P_field by simp
  next
    case (P_file n f t c)
    let ?d = "head_line cd_text (disposition p)"
    let ?t = "head_line ct_text t"
    have plain: "plain_line ?d" "plain_line ?t"
      using lines P_file by simp_all
    have t: "trim_view t = t" "drop_last_cr ?t = ?t"
      using assms P_file plain(2) drop_cr(2) by (simp_all add: plain_line_def)
    have "part_headers (join_strings (header_lines p) crlf) = part_header ?t (part_header (?d @ [cr]) [])"
      using getlines_two [OF plain] P_file by (simp add: part_headers_def del: disposition.simps)
    then have "part_headers (join_strings (header_lines p) crlf) =
        omap_set ''content-type'' t (omap_set ''content-disposition'' (disposition p) [])"
      using cd [OF drop_cr(1)] part_header_line [OF literal_fields(2) t(2)] t(1) by (simp add: literal_fields)
    then show ?thesis
      using P_file by (simp add: omap_find_set del: omap_set.simps)
  qed
  then show "omap_find (part_headers (join_strings (header_lines p) crlf)) ''content-disposition'' = Some (disposition p)"
    "p = P_file n f t c \<Longrightarrow> omap_find (part_headers (join_strings (header_lines p) crlf)) ''content-type'' = Some t"
    by blast+
qed

lemma disposition_parsed:
  "clean_part p \<Longrightarrow> parse_content_disposition (disposition p) =
     Some (case p of P_field n v \<Rightarrow> (n, []) | P_file n f t c \<Rightarrow> (n, f))"
  by (cases p) (simp_all add: parse_content_disposition_def name_param no_filename_param filename_param clean_name_def Let_def)

lemma parse_part_text:
  assumes "clean_part p"
  shows "parse_part (part_text p) mp = (case p of
     P_field n v \<Rightarrow> mp\<lparr>mp_fields := mp_fields mp @ [\<lparr>ff_name = n, ff_value = v\<rparr>]\<rparr>
   | P_file n f t c \<Rightarrow> mp\<lparr>mp_files := mp_files mp @
       [\<lparr>fl_field_name = n, fl_filename = f, fl_content_type = t, fl_content = c\<rparr>]\<rparr>)"
proof (cases p)
  case (P_field n v)
  then show ?thesis
    using split_part_text [OF assms] headers_of_part(1) [OF assms] disposition_parsed [OF assms]
    by (simp add: parse_part_def Let_def del: disposition.simps header_lines.simps)
next
  case (P_file n f t c)
  then have "f \<noteq> []"
    using assms by (simp add: clean_name_def)
  then show ?thesis
    using split_part_text [OF assms] headers_of_part(1) [OF assms] headers_of_part(2) [OF assms P_file]
      disposition_parsed [OF assms] P_file
    by (simp add: parse_part_def Let_def del: disposition.simps header_lines.simps)
qed

section \<open>The whole body\<close>

definition add_part :: "part \<Rightarrow> multipart \<Rightarrow> multipart" where
  "add_part p mp = (case p of
     P_field n v \<Rightarrow> mp\<lparr>mp_fields := mp_fields mp @ [\<lparr>ff_name = n, ff_value = v\<rparr>]\<rparr>
   | P_file n f t c \<Rightarrow> mp\<lparr>mp_files := mp_files mp @
       [\<lparr>fl_field_name = n, fl_filename = f, fl_content_type = t, fl_content = c\<rparr>]\<rparr>)"

text \<open>What follows the delimiter of a part.\<close>

definition parts_rest :: "string \<Rightarrow> part list \<Rightarrow> string" where
  "parts_rest b ps = concat (map (\<lambda>p. crlf @ part_text p @ crlf @ ''--'' @ b) ps) @ ''--'' @ crlf"

lemma body_rest: "body_text b ps = ''--'' @ b @ parts_rest b ps"
  by (induction ps) (simp_all add: body_text_def parts_rest_def)

lemma part_text_nonempty: "part_text p \<noteq> []"
  by (simp add: part_text_def crlf_def)

lemma char_at_offset: "char_at (pre @ s) (length pre + i) c \<longleftrightarrow> char_at s i c"
  by (simp add: char_at_def nth_append)

lemma parts_step:
  assumes "pos < length body" and "find_from body (''--'' @ b) pos = Some at" and "part_end body at = e"
    and "part_view body pos e = part_text p" and "clean_part p"
    and "starts_with (drop at body) (''--'' @ b @ ''--'') \<longleftrightarrow> closing"
  shows "parts_loop b body pos (mp, found) =
    (if closing then (add_part p mp, True)
     else parts_loop b body (after_delimiter body (at + length (''--'' @ b))) (add_part p mp, True))"
  using assms part_text_nonempty [of p] parse_part_text [of p mp]
  by (subst parts_loop.simps) (simp add: Let_def add_part_def)

lemma part_end_crlf: "part_end (pre @ crlf @ rest) (length (pre @ crlf)) = length pre"
  using char_at_offset [of pre "crlf @ rest" 0] char_at_offset [of pre "crlf @ rest" 1]
  by (simp add: part_end_def crlf_def char_at_def)

lemma after_delimiter_crlf: "after_delimiter (pre @ crlf @ rest) (length pre) = length (pre @ crlf)"
  using char_at_offset [of pre "crlf @ rest" 0] char_at_offset [of pre "crlf @ rest" 1]
  by (simp add: after_delimiter_def Let_def crlf_def char_at_def)

lemma parts_parsed:
  assumes "separated b ps" and "list_all clean_part ps" and "body = pre @ parts_rest b ps" and "ps \<noteq> []"
  shows "parts_loop b body (after_delimiter body (length pre)) (mp, found) = (fold add_part ps mp, True)"
  using assms
proof (induction ps arbitrary: pre mp found)
  case (Cons p ps)
  define delim where "delim = ''--'' @ b"
  define rest where "rest = delim @ parts_rest b ps"
  have body: "body = pre @ crlf @ part_text p @ crlf @ rest"
    using Cons.prems(3) by (simp add: parts_rest_def delim_def rest_def)
  have pos: "after_delimiter body (length pre) = length (pre @ crlf)"
    by (simp only: body after_delimiter_crlf)
  define at where "at = length ((pre @ crlf @ part_text p) @ crlf)"
  have "cr \<notin> set delim" "lf \<notin> set delim" "find_sub delim (part_text p) = None"
    using Cons.prems(1) by (auto simp: separated_def delim_def)
  moreover have "delim \<noteq> []"
    by (simp add: delim_def)
  ultimately have "find_sub delim (part_text p @ crlf @ rest) = Some (length (part_text p) + 2)"
    using find_sub_here [of delim "parts_rest b ps"] find_sub_sep [of lf delim "[]" rest] \<open>delim \<noteq> []\<close>
    by (simp add: find_sub_sep rest_def crlf_def)
  then have found_at: "find_from body (''--'' @ b) (length (pre @ crlf)) = Some at"
    unfolding delim_def [symmetric] by (simp add: body find_from_def at_def crlf_def)
  have ending: "part_end body at = length (pre @ crlf @ part_text p)"
    using part_end_crlf [of "pre @ crlf @ part_text p" rest] by (simp add: body at_def)
  have view: "part_view body (length (pre @ crlf)) (length (pre @ crlf @ part_text p)) = part_text p"
    by (simp add: part_view_def body)
  have after: "drop at body = rest"
    by (simp add: at_def body)
  have close: "starts_with (drop at body) (''--'' @ b @ ''--'') \<longleftrightarrow> ps = []"
    unfolding after by (cases ps) (auto simp: starts_with_def parts_rest_def crlf_def rest_def delim_def)
  have inside: "length (pre @ crlf) < length body"
    by (simp add: body crlf_def)
  have step: "parts_loop b body (length (pre @ crlf)) (mp, found) =
      (if ps = [] then (add_part p mp, True)
       else parts_loop b body (after_delimiter body (at + length (''--'' @ b))) (add_part p mp, True))"
    using Cons.prems(2) by (intro parts_step [OF inside found_at ending view _ close]) simp
  have next_pos: "at + length (''--'' @ b) = length (pre @ crlf @ part_text p @ crlf @ delim)"
    by (simp add: at_def delim_def)
  have "parts_loop b body (after_delimiter body (length (pre @ crlf @ part_text p @ crlf @ delim))) (add_part p mp, True) =
      (fold add_part ps (add_part p mp), True)" if "ps \<noteq> []"
    using Cons.prems(1,2) that
    by (intro Cons.IH) (simp_all add: separated_def body rest_def)
  then show ?case
    unfolding pos step next_pos by simp
qed simp

text \<open>
  Property C24. The parser takes apart the bodies that a client builds: for a boundary that occurs in no part, and fields and
  files with clean names, \<open>Parse\<close> succeeds and its lists are the fields and the files in the order of the body,
  each with its name, its file name, its type and its content, byte for byte.
\<close>

theorem multipart_roundtrip:
  assumes "separated b ps" and "list_all clean_part ps" and "ps \<noteq> []"
  shows "multipart_parse (body_text b ps) b =
    (\<lparr>mp_fields = [\<lparr>ff_name = n, ff_value = v\<rparr>. P_field n v \<leftarrow> ps],
      mp_files = [\<lparr>fl_field_name = n, fl_filename = f, fl_content_type = t, fl_content = c\<rparr>. P_file n f t c \<leftarrow> ps]\<rparr>,
     True)"
proof -
  have added: "fold add_part qs mp =
    mp\<lparr>mp_fields := mp_fields mp @ [\<lparr>ff_name = n, ff_value = v\<rparr>. P_field n v \<leftarrow> qs],
       mp_files := mp_files mp @
         [\<lparr>fl_field_name = n, fl_filename = f, fl_content_type = t, fl_content = c\<rparr>. P_file n f t c \<leftarrow> qs]\<rparr>" for qs mp
    by (induction qs arbitrary: mp) (simp_all add: add_part_def split: part.split)
  define delim where "delim = ''--'' @ b"
  have body: "body_text b ps = delim @ parts_rest b ps" and "delim \<noteq> []"
    by (simp_all add: body_rest delim_def)
  then have "find_sub delim (body_text b ps) = Some 0"
    using find_sub_here [of delim "parts_rest b ps"] by simp
  moreover have "parts_loop b (body_text b ps) (after_delimiter (body_text b ps) (length delim)) (mp, False) =
      (fold add_part ps mp, True)" for mp
    by (rule parts_parsed [OF assms(1,2) body assms(3)])
  moreover have "b \<noteq> []" "body_text b ps \<noteq> []"
    using assms(1) body \<open>delim \<noteq> []\<close> by (simp_all add: separated_def)
  ultimately show ?thesis
    unfolding multipart_parse_def delim_def by (simp add: added Let_def)
qed

theorem multipart_roundtrip_witness:
  "multipart_parse (body_text ''xYz'' [P_field ''a'' ''1'', P_file ''up'' ''p.txt'' ''text/plain'' ''--xY'']) ''xYz'' =
    (\<lparr>mp_fields = [\<lparr>ff_name = ''a'', ff_value = ''1''\<rparr>],
      mp_files = [\<lparr>fl_field_name = ''up'', fl_filename = ''p.txt'', fl_content_type = ''text/plain'',
                    fl_content = ''--xY''\<rparr>]\<rparr>, True)"
proof -
  let ?ps = "[P_field ''a'' ''1'', P_file ''up'' ''p.txt'' ''text/plain'' ''--xY'']"
  have "separated ''xYz'' ?ps" "list_all clean_part ?ps"
    by code_simp+
  then show ?thesis
    using multipart_roundtrip [of "''xYz''" ?ps] by simp
qed

definition filename_first :: string where "filename_first = ''form-data; filename=''"

lemma filename_first_text:
  "to_lower filename_first = filename_first" "length filename_first = 20"
  "find_sub ''name='' filename_first = Some 15" "find_sub ''filename='' filename_first = Some 11"
  by code_simp+

lemma first_param:
  assumes "quote \<notin> set f" and "quote \<notin> set needle" and "to_lower name @ ''='' = needle"
    and "find_sub needle filename_first = Some i" and "i + length needle = 20"
  shows "extract_param (filename_first @ quote # f @ quote # r) name = f"
proof -
  have "needle \<noteq> []"
    using assms(3) by auto
  have low: "to_lower (filename_first @ quote # f @ quote # r) = filename_first @ quote # to_lower f @ quote # to_lower r"
    by (simp add: lower_append lower_Cons lower_simps filename_first_text)
  have "find_sub needle (filename_first @ quote # to_lower f @ quote # to_lower r) = Some i"
    using assms(2,4) \<open>needle \<noteq> []\<close> by (simp add: find_sub_sep)
  moreover have "drop (i + length needle) (filename_first @ quote # f @ quote # r) = quote # f @ quote # r"
    using assms(5) filename_first_text(2) by simp
  ultimately show ?thesis
    using quoted [OF assms(1)] by (simp add: extract_param_def assms(3) low Let_def del: drop_append)
qed

text \<open>
  The name of a part is looked for as the text \<open>name=\<close> anywhere in the header, also inside
  \<open>filename=\<close>: a file name that comes first is taken for the name of the field, whatever the name is.
\<close>

theorem filename_shadows_name:
  assumes "f \<noteq> []" and "quote \<notin> set f"
  shows "parse_content_disposition (filename_first @ [quote] @ f @ [quote] @ ''; name='' @ r) = Some (f, f)"
proof -
  have "quote \<notin> set ''name=''" "quote \<notin> set ''filename=''"
    by simp_all
  then have "extract_param (filename_first @ quote # f @ quote # ''; name='' @ r) ''name'' = f"
    "extract_param (filename_first @ quote # f @ quote # ''; name='' @ r) ''filename'' = f"
    using first_param [OF assms(2) _ literal_texts(8) filename_first_text(3)]
      first_param [OF assms(2) _ literal_texts(9) filename_first_text(4)] by simp_all
  then show ?thesis
    using assms(1) by (simp add: parse_content_disposition_def Let_def)
qed

theorem filename_shadows_name_witness:
  "parse_content_disposition (filename_first @ [quote] @ ''p.txt'' @ [quote] @ ''; name='' @ [quote] @ ''up'' @ [quote]) =
    Some (''p.txt'', ''p.txt'')"
  using filename_shadows_name [of "''p.txt''" "[quote] @ ''up'' @ [quote]"] by simp

end
