(* ===== verification/Http_Client_Props.thy ===== *)
theory Http_Client_Props
  imports Http_Client Char_Search Http_Server_Props Http_Multipart_Props
begin

text \<open>
  What the client makes of the bytes of a response, however they arrive, and what it sends.
\<close>

section \<open>The head of a response\<close>

definition status_line :: "nat \<Rightarrow> string \<Rightarrow> string" where
  "status_line code reason = ''HTTP/1.1 '' @ show_nat code @ '' '' @ reason"

definition response_lines :: "nat \<Rightarrow> string \<Rightarrow> (string \<times> string) list \<Rightarrow> string list" where
  "response_lines code reason fs = status_line code reason # map field_text fs"

definition response_head :: "nat \<Rightarrow> string \<Rightarrow> (string \<times> string) list \<Rightarrow> string" where
  "response_head code reason fs = join_strings (response_lines code reason fs) crlf"

definition head_response :: "nat \<Rightarrow> string \<Rightarrow> (string \<times> string) list \<Rightarrow> in_response" where
  "head_response code reason fs =
     empty_response\<lparr>rs_code := int code, rs_message := reason, rs_headers := map (\<lambda>(n, v). header n v) fs\<rparr>"

definition plain_response :: "nat \<Rightarrow> string \<Rightarrow> (string \<times> string) list \<Rightarrow> bool" where
  "plain_response code reason fs \<longleftrightarrow>
     code < 1000 \<and> cr \<notin> set reason \<and> lf \<notin> set reason \<and>
     list_all (\<lambda>f. plain_field f \<and> cr \<notin> set (fst f) \<and> cr \<notin> set (snd f)) fs"

lemma response_lines_plain:
  assumes "plain_response code reason fs"
  shows "list_all plain_line (response_lines code reason fs)"
proof -
  have "cr \<notin> set (show_nat code) \<and> lf \<notin> set (show_nat code)"
    using show_nat_digits [of code] by (auto simp: list_all_iff is_digit_def)
  then show ?thesis
    using assms by (auto simp: response_lines_def status_line_def plain_line_def plain_response_def plain_field_def
        field_text_def list_all_iff)
qed

lemma response_head_end:
  assumes "plain_response code reason fs"
  shows "find_sub crlf2 (response_head code reason fs @ crlf2 @ rest) = Some (length (response_head code reason fs))"
  using head_end [of "response_lines code reason fs" rest] response_lines_plain [OF assms]
  by (simp add: response_head_def crlf2_def crlf_def response_lines_def)

text \<open>The lines as the client takes them apart.\<close>

lemma getlines_crlf:
  assumes "list_all plain_line ls" and "ls \<noteq> []"
  shows "map strip_cr (getlines lf (join_strings ls crlf)) = ls"
proof -
  have "getlines lf (join_strings ls crlf) = map (\<lambda>l. l @ [cr]) (butlast ls) @ [last ls]"
    using assms
  proof (induction ls)
    case (Cons l ls)
    show ?case
    proof (cases ls)
      case Nil
      then show ?thesis
        using Cons.prems getlines_one by simp
    next
      case (Cons l2 ls2)
      have l: "lf \<notin> set (l @ [cr])"
        using Cons.prems by (simp add: plain_line_def)
      have "getlines lf ((l @ [cr]) @ lf # join_strings ls crlf) = (l @ [cr]) # getlines lf (join_strings ls crlf)"
        using l takeWhile_upto [OF l] dropWhile_upto [OF l] by (subst getlines.simps) simp
      then show ?thesis
        using Cons.IH Cons.prems Cons by (simp add: crlf_def)
    qed
  qed simp
  moreover have "strip_cr (last ls) = last ls"
  proof -
    have "plain_line (last ls)"
      using assms last_in_set [of ls] by (simp add: list_all_iff)
    then have "last (last ls) \<in> set (last ls)" "cr \<notin> set (last ls)"
      by (simp_all add: plain_line_def)
    then show ?thesis
      by (auto simp: strip_cr_def)
  qed
  moreover have "map strip_cr (map (\<lambda>l. l @ [cr]) ks) = ks" for ks
    by (induction ks) (simp_all add: strip_cr_def)
  ultimately show ?thesis
    using assms(2) by (simp del: map_map)
qed

lemma skip_ten: "skip_base_prefix 10 s = s"
  by (simp add: skip_base_prefix_def split: list.split)

lemma parse_status_line_text:
  assumes "plain_response code reason fs"
  shows "parse_status_line (status_line code reason) = (int code, reason)"
proof -
  obtain d ds where d: "show_nat code = d # ds" "is_digit d" "list_all is_digit ds"
    using show_nat_Cons [of code] by blast
  have digit: "is_digit_of 10 = is_digit"
    by (rule ext) (auto simp: is_digit_of_def alnum_value_def is_digit_def ch_def)
  have val: "value_of 10 (show_nat code) = code"
  proof -
    have "\<forall>c \<in> set (show_nat code). the (alnum_value c) = digit_value c"
      using show_nat_digits [of code] by (auto simp: list_all_iff alnum_value_def is_digit_def digit_value_def ch_def)
    then have "value_of 10 (show_nat code) = digits_value (show_nat code)"
      unfolding value_of_def digits_value_def by (intro foldl_cong) simp_all
    then show ?thesis
      by simp
  qed
  have "\<not> is_space d" "d \<noteq> CHR ''-''" "d \<noteq> CHR ''+''"
    using d(2) by (auto simp: is_space_def is_digit_def)
  then have sign: "take_sign (dropWhile is_space ('' '' @ show_nat code @ '' '' @ reason)) = (False, show_nat code @ '' '' @ reason)"
    using d(1) by (simp add: take_sign_def is_space_def)
  have digits: "takeWhile is_digit (show_nat code @ '' '' @ reason) = show_nat code"
    "dropWhile is_digit (show_nat code @ '' '' @ reason) = '' '' @ reason"
    using show_nat_digits [of code] by (simp_all add: list_all_iff takeWhile_append2 dropWhile_append2 is_digit_def)
  have "scan_integer 10 ('' '' @ show_nat code @ '' '' @ reason) = Some (False, code, '' '' @ reason)"
    using digits val d(1) unfolding scan_integer_def sign Let_def by (simp add: skip_ten digit)
  moreover have "dropWhile (\<lambda>x. \<not> is_space x) (dropWhile is_space (status_line code reason)) = '' '' @ show_nat code @ '' '' @ reason"
    by (simp add: status_line_def is_space_def)
  moreover have "clamp_int (int code) = (int code, True)"
    using assms by (simp add: clamp_int_def plain_response_def)
  ultimately show ?thesis
    by (simp add: parse_status_line_def)
qed

lemma parse_field_text:
  assumes "plain_field f"
  shows "parse_header_line (field_text f) = [header (fst f) (snd f)]"
proof -
  have "find_sub '':'' (field_text f) = Some (length (fst f))"
    using assms find_char_first by (simp add: field_text_def plain_field_def)
  moreover have "trim_whitespace (CHR '' '' # snd f) = snd f"
    using assms by (intro trim_plain) (auto simp: plain_field_def)
  ultimately show ?thesis
    by (simp add: parse_header_line_def field_text_def)
qed

lemma parse_head:
  assumes "plain_response code reason fs"
  shows "parse_response_headers (response_head code reason fs) empty_response = head_response code reason fs"
proof -
  have lines: "map strip_cr (getlines lf (response_head code reason fs)) = status_line code reason # map field_text fs"
    using getlines_crlf [OF response_lines_plain [OF assms]] by (simp add: response_head_def response_lines_def)
  have whole: "takeWhile (\<lambda>l. l \<noteq> []) (map field_text fs) = map field_text fs"
    by (simp add: takeWhile_eq_all_conv field_text_def)
  have "concat (map (parse_header_line \<circ> field_text) fs) = map (\<lambda>(n, v). header n v) fs"
    using assms by (induction fs) (simp_all add: plain_response_def parse_field_text split_beta)
  then show ?thesis
    unfolding parse_response_headers_def lines
    by (simp add: whole parse_status_line_text [OF assms] head_response_def empty_response_def)
qed

section \<open>Searching in a part of a text\<close>

lemma starts_with_take: "starts_with (s @ r) needle \<longleftrightarrow> starts_with s needle" if "length needle \<le> length s"
  using that by (simp add: starts_with_def)

lemma starts_with_length: "starts_with s needle \<Longrightarrow> length needle \<le> length s"
  unfolding starts_with_def by (metis length_take min.cobounded1)

lemma find_sub_bound: "find_sub needle s = Some i \<Longrightarrow> i + length needle \<le> length s"
proof (induction s arbitrary: i)
  case (Cons c cs)
  then show ?case
    using starts_with_length [of "c # cs" needle] by (auto split: if_splits)
qed (simp split: if_splits)

lemma find_sub_append: "find_sub needle s = Some i \<Longrightarrow> find_sub needle (s @ r) = Some i"
proof (induction s arbitrary: i)
  case Nil
  then show ?case
    by (cases r) (simp_all add: starts_with_def split: if_splits)
next
  case (Cons c cs)
  have "length needle \<le> length (c # cs)"
    using find_sub_bound [OF Cons.prems] by simp
  then have "starts_with (c # cs @ r) needle \<longleftrightarrow> starts_with (c # cs) needle"
    using starts_with_take [of needle "c # cs" r] by simp
  then show ?case
    using Cons by (auto split: if_splits)
qed

lemma find_sub_inside: "find_sub needle (a @ needle @ r) \<noteq> None"
proof (induction a)
  case Nil
  have "starts_with (needle @ r) needle"
    by (simp add: starts_with_def)
  then show ?case
    by (cases "needle @ r") (auto simp: starts_with_def)
next
  case (Cons x a)
  then show ?case
    by simp
qed

lemma find_sub_before: "find_sub needle (p @ r) = Some i \<Longrightarrow> length p < i + length needle \<Longrightarrow> find_sub needle p = None"
proof (cases "find_sub needle p")
  case (Some j)
  assume "find_sub needle (p @ r) = Some i" "length p < i + length needle"
  then show ?thesis
    using find_sub_append [OF Some, of r] find_sub_bound [OF Some] by simp
qed

section \<open>A client that waits for a response\<close>

text \<open>A listener that looks on.\<close>

definition quiet_listener :: "'w client_env \<Rightarrow> bool" where
  "quiet_listener E \<longleftrightarrow>
     (\<forall>l done all_bytes c. on_progress E l done all_bytes c = c) \<and> (\<forall>l data c. on_body_data E l data c = (True, c))"

definition awaiting :: "'w http_client \<Rightarrow> bool" where
  "awaiting c \<longleftrightarrow>
     hc_state c \<noteq> St_idle \<and> \<not> st_completed (hc_current c) \<and> \<not> st_headers_received (hc_current c) \<and>
     st_buffer (hc_current c) = [] \<and> \<not> st_has_length (hc_current c) \<and> st_body_bytes (hc_current c) = 0 \<and>
     \<not> st_chunked (hc_current c) \<and> st_chunk_size (hc_current c) = - 1 \<and> st_response (hc_current c) = empty_response \<and>
     \<not> st_cancel_requested (hc_current c) \<and> \<not> st_in_callback (hc_current c)"

lemma quiet_call:
  assumes "\<not> st_cancel_requested (hc_current c)" and "\<not> st_in_callback (hc_current c)"
  shows "in_callback (\<lambda>c. (x, c)) c = (False, x, c)"
proof -
  have same: "on_current (\<lambda>s. s\<lparr>st_in_callback := False\<rparr>) (on_current (\<lambda>s. s\<lparr>st_in_callback := True\<rparr>) c) = c"
    using assms(2) by (simp add: on_current_def)
  have "finish_deferred_cancel c = (False, c)"
    using assms(1) by (simp add: finish_deferred_cancel_def)
  then show ?thesis
    unfolding in_callback_def prod.case Let_def same by simp
qed

lemma quiet_calls:
  assumes "quiet_listener E" and "\<not> st_cancel_requested (hc_current c)" and "\<not> st_in_callback (hc_current c)"
  shows "report_progress E done all_bytes c = (False, c)" "offer_body E data c = (False, True, c)"
proof -
  note call = quiet_call [OF assms(2,3)]
  have "on_body_data E l data = (\<lambda>c. (True, c))" "(\<lambda>c. ((), on_progress E l done all_bytes c)) = (\<lambda>c. ((), c))" for l
    using assms(1) by (simp_all add: quiet_listener_def fun_eq_iff)
  then show "report_progress E done all_bytes c = (False, c)" "offer_body E data c = (False, True, c)"
    by (simp_all add: report_progress_def offer_body_def call split: option.split)
qed

fun receive_pieces :: "'w client_env \<Rightarrow> string list \<Rightarrow> 'w http_client \<Rightarrow> 'w client_result" where
  "receive_pieces E [] c = Some (Inr c)"
| "receive_pieces E (d # ds) c =
     (case on_data_received E d c of Some (Inr c1) \<Rightarrow> receive_pieces E ds c1 | r \<Rightarrow> r)"

text \<open>The client with a part of the head in its buffer.\<close>

definition head_at :: "client_state \<Rightarrow> u64 \<Rightarrow> string \<Rightarrow> 'w client_op" where
  "head_at st n p c = c\<lparr>hc_state := st, hc_current := (hc_current c)\<lparr>st_buffer := p, st_bytes_received := n\<rparr>\<rparr>"

lemma data_in_head:
  assumes "awaiting c" and "st \<noteq> St_idle" and "find_sub crlf2 (p @ d) = None"
  shows "on_data_received E d (head_at st n p c) = Some (Inr (head_at St_receiving (n + of_nat (length d)) (p @ d) c))"
  using assms by (simp add: on_data_received_def closed_for_events_def awaiting_def head_at_def process_received_data_def
      on_current_def Let_def)

text \<open>The head has arrived.\<close>

definition head_taken :: "in_response \<Rightarrow> bool \<Rightarrow> u64 option \<Rightarrow> u64 \<Rightarrow> string \<Rightarrow> 'w client_op" where
  "head_taken r chunked len n buf c =
     c\<lparr>hc_state := St_receiving,
       hc_current := (hc_current c)\<lparr>st_headers_received := True, st_response := r, st_chunked := chunked,
         st_has_length := len \<noteq> None, st_length := (case len of Some l \<Rightarrow> l | None \<Rightarrow> st_length (hc_current c)),
         st_buffer := buf, st_bytes_received := n\<rparr>\<rparr>"

definition process_body :: "'w client_env \<Rightarrow> 'w http_client \<Rightarrow> 'w client_result" where
  "process_body E c =
     (if st_chunked (hc_current c) then process_chunked_body E c else map_option Inr (process_fixed_length_body E c))"

lemma data_ends_head:
  assumes "awaiting c" and "st \<noteq> St_idle" and "plain_response code reason fs"
    and "p @ d = response_head code reason fs @ crlf2 @ q"
    and "response_header (head_response code reason fs) ''Content-Length'' = len_text"
    and "len = (if len_text = [] then None else string_to_uint64 len_text 10)"
    and "len_text \<noteq> [] \<longrightarrow> (\<exists>l. len = Some l \<and> l \<le> hc_max_buffer c)"
    and "chunked = (find_sub ''chunked'' (response_header (head_response code reason fs) ''Transfer-Encoding'') \<noteq> None)"
  shows "on_data_received E d (head_at st n p c) =
    process_body E (head_taken ((head_response code reason fs)\<lparr>rs_chunked := chunked,
      rs_length := (case len of Some l \<Rightarrow> l | None \<Rightarrow> 0)\<rparr>) chunked len (n + of_nat (length d)) q c)"
proof -
  define h where "h = response_head code reason fs"
  define r where "r = head_response code reason fs"
  have r: "rs_chunked r = False" "rs_length r = 0"
    by (simp_all add: r_def head_response_def empty_response_def)
  define s where "s = (hc_current c)\<lparr>st_buffer := p @ d, st_bytes_received := n + of_nat (length d)\<rparr>"
  have found: "find_sub crlf2 (p @ d) = Some (length h)"
    using response_head_end [OF assms(3)] assms(4) by (simp add: h_def)
  have parts: "take (length h) (p @ d) = h" "drop (length h + 4) (p @ d) = q"
    using assms(4) by (simp_all add: h_def crlf2_def crlf_def)
  have parsed: "parse_response_headers h (st_response s) = r"
    using parse_head [OF assms(3)] assms(1) by (simp add: s_def awaiting_def h_def r_def)
  have start: "on_data_received E d (head_at st n p c) =
      (case take_headers (length h) (c\<lparr>hc_state := St_receiving, hc_current := s\<rparr>) of (ok, c2) \<Rightarrow>
         if \<not> ok then Some (Inr c2) else if \<not> st_headers_received (hc_current c2) then Some (Inr c2) else process_body E c2)"
    using assms(1,2) found
    by (simp add: on_data_received_def closed_for_events_def awaiting_def head_at_def process_received_data_def
        on_current_def Let_def s_def process_body_def split: prod.split)
  have taken: "take_headers (length h) (c\<lparr>hc_state := St_receiving, hc_current := s\<rparr>) =
      (True, head_taken (r\<lparr>rs_chunked := chunked, rs_length := (case len of Some l \<Rightarrow> l | None \<Rightarrow> 0)\<rparr>) chunked len
        (n + of_nat (length d)) q c)"
  proof (cases "len_text = []")
    case True
    then show ?thesis
      using assms(1,5,6,8) parsed parts r
      by (simp add: take_headers_def Let_def s_def r_def [symmetric] head_taken_def awaiting_def)
  next
    case False
    then obtain l where "string_to_uint64 len_text 10 = Some l" "l \<le> hc_max_buffer c" "len = Some l"
      using assms(6,7) by auto
    then show ?thesis
      using assms(1,5,8) False parsed parts r
      by (simp add: take_headers_def Let_def s_def r_def [symmetric] head_taken_def awaiting_def)
  qed
  have "st_headers_received (hc_current (head_taken r' chunked len m q c))" for r' m
    by (simp add: head_taken_def)
  then show ?thesis
    unfolding start taken r_def by simp
qed

section \<open>The end of a response\<close>

lemma set_cookie_fields [simp]:
  "hc_current (process_set_cookie_header v d c) = hc_current c" "hc_posted (process_set_cookie_header v d c) = hc_posted c"
  "hc_listener (process_set_cookie_header v d c) = hc_listener c"
  by (simp_all add: process_set_cookie_header_def set_cookie_def Let_def split: option.split)

lemma store_cookies_fields [simp]:
  "hc_current (store_cookies c) = hc_current c" "hc_posted (store_cookies c) = hc_posted c"
  "hc_listener (store_cookies c) = hc_listener c"
proof -
  let ?f = "\<lambda>d h. if h_name h = ''Set-Cookie'' then process_set_cookie_header (h_value h) d else (\<lambda>c. c)"
  have "hc_current (fold (?f d) hs c) = hc_current c" "hc_posted (fold (?f d) hs c) = hc_posted c"
    "hc_listener (fold (?f d) hs c) = hc_listener c" for d hs
    by (induction hs arbitrary: c) simp_all
  then show "hc_current (store_cookies c) = hc_current c" "hc_posted (store_cookies c) = hc_posted c"
    "hc_listener (store_cookies c) = hc_listener c"
    by (simp_all add: store_cookies_def)
qed

text \<open>The request has ended with a response, and a listener will be told once.\<close>

definition answered :: "'w http_client \<Rightarrow> in_response \<Rightarrow> 'w http_client \<Rightarrow> bool" where
  "answered c r c' \<longleftrightarrow>
     st_completed (hc_current c') \<and> hc_state c' = St_idle \<and> hc_last c' = r \<and>
     hc_posted c' = hc_posted c @ (case hc_listener c of Some l \<Rightarrow> [Response_task l r] | None \<Rightarrow> [])"

lemma complete_answers:
  assumes "\<not> st_completed (hc_current c1)" and "\<not> is_redirect (st_response (hc_current c1))"
    and "hc_posted c1 = hc_posted c" and "hc_listener c1 = hc_listener c"
  shows "\<exists>c'. complete_request E c1 = Some c' \<and> answered c (st_response (hc_current c1)) c'"
proof -
  have "complete_request E c1 = Some (complete_now c1)"
    using assms(2) by (subst complete_request.simps) simp
  moreover have "answered c (st_response (hc_current c1)) (complete_now c1)"
    using assms(1,3,4) by (simp add: answered_def complete_now_def Let_def on_current_def split: option.split)
  ultimately show ?thesis
    by blast
qed

section \<open>A body of a given length\<close>

definition body_at :: "in_response \<Rightarrow> u64 \<Rightarrow> u64 \<Rightarrow> string \<Rightarrow> string \<Rightarrow> 'w client_op" where
  "body_at r l n q buf c =
     on_current (\<lambda>s. s\<lparr>st_body_bytes := of_nat (length q)\<rparr>) (head_taken (r\<lparr>rs_body := q\<rparr>) False (Some l) n buf c)"

lemma body_starts:
  "awaiting c \<Longrightarrow> rs_body r = [] \<Longrightarrow> head_taken r False (Some l) n buf c = body_at r l n [] buf c"
  by (cases r) (simp add: body_at_def head_taken_def on_current_def awaiting_def)

lemma data_in_body:
  assumes "awaiting c"
  shows "on_data_received E d (body_at r l n q [] c) = process_body E (body_at r l (n + of_nat (length d)) q d c)"
  using assms
  by (cases "hc_current c") (simp add: on_data_received_def closed_for_events_def awaiting_def body_at_def head_taken_def
      on_current_def process_received_data_def process_body_def Let_def)

lemma body_step:
  assumes "awaiting c" and "quiet_listener E" and "q @ d @ later = body" and "length body < 2 ^ 64"
    and "l = of_nat (length body)"
  shows "process_body E (body_at r l n q d c) = map_option Inr
    (if later = [] then complete_request E (body_at r l n (q @ d) [] c) else Some (body_at r l n (q @ d) [] c))"
proof -
  have calm: "\<not> st_cancel_requested (hc_current (body_at r l n q d c))" "\<not> st_in_callback (hc_current (body_at r l n q d c))"
    using assms(1) by (simp_all add: awaiting_def body_at_def head_taken_def on_current_def)
  have taken: "take_body E (body_at r l n q d c) = (True, body_at r l n (q @ d) d c)"
  proof (cases "d = []")
    case True
    then show ?thesis
      by (simp add: take_body_def body_at_def head_taken_def on_current_def)
  next
    case False
    then show ?thesis
      using quiet_calls [OF assms(2) calm]
      by (simp add: take_body_def body_at_def head_taken_def on_current_def append_body_def)
  qed
  have whole: "on_current (\<lambda>s. s\<lparr>st_buffer := []\<rparr>) (body_at r l n (q @ d) d c) = body_at r l n (q @ d) [] c"
    "st_has_length (hc_current (body_at r l n (q @ d) [] c))" "st_length (hc_current (body_at r l n (q @ d) [] c)) = l"
    "st_body_bytes (hc_current (body_at r l n (q @ d) [] c)) = of_nat (length (q @ d))"
    "\<not> st_chunked (hc_current (body_at r l n q d c))"
    by (simp_all add: body_at_def head_taken_def on_current_def)
  have fixed: "process_body E (body_at r l n q d c) = map_option Inr
      (if l \<le> of_nat (length (q @ d)) then complete_request E (body_at r l n (q @ d) [] c) else Some (body_at r l n (q @ d) [] c))"
    unfolding process_body_def process_fixed_length_body_def taken prod.case Let_def whole(1)
    using whole(2-5) by simp
  have enough: "l \<le> of_nat (length (q @ d)) \<longleftrightarrow> later = []"
  proof -
    have "length (q @ d) < 2 ^ 64"
      using assms(3,4) by auto
    then have "unat (of_nat (length (q @ d)) :: u64) = length (q @ d)" "unat l = length body"
      using assms(4,5) by (simp_all add: unat_of_nat del: length_append)
    then have "l \<le> of_nat (length (q @ d)) \<longleftrightarrow> length body \<le> length (q @ d)"
      unfolding word_le_nat_alt by simp
    then show ?thesis
      using assms(3) by auto
  qed
  show ?thesis
    using fixed enough by simp
qed

lemma body_read:
  assumes "awaiting c" and "quiet_listener E" and "\<not> is_redirect r" and "q @ d @ later = body" and "length body < 2 ^ 64"
    and "l = of_nat (length body)"
  shows "later \<noteq> [] \<Longrightarrow> process_body E (body_at r l n q d c) = Some (Inr (body_at r l n (q @ d) [] c))"
    "later = [] \<Longrightarrow> \<exists>c'. process_body E (body_at r l n q d c) = Some (Inr c') \<and> answered c (r\<lparr>rs_body := body\<rparr>) c'"
proof -
  note step = body_step [OF assms(1,2,4,5,6), of r n]
  show "process_body E (body_at r l n q d c) = Some (Inr (body_at r l n (q @ d) [] c))" if "later \<noteq> []"
    using step that by simp
  show "\<exists>c'. process_body E (body_at r l n q d c) = Some (Inr c') \<and> answered c (r\<lparr>rs_body := body\<rparr>) c'" if "later = []"
  proof -
    have "\<not> st_completed (hc_current (body_at r l n (q @ d) [] c))" "hc_posted (body_at r l n (q @ d) [] c) = hc_posted c"
      "hc_listener (body_at r l n (q @ d) [] c) = hc_listener c" "\<not> is_redirect (r\<lparr>rs_body := q @ d\<rparr>)"
      "st_response (hc_current (body_at r l n (q @ d) [] c)) = r\<lparr>rs_body := q @ d\<rparr>"
      using assms(1,3) by (simp_all add: awaiting_def body_at_def head_taken_def on_current_def is_redirect_def)
    then obtain c' where "complete_request E (body_at r l n (q @ d) [] c) = Some c'" "answered c (r\<lparr>rs_body := q @ d\<rparr>) c'"
      using complete_answers [of "body_at r l n (q @ d) [] c" c E] by auto
    then show ?thesis
      using step that assms(4) by simp
  qed
qed

section \<open>A body in chunks\<close>

definition valid_chunk :: "string \<times> string \<Rightarrow> bool" where
  "valid_chunk ck \<longleftrightarrow>
     cr \<notin> set (fst ck) \<and> string_to_uint64 (fst ck) 16 = Some (of_nat (length (snd ck))) \<and> snd ck \<noteq> [] \<and>
     length (snd ck) + 2 < 2 ^ 31"

definition chunks_text :: "(string \<times> string) list \<Rightarrow> string" where
  "chunks_text cks = concat (map (\<lambda>(t, d). t @ crlf @ d @ crlf) cks) @ ''0'' @ crlf @ crlf"

lemma chunks_text_Cons: "chunks_text ((t, d) # cks) = t @ crlf @ d @ crlf @ chunks_text cks"
  by (simp add: chunks_text_def)

datatype chunk_pos = At_size "(string \<times> string) list" | In_data string "(string \<times> string) list" | At_end

fun pos_text :: "chunk_pos \<Rightarrow> string" where
  "pos_text (At_size cks) = chunks_text cks"
| "pos_text (In_data d cks) = d @ crlf @ chunks_text cks"
| "pos_text At_end = crlf"

fun pos_size :: "chunk_pos \<Rightarrow> i32" where
  "pos_size (At_size cks) = - 1"
| "pos_size (In_data d cks) = of_nat (length d)"
| "pos_size At_end = 0"

fun pos_body :: "chunk_pos \<Rightarrow> string" where
  "pos_body (At_size cks) = concat (map snd cks)"
| "pos_body (In_data d cks) = d @ concat (map snd cks)"
| "pos_body At_end = []"

fun valid_pos :: "chunk_pos \<Rightarrow> bool" where
  "valid_pos (At_size cks) \<longleftrightarrow> list_all valid_chunk cks"
| "valid_pos (In_data d cks) \<longleftrightarrow> d \<noteq> [] \<and> length d + 2 < 2 ^ 31 \<and> list_all valid_chunk cks"
| "valid_pos At_end \<longleftrightarrow> True"

definition chunk_at :: "in_response \<Rightarrow> i32 \<Rightarrow> u64 \<Rightarrow> string \<Rightarrow> string \<Rightarrow> 'w client_op" where
  "chunk_at r sz n q buf c =
     on_current (\<lambda>s. s\<lparr>st_chunk_size := sz\<rparr>) (head_taken (r\<lparr>rs_body := q\<rparr>) True None n buf c)"

text \<open>The client waits for the rest of the chunks.\<close>

definition chunk_wait :: "in_response \<Rightarrow> string \<Rightarrow> string \<Rightarrow> 'w http_client \<Rightarrow> 'w http_client \<Rightarrow> bool" where
  "chunk_wait r body later c c' \<longleftrightarrow>
     (\<exists>n q pos buf. valid_pos pos \<and> length (pos_text pos) < 2 ^ 64 \<and> c' = chunk_at r (pos_size pos) n q buf c \<and>
        buf @ later = pos_text pos \<and> q @ pos_body pos = body)"

lemma chunk_waitI:
  "valid_pos pos \<Longrightarrow> length (pos_text pos) < 2 ^ 64 \<Longrightarrow> buf @ later = pos_text pos \<Longrightarrow> q @ pos_body pos = body \<Longrightarrow>
    chunk_wait r body later c (chunk_at r (pos_size pos) n q buf c)"
  unfolding chunk_wait_def by blast

definition chunk_result :: "in_response \<Rightarrow> string \<Rightarrow> string \<Rightarrow> 'w http_client \<Rightarrow> 'w client_result \<Rightarrow> bool" where
  "chunk_result r body later c res \<longleftrightarrow>
     (\<exists>c'. res = Some (Inr c') \<and>
        (if later = [] then answered c (r\<lparr>rs_body := body\<rparr>) c' else chunk_wait r body later c c'))"

lemma chunk_at_fields [simp]:
  "st_buffer (hc_current (chunk_at r sz n q buf c)) = buf" "st_chunk_size (hc_current (chunk_at r sz n q buf c)) = sz"
  "st_chunked (hc_current (chunk_at r sz n q buf c))"
  "st_response (hc_current (chunk_at r sz n q buf c)) = r\<lparr>rs_body := q\<rparr>"
  "hc_posted (chunk_at r sz n q buf c) = hc_posted c" "hc_listener (chunk_at r sz n q buf c) = hc_listener c"
  "st_completed (hc_current (chunk_at r sz n q buf c)) = st_completed (hc_current c)"
  "st_cancel_requested (hc_current (chunk_at r sz n q buf c)) = st_cancel_requested (hc_current c)"
  "st_in_callback (hc_current (chunk_at r sz n q buf c)) = st_in_callback (hc_current c)"
  by (simp_all add: chunk_at_def head_taken_def on_current_def)

lemma chunk_at_updates [simp]:
  "drop_buffer k (chunk_at r sz n q buf c) = chunk_at r sz n q (drop k buf) c"
  "on_current (\<lambda>s. s\<lparr>st_chunk_size := sz2\<rparr>) (chunk_at r sz n q buf c) = chunk_at r sz2 n q buf c"
  "append_body True d (chunk_at r sz n q buf c) = chunk_at r sz n (q @ d) buf c"
  "on_current (\<lambda>s. s\<lparr>st_bytes_received := st_bytes_received s + k'\<rparr>) (chunk_at r sz n q buf c) = chunk_at r sz (n + k') q buf c"
  by (cases "hc_current c"; simp add: chunk_at_def head_taken_def on_current_def drop_buffer_def append_body_def)+

lemma small_int:
  assumes "m + 2 < 2 ^ 31"
  shows "sint (of_nat m :: i32) = int m" "(scast ((of_nat m :: i32) + 2) :: u64) = of_nat (m + 2)"
proof -
  have small: "sint (of_nat k :: i32) = int k" if "k < 2 ^ 31" for k
    using that by (simp add: signed_of_nat signed_take_bit_int_eq_self)
  show "sint (of_nat m :: i32) = int m"
    using assms small by simp
  have "(of_nat m :: i32) + 2 = of_nat (m + 2)"
    by simp
  then show "(scast ((of_nat m :: i32) + 2) :: u64) = of_nat (m + 2)"
    using small [OF assms] by (metis of_int_of_nat_eq scast_eq)
qed

lemma chunk_ended:
  assumes "awaiting c" and "\<not> is_redirect r"
  shows "\<exists>c'. complete_request E (chunk_at r sz n q buf c) = Some c' \<and> answered c (r\<lparr>rs_body := q\<rparr>) c'"
  using complete_answers [of "chunk_at r sz n q buf c" c E] assms by (simp add: awaiting_def is_redirect_def)

text \<open>What the loop does once the size is known.\<close>

definition chunk_tail :: "'w client_env \<Rightarrow> 'w http_client \<Rightarrow> 'w client_result" where
  "chunk_tail E c1 =
     (if st_chunk_size (hc_current c1) = 0 then map_option Inr (end_chunks E c1)
      else if chunk_waiting c1 then Some (Inr c1)
      else if sint (st_chunk_size (hc_current c1)) < 0 then take_endless_chunk E c1
      else (case take_chunk E c1 of (ok, c2) \<Rightarrow> if \<not> ok then Some (Inr c2) else process_chunked_body E c2))"

lemma chunk_loop:
  "process_chunked_body E c =
     (case find_sub crlf (st_buffer (hc_current c)) of
        None \<Rightarrow> Some (Inr c)
      | Some line_end \<Rightarrow>
          (case take_chunk_size line_end c of (ok, c1) \<Rightarrow> if \<not> ok then Some (Inr c1) else chunk_tail E c1))"
  by (subst process_chunked_body.simps) (auto simp: chunk_tail_def split: option.split prod.split)

lemma tail_at_end:
  assumes "awaiting c" and "\<not> is_redirect r" and "buf @ later = crlf"
  shows "chunk_result r q later c (chunk_tail E (chunk_at r 0 n q buf c))"
proof (cases "later = []")
  case True
  then show ?thesis
    using assms chunk_ended [OF assms(1,2), of E 0 n q "drop 2 buf"]
    by (auto simp: chunk_result_def chunk_tail_def end_chunks_def crlf_def)
next
  case False
  then have "length buf < 2"
    using arg_cong [OF assms(3), of length] by (cases later) (auto simp: crlf_def)
  then have "take 2 buf \<noteq> crlf" "find_sub crlf2 buf \<noteq> Some i" for i
    using find_sub_bound [of crlf2 buf i] by (auto simp: crlf_def crlf2_def)
  then have "take 2 buf \<noteq> crlf" "find_sub crlf2 buf = None"
    by blast+
  then have "chunk_tail E (chunk_at r 0 n q buf c) = Some (Inr (chunk_at r 0 n q buf c))"
    by (simp add: chunk_tail_def end_chunks_def)
  then show ?thesis
    using False assms(3) chunk_waitI [of At_end buf later q q r c n] by (simp add: chunk_result_def crlf_def)
qed

lemma chunk_taken:
  assumes "awaiting c" and "quiet_listener E" and "length d + 2 < 2 ^ 31"
  shows "take_chunk E (chunk_at r (of_nat (length d)) n q (d @ crlf @ buf) c) =
    (True, chunk_at r (- 1) (n + of_nat (length d)) (q @ d) buf c)"
proof -
  have len: "chunk_bytes (chunk_at r (of_nat (length d)) n q (d @ crlf @ buf) c) = length d"
    using small_int(1) [OF assms(3)] by (simp add: chunk_bytes_def)
  have calm: "\<not> st_cancel_requested (hc_current (chunk_at r s' n' q b c))" "\<not> st_in_callback (hc_current (chunk_at r s' n' q b c))"
    for s' n' b
    using assms(1) by (simp_all add: awaiting_def)
  show ?thesis
    unfolding take_chunk_def len Let_def by (simp add: quiet_calls [OF assms(2) calm] crlf_def)
qed

lemma chunk_not_waiting:
  assumes "length d + 2 < 2 ^ 31" and "length buf < 2 ^ 64"
  shows "chunk_waiting (chunk_at r (of_nat (length d)) n q buf c) \<longleftrightarrow> length buf < length d + 2"
proof -
  have "unat (of_nat m :: u64) = m" if "m < 2 ^ 64" for m
    using that by (simp add: unat_of_nat)
  from this [of "length buf"] this [of "length d + 2"]
  have "unat (of_nat (length buf) :: u64) = length buf" "unat (of_nat (length d + 2) :: u64) = length d + 2"
    using assms by (simp_all del: of_nat_add)
  then show ?thesis
    unfolding chunk_waiting_def word_less_nat_alt by (simp add: small_int(2) [OF assms(1)] del: of_nat_add)
qed

lemma tail_in_data:
  assumes "awaiting c" and "quiet_listener E" and "valid_pos (In_data d cks)" and "length (pos_text (In_data d cks)) < 2 ^ 64"
    and "buf @ later = pos_text (In_data d cks)"
    and loop: "\<And>n buf. buf @ later = chunks_text cks \<Longrightarrow>
      chunk_result r body later c (process_chunked_body E (chunk_at r (- 1) n (q @ d) buf c))"
    and "q @ pos_body (In_data d cks) = body"
  shows "chunk_result r body later c (chunk_tail E (chunk_at r (of_nat (length d)) n q buf c))"
proof -
  have small: "length d + 2 < 2 ^ 31" "d \<noteq> []"
    using assms(3) by simp_all
  have "length buf < 2 ^ 64"
    using arg_cong [OF assms(5), of length] assms(4) by simp
  note waiting = chunk_not_waiting [OF small(1) this, of r n q c]
  have size: "sint (of_nat (length d) :: i32) = int (length d)"
    using small_int(1) [OF small(1)] .
  then have nonzero: "(of_nat (length d) :: i32) \<noteq> 0"
    using small(2) by (metis length_0_conv of_nat_eq_0_iff sint_0)
  show ?thesis
  proof (cases "length buf < length d + 2")
    case True
    then have "later \<noteq> []"
      using arg_cong [OF assms(5), of length] by (auto simp: crlf_def)
    moreover have "chunk_tail E (chunk_at r (of_nat (length d)) n q buf c) = Some (Inr (chunk_at r (of_nat (length d)) n q buf c))"
      using True waiting nonzero by (simp add: chunk_tail_def)
    ultimately show ?thesis
      using assms(3-5,7) chunk_waitI [of "In_data d cks" buf later q body r c n]
      by (simp add: chunk_result_def del: valid_pos.simps pos_text.simps pos_body.simps)
  next
    case False
    define rest where "rest = drop (length d + 2) buf"
    have "take (length (d @ crlf)) (buf @ later) = d @ crlf"
      unfolding assms(5) by (simp add: crlf_def)
    then have "take (length d + 2) buf = d @ crlf"
      using False by (simp add: crlf_def)
    then have buf: "buf = d @ crlf @ rest"
      using append_take_drop_id [of "length d + 2" buf] by (simp add: rest_def)
    then have "rest @ later = chunks_text cks"
      using assms(5) by simp
    then show ?thesis
      using loop [of rest] False waiting nonzero size chunk_taken [OF assms(1,2) small(1), of r n q rest]
      by (simp add: chunk_tail_def buf)
  qed
qed

lemma size_line_found:
  assumes "cr \<notin> set t" and "buf @ later = t @ crlf @ rest"
  shows "find_sub crlf buf = (if length buf < length t + 2 then None else Some (length t))"
proof -
  have all: "find_sub crlf (buf @ later) = Some (length t)"
    unfolding assms(2) using find_sub_skip [OF assms(1), of "[lf]" "cr # lf # rest"] by (simp add: crlf_def starts_with_def)
  show ?thesis
  proof (cases "length buf < length t + 2")
    case True
    then show ?thesis
      using find_sub_before [OF all] by (simp add: crlf_def)
  next
    case False
    have "take (length (t @ crlf)) (buf @ later) = t @ crlf"
      unfolding assms(2) by (simp add: crlf_def)
    then have "buf = t @ crlf @ drop (length t + 2) buf"
      using False append_take_drop_id [of "length t + 2" buf] by (simp add: crlf_def)
    then have "find_sub crlf buf = Some (length t)"
      using find_sub_skip [OF assms(1), of "[lf]" "cr # lf # drop (length t + 2) buf"] by (simp add: crlf_def starts_with_def)
    then show ?thesis
      using False by simp
  qed
qed

lemma size_to_int: "ucast (of_nat m :: u64) = (of_nat m :: i32)"
  by (simp add: unsigned_of_nat word_of_nat_eq_iff)

lemma loop_at_size:
  assumes "awaiting c" and "quiet_listener E" and "\<not> is_redirect r"
  shows "list_all valid_chunk cks \<Longrightarrow> length (chunks_text cks) < 2 ^ 64 \<Longrightarrow> buf @ later = chunks_text cks \<Longrightarrow>
    q @ concat (map snd cks) = body \<Longrightarrow>
    chunk_result r body later c (process_chunked_body E (chunk_at r (- 1) n q buf c))"
proof (induction cks arbitrary: buf q n)
  case Nil
  note found = size_line_found [of "''0''" buf later crlf]
  show ?case
  proof (cases "length buf < 3")
    case True
    then have "later \<noteq> []"
      using arg_cong [OF Nil(3), of length] by (auto simp: chunks_text_def crlf_def)
    then show ?thesis
      using Nil chunk_waitI [of "At_size []" buf later q body r c n] True found
      by (simp add: chunk_loop chunk_result_def chunks_text_def)
  next
    case False
    define rest where "rest = drop 3 buf"
    have "take 3 (buf @ later) = ''0'' @ crlf"
      unfolding Nil(3) by (simp add: chunks_text_def crlf_def)
    then have buf: "buf = ''0'' @ crlf @ rest"
      using False append_take_drop_id [of 3 buf] by (simp add: rest_def)
    have zero: "string_to_uint64 ''0'' 16 = Some 0"
      by (simp add: string_to_uint64_def c_string_to_uint64_def c_str_def nul_def strto_unsigned_def scan_integer_def
          take_sign_def is_space_def skip_base_prefix_def is_digit_of_def alnum_value_def ch_def value_of_def whole_def)
    have f: "find_sub crlf buf = Some 1"
      using found Nil(3) False by (simp add: chunks_text_def)
    have "take 1 buf = ''0''" "drop (1 + 2) buf = rest"
      using buf by (simp_all add: crlf_def)
    then have "process_chunked_body E (chunk_at r (- 1) n q buf c) = chunk_tail E (chunk_at r 0 n q rest c)"
      unfolding chunk_loop chunk_at_fields f option.case take_chunk_size_def by (simp add: zero)
    moreover have "rest @ later = crlf"
      using Nil(3) buf by (simp add: chunks_text_def)
    ultimately show ?thesis
      using tail_at_end [OF assms(1,3), of rest later q E n] Nil(4) by simp
  qed
next
  case (Cons ck cks)
  obtain t d where ck: "ck = (t, d)"
    by (cases ck)
  have valid: "cr \<notin> set t" "string_to_uint64 t 16 = Some (of_nat (length d))" "d \<noteq> []" "length d + 2 < 2 ^ 31"
    "list_all valid_chunk cks"
    using Cons.prems(1) valid_chunk_def [of ck] by (simp_all add: ck)
  have wire: "buf @ later = t @ crlf @ d @ crlf @ chunks_text cks"
    using Cons.prems(3) by (simp add: ck chunks_text_Cons)
  note found = size_line_found [OF valid(1) wire]
  show ?case
  proof (cases "length buf < length t + 2")
    case True
    then have "later \<noteq> []"
      using arg_cong [OF wire, of length] by (auto simp: crlf_def)
    then show ?thesis
      using Cons.prems chunk_waitI [of "At_size (ck # cks)" buf later q body r c n] True found
      by (simp add: chunk_loop chunk_result_def)
  next
    case False
    define rest where "rest = drop (length t + 2) buf"
    have "take (length (t @ crlf)) (buf @ later) = t @ crlf"
      unfolding wire by (simp add: crlf_def)
    then have buf: "buf = t @ crlf @ rest"
      using False append_take_drop_id [of "length t + 2" buf] by (simp add: rest_def crlf_def)
    then have rest: "rest @ later = pos_text (In_data d cks)"
      using wire by simp
    have f: "find_sub crlf buf = Some (length t)"
      using found False by simp
    have "take (length t) buf = t" "drop (length t + 2) buf = rest"
      using buf by (simp_all add: crlf_def)
    then have "process_chunked_body E (chunk_at r (- 1) n q buf c) = chunk_tail E (chunk_at r (of_nat (length d)) n q rest c)"
      unfolding chunk_loop chunk_at_fields f option.case take_chunk_size_def by (simp add: valid(2) size_to_int)
    moreover have "length (pos_text (In_data d cks)) < 2 ^ 64" "length (chunks_text cks) < 2 ^ 64"
      using Cons.prems(2) by (simp_all add: ck chunks_text_Cons)
    moreover have "q @ pos_body (In_data d cks) = body" "(q @ d) @ concat (map snd cks) = body"
      using Cons.prems(4) by (simp_all add: ck)
    ultimately show ?thesis
      using tail_in_data [OF assms(1,2) _ _ rest, of r body q n] Cons.IH [OF valid(5)] valid by simp
  qed
qed

lemma chunk_data:
  assumes "awaiting c" and "quiet_listener E" and "\<not> is_redirect r" and "chunk_wait r body (d @ later) c c1"
  shows "chunk_result r body later c (on_data_received E d c1)"
proof -
  obtain n q pos buf where pos: "valid_pos pos" "length (pos_text pos) < 2 ^ 64" "c1 = chunk_at r (pos_size pos) n q buf c"
      "buf @ d @ later = pos_text pos" "q @ pos_body pos = body"
    using assms(4) unfolding chunk_wait_def by blast
  define n1 where "n1 = n + of_nat (length d)"
  have "on_data_received E d c1 = process_chunked_body E (chunk_at r (pos_size pos) n1 q (buf @ d) c)"
    using assms(1) unfolding pos(3)
    by (cases "hc_current c") (simp add: on_data_received_def closed_for_events_def chunk_at_def head_taken_def
        on_current_def awaiting_def process_received_data_def Let_def n1_def)
  moreover have "chunk_result r body later c (process_chunked_body E (chunk_at r (pos_size pos) n1 q (buf @ d) c))"
  proof (cases pos)
    case (At_size cks)
    then show ?thesis
      using loop_at_size [OF assms(1-3), of cks "buf @ d" later q body n1] pos by simp
  next
    case (In_data data cks)
    then have data: "length data + 2 < 2 ^ 31" "list_all valid_chunk cks" "length (chunks_text cks) < 2 ^ 64"
      using pos(1,2) by simp_all
    have wire: "(buf @ d) @ later = pos_text (In_data data cks)"
      using pos(4) In_data by simp
    have tail: "chunk_result r body later c (chunk_tail E (chunk_at r (of_nat (length data)) n1 q (buf @ d) c))"
      using tail_in_data [OF assms(1,2) _ _ wire, of r body q n1] loop_at_size [OF assms(1-3) data(2,3)] pos In_data by simp
    show ?thesis
    proof (cases "find_sub crlf (buf @ d)")
      case None
      then have "later \<noteq> []"
        using wire find_sub_inside [of crlf data "chunks_text cks"] by auto
      then show ?thesis
        using None chunk_waitI [of pos "buf @ d" later q body r c n1] pos by (simp add: chunk_loop chunk_result_def)
    next
      case (Some i)
      then show ?thesis
        using tail small_int(1) [OF data(1)] In_data by (simp add: chunk_loop take_chunk_size_def)
    qed
  next
    case At_end
    then have wire: "(buf @ d) @ later = crlf" "q = body"
      using pos by simp_all
    note tail = tail_at_end [OF assms(1,3) wire(1), of body E n1]
    show ?thesis
    proof (cases "find_sub crlf (buf @ d)")
      case None
      then have "later \<noteq> []"
        using wire find_sub_here [of crlf "[]"] by (auto simp: crlf_def)
      then show ?thesis
        using None chunk_waitI [of pos "buf @ d" later q body r c n1] pos by (simp add: chunk_loop chunk_result_def)
    next
      case (Some i)
      then show ?thesis
        using tail wire(2) At_end by (simp add: chunk_loop take_chunk_size_def)
    qed
  qed
  ultimately show ?thesis
    by simp
qed

section \<open>A response in pieces\<close>

datatype framed_body = With_length string | With_chunks "(string \<times> string) list"

fun body_wire :: "framed_body \<Rightarrow> string" where
  "body_wire (With_length b) = b"
| "body_wire (With_chunks cks) = chunks_text cks"

text \<open>The fields of the head say how the body comes.\<close>

fun body_announced :: "u64 \<Rightarrow> in_response \<Rightarrow> framed_body \<Rightarrow> bool" where
  "body_announced limit r (With_length b) \<longleftrightarrow>
     find_sub ''chunked'' (response_header r ''Transfer-Encoding'') = None \<and> response_header r ''Content-Length'' \<noteq> [] \<and>
     string_to_uint64 (response_header r ''Content-Length'') 10 = Some (of_nat (length b)) \<and>
     length b < 2 ^ 64 \<and> of_nat (length b) \<le> limit"
| "body_announced limit r (With_chunks cks) \<longleftrightarrow>
     find_sub ''chunked'' (response_header r ''Transfer-Encoding'') \<noteq> None \<and> response_header r ''Content-Length'' = [] \<and>
     list_all valid_chunk cks \<and> length (chunks_text cks) < 2 ^ 64"

fun whole_response :: "in_response \<Rightarrow> framed_body \<Rightarrow> in_response" where
  "whole_response r (With_length b) = r\<lparr>rs_chunked := False, rs_length := of_nat (length b), rs_body := b\<rparr>"
| "whole_response r (With_chunks cks) = r\<lparr>rs_chunked := True, rs_length := 0, rs_body := concat (map snd cks)\<rparr>"

definition response_wire :: "nat \<Rightarrow> string \<Rightarrow> (string \<times> string) list \<Rightarrow> framed_body \<Rightarrow> string" where
  "response_wire code reason fs b = response_head code reason fs @ crlf2 @ body_wire b"

text \<open>A part of a response has been read, with \<open>later\<close> still to come.\<close>

fun reading_body :: "in_response \<Rightarrow> framed_body \<Rightarrow> string \<Rightarrow> 'w http_client \<Rightarrow> 'w http_client \<Rightarrow> bool" where
  "reading_body r (With_length b) later c c' \<longleftrightarrow>
     (\<exists>n q. c' = body_at (r\<lparr>rs_chunked := False, rs_length := of_nat (length b)\<rparr>) (of_nat (length b)) n q [] c \<and> q @ later = b)"
| "reading_body r (With_chunks cks) later c c' \<longleftrightarrow>
     chunk_wait (r\<lparr>rs_chunked := True, rs_length := 0\<rparr>) (concat (map snd cks)) later c c'"

definition reading_head :: "string \<Rightarrow> string \<Rightarrow> string \<Rightarrow> 'w http_client \<Rightarrow> 'w http_client \<Rightarrow> bool" where
  "reading_head h w later c c' \<longleftrightarrow>
     (\<exists>st n p. st \<noteq> St_idle \<and> c' = head_at st n p c \<and> p @ later = h @ crlf2 @ w \<and> length p < length h + 4)"

definition body_result :: "in_response \<Rightarrow> framed_body \<Rightarrow> string \<Rightarrow> 'w http_client \<Rightarrow> 'w client_result \<Rightarrow> bool" where
  "body_result r b later c res \<longleftrightarrow>
     (\<exists>c'. res = Some (Inr c') \<and>
        (if later = [] then answered c (whole_response r b) c' else reading_body r b later c c'))"

lemma crlf2_length [simp]: "length crlf2 = 4"
  by (simp add: crlf2_def crlf_def)

lemma body_data:
  assumes "awaiting c" and "quiet_listener E" and "\<not> is_redirect r" and "body_announced (hc_max_buffer c) r b"
    and "reading_body r b (d @ later) c c1"
  shows "body_result r b later c (on_data_received E d c1)"
proof (cases b)
  case (With_length body)
  let ?r = "r\<lparr>rs_chunked := False, rs_length := of_nat (length body)\<rparr>"
  obtain n q where c1: "c1 = body_at ?r (of_nat (length body)) n q [] c" "q @ d @ later = body"
    using assms(5) by (auto simp: With_length)
  have redirect: "\<not> is_redirect ?r" and len: "length body < 2 ^ 64"
    using assms(3,4) by (simp_all add: is_redirect_def With_length)
  note read = body_read [OF assms(1,2) redirect c1(2) len refl, of "n + of_nat (length d)"]
  show ?thesis
    unfolding body_result_def c1(1) data_in_body [OF assms(1)] using read c1(2)
    by (cases "later = []") (auto simp: With_length answered_def)
next
  case (With_chunks cks)
  let ?r = "r\<lparr>rs_chunked := True, rs_length := 0\<rparr>"
  have "\<not> is_redirect ?r"
    using assms(3) by (simp add: is_redirect_def)
  then show ?thesis
    using chunk_data [OF assms(1,2), of ?r "concat (map snd cks)" d later c1] assms(5)
    by (auto simp: body_result_def chunk_result_def With_chunks)
qed

lemma head_data:
  assumes "awaiting c" and "quiet_listener E" and "plain_response code reason fs" and "r = head_response code reason fs"
    and "\<not> is_redirect r" and "body_announced (hc_max_buffer c) r b"
    and "reading_head (response_head code reason fs) (body_wire b) (d @ later) c c1"
  shows "if length later \<le> length (body_wire b) then body_result r b later c (on_data_received E d c1)
    else \<exists>c'. on_data_received E d c1 = Some (Inr c') \<and> reading_head (response_head code reason fs) (body_wire b) later c c'"
proof -
  let ?h = "response_head code reason fs"
  obtain st n p where head: "st \<noteq> St_idle" "c1 = head_at st n p c" "p @ d @ later = ?h @ crlf2 @ body_wire b" "length p < length ?h + 4"
    using assms(7) unfolding reading_head_def by blast
  have size: "length p + length d + length later = length ?h + 4 + length (body_wire b)"
    using arg_cong [OF head(3), of length] by simp
  show ?thesis
  proof (cases "length later \<le> length (body_wire b)")
    case False
    then have short: "length (p @ d) < length ?h + length crlf2"
      using size by simp
    have "find_sub crlf2 ((p @ d) @ later) = Some (length ?h)"
      using response_head_end [OF assms(3)] head(3) by simp
    from find_sub_before [OF this short]
    have "on_data_received E d c1 = Some (Inr (head_at St_receiving (n + of_nat (length d)) (p @ d) c))"
      using data_in_head [OF assms(1) head(1)] head(2) by simp
    then show ?thesis
      using False short head(3)
      by (auto simp: reading_head_def intro!: exI [of _ St_receiving] exI [of _ "n + of_nat (length d)"] exI [of _ "p @ d"])
  next
    case True
    define q where "q = take (length (body_wire b) - length later) (body_wire b)"
    have "length (p @ d) = length ?h + (4 + (length (body_wire b) - length later))"
      using size True by simp
    moreover have "p @ d = take (length (p @ d)) ((p @ d) @ later)"
      by simp
    ultimately have "p @ d = take (length ?h + (4 + (length (body_wire b) - length later))) (?h @ crlf2 @ body_wire b)"
      using head(3) by simp
    then have pd: "p @ d = ?h @ crlf2 @ q"
      by (simp only: q_def) simp
    then have "(?h @ crlf2 @ q) @ later = ?h @ crlf2 @ body_wire b"
      using head(3) by (metis append_assoc)
    then have q: "q @ later = body_wire b"
      by simp
    show ?thesis
    proof (cases b)
      case (With_length body)
      have len: "length body < 2 ^ 64" and redirect: "\<not> is_redirect (r\<lparr>rs_chunked := False, rs_length := of_nat (length body)\<rparr>)"
        using assms(5,6) by (simp_all add: With_length is_redirect_def)
      have body: "[] @ q @ later = body"
        using q by (simp add: With_length)
      have empty: "rs_body (r\<lparr>rs_chunked := False, rs_length := of_nat (length body)\<rparr>) = []"
        by (simp add: assms(4) head_response_def empty_response_def)
      have "on_data_received E d c1 = process_body E (body_at (r\<lparr>rs_chunked := False, rs_length := of_nat (length body)\<rparr>)
          (of_nat (length body)) (n + of_nat (length d)) [] q c)"
        using data_ends_head [OF assms(1) head(1) assms(3) pd refl refl _ refl, of E n] assms(6) body_starts [OF assms(1) empty]
        by (simp add: head(2) With_length assms(4) [symmetric])
      then show ?thesis
        using body_read [OF assms(1,2) redirect body len refl, of "n + of_nat (length d)"] True body
        by (cases "later = []") (auto simp: body_result_def With_length)
    next
      case (With_chunks cks)
      let ?r = "r\<lparr>rs_chunked := True, rs_length := 0\<rparr>"
      have redirect: "\<not> is_redirect ?r" and cks: "list_all valid_chunk cks" "length (chunks_text cks) < 2 ^ 64"
        using assms(5,6) by (simp_all add: With_chunks is_redirect_def)
      have start: "head_taken ?r True None m q c = chunk_at ?r (- 1) m [] q c" for m
        using assms(1) by (cases r) (simp add: chunk_at_def head_taken_def on_current_def awaiting_def assms(4) head_response_def empty_response_def)
      have "on_data_received E d c1 = process_body E (head_taken ?r True None (n + of_nat (length d)) q c)"
        using data_ends_head [OF assms(1) head(1) assms(3) pd refl refl _ refl, of E n] assms(6)
        by (simp add: head(2) With_chunks assms(4) [symmetric])
      then have "on_data_received E d c1 = process_chunked_body E (chunk_at ?r (- 1) (n + of_nat (length d)) [] q c)"
        by (simp add: start process_body_def)
      then show ?thesis
        using loop_at_size [OF assms(1,2) redirect cks, of q later "[]" "concat (map snd cks)" "n + of_nat (length d)"] q True
        by (cases "later = []") (auto simp: body_result_def chunk_result_def With_chunks)
    qed
  qed
qed

lemma pieces_after_answer:
  assumes "answered c r c1"
  shows "receive_pieces E ds c1 = Some (Inr c1)"
  using assms by (induction ds) (simp_all add: answered_def on_data_received_def closed_for_events_def)

lemma pieces_in_body:
  assumes "awaiting c" and "quiet_listener E" and "\<not> is_redirect r" and "body_announced (hc_max_buffer c) r b"
  shows "reading_body r b (concat ds @ later) c c1 \<Longrightarrow> concat ds @ later \<noteq> [] \<Longrightarrow>
    \<exists>c'. receive_pieces E ds c1 = Some (Inr c') \<and>
      (if later = [] then answered c (whole_response r b) c' else reading_body r b later c c')"
proof (induction ds arbitrary: c1)
  case Nil
  then show ?case by simp
next
  case (Cons d ds)
  let ?rest = "concat ds @ later"
  have "body_result r b ?rest c (on_data_received E d c1)"
    using body_data [OF assms] Cons.prems(1) by simp
  then obtain c2 where c2: "on_data_received E d c1 = Some (Inr c2)"
      "if ?rest = [] then answered c (whole_response r b) c2 else reading_body r b ?rest c c2"
    unfolding body_result_def by blast
  show ?case
  proof (cases "?rest = []")
    case True
    then show ?thesis
      using c2 pieces_after_answer [of c "whole_response r b" c2 E ds] by (simp del: concat_eq_Nil_conv)
  next
    case False
    then show ?thesis
      using c2 Cons.IH by (simp del: concat_eq_Nil_conv append_is_Nil_conv)
  qed
qed

lemma pieces_in_head:
  assumes "awaiting c" and "quiet_listener E" and "plain_response code reason fs" and "r = head_response code reason fs"
    and "\<not> is_redirect r" and "body_announced (hc_max_buffer c) r b" and "length later \<le> length (body_wire b)"
  shows "reading_head (response_head code reason fs) (body_wire b) (concat ds @ later) c c1 \<Longrightarrow>
    \<exists>c'. receive_pieces E ds c1 = Some (Inr c') \<and>
      (if later = [] then answered c (whole_response r b) c' else reading_body r b later c c')"
proof (induction ds arbitrary: c1)
  case Nil
  then obtain p where p: "p @ later = response_head code reason fs @ crlf2 @ body_wire b"
      "length p < length (response_head code reason fs) + 4"
    unfolding reading_head_def by auto
  have "length (p @ later) = length (response_head code reason fs @ crlf2 @ body_wire b)"
    unfolding p(1) by (rule refl)
  then show ?case
    using assms(7) p(2) by simp
next
  case (Cons d ds)
  let ?rest = "concat ds @ later"
  note read = head_data [OF assms(1-6), of d ?rest c1]
  show ?case
  proof (cases "length ?rest \<le> length (body_wire b)")
    case True
    then obtain c2 where c2: "on_data_received E d c1 = Some (Inr c2)"
        "if ?rest = [] then answered c (whole_response r b) c2 else reading_body r b ?rest c c2"
      using read Cons.prems unfolding body_result_def by auto
    then show ?thesis
      using pieces_after_answer [of c "whole_response r b" c2 E ds] pieces_in_body [OF assms(1,2,5,6), of ds later c2]
      by (cases "?rest = []") (simp, simp del: concat_eq_Nil_conv append_is_Nil_conv)
  next
    case False
    then obtain c2 where "on_data_received E d c1 = Some (Inr c2)"
        "reading_head (response_head code reason fs) (body_wire b) ?rest c c2"
      using read Cons.prems by auto
    then show ?thesis
      using Cons.IH [of c2] by simp
  qed
qed

lemma head_awaited:
  assumes "awaiting c" and "bytes = h @ crlf2 @ w"
  shows "reading_head h w bytes c c"
  unfolding reading_head_def
  by (rule exI [of _ "hc_state c"], rule exI [of _ "st_bytes_received (hc_current c)"], rule exI [of _ "[]"])
    (use assms in \<open>simp add: awaiting_def head_at_def\<close>)

text \<open>A client that waits for a response, and one whose transport and listener do what they are asked.\<close>

definition calm_env :: "unit client_env" where
  "calm_env = \<lparr>ev_connect = (\<lambda>_ c. (True, c)), ev_send = (\<lambda>_ w. (True, w)), ev_file = (\<lambda>_. None), ev_file_size = (\<lambda>_. 0),
     ev_rand = (\<lambda>w. (0, w)), on_progress = (\<lambda>_ _ _ c. c), on_redirect = (\<lambda>_ _ c. c), on_body_data = (\<lambda>_ _ c. (True, c)),
     on_http_response = (\<lambda>_ _ c. c), on_http_error = (\<lambda>_ _ c. c)\<rparr>"

definition waiting_client :: "unit http_client" where
  "waiting_client = (new_client ())\<lparr>hc_state := St_sending, hc_listener := Some 7\<rparr>"

lemma waiting_facts:
  "quiet_listener calm_env" "awaiting waiting_client" "hc_max_buffer waiting_client = 104857600"
  "awaiting (waiting_client\<lparr>hc_follow := False\<rparr>)"
  by (simp_all add: quiet_listener_def calm_env_def awaiting_def waiting_client_def new_client_def client_set_user_agent_def
      add_default_header_def reset_state_def empty_response_def)

lemma five_read: "string_to_uint64 ''5'' 10 = Some 5"
  by (simp add: string_to_uint64_def c_string_to_uint64_def c_str_def nul_def strto_unsigned_def scan_integer_def
      take_sign_def is_space_def skip_base_prefix_def is_digit_of_def alnum_value_def ch_def value_of_def whole_def)

lemma five_announced:
  "body_announced 104857600 (head_response code ''OK'' [(''Content-Length'', ''5'')]) (With_length ''hello'')"
proof -
  have "get_header_value [header ''Content-Length'' ''5''] ''Transfer-Encoding'' = []"
    "get_header_value [header ''Content-Length'' ''5''] ''Content-Length'' = ''5''"
    by code_simp+
  then show ?thesis
    by (simp add: head_response_def response_header_def empty_response_def five_read)
qed

lemma five_plain: "code < 1000 \<Longrightarrow> plain_response code ''OK'' [(''Content-Length'', ''5'')]"
proof -
  have "plain_field (''Content-Length'', ''5'')" "cr \<notin> set ''OK''" "lf \<notin> set ''OK''" "cr \<notin> set ''Content-Length''" "cr \<notin> set ''5''"
    by code_simp+
  then show "code < 1000 \<Longrightarrow> ?thesis"
    by (simp add: plain_response_def)
qed

lemma five_redirect: "is_redirect (head_response code ''OK'' fs) \<longleftrightarrow> 300 \<le> code \<and> code < 400"
  by (simp add: is_redirect_def head_response_def)

text \<open>
  Property C38. The client's reader does not depend on how the transport cuts the response: for a waiting client, a
  listener that lets the body pass, a head of plain lines that is no redirect and a body framed by its length or in
  chunks, any cutting of the bytes into pieces (empty ones included) ends in the same answer, the response of the head
  with the whole body, delivered once, and the pieces that follow change nothing.
\<close>

theorem response_read_in_pieces:
  assumes "awaiting c" and "quiet_listener E" and "plain_response code reason fs"
    and "\<not> is_redirect (head_response code reason fs)"
    and "body_announced (hc_max_buffer c) (head_response code reason fs) b"
    and "concat ds = response_wire code reason fs b"
  shows "\<exists>c'. receive_pieces E ds c = Some (Inr c') \<and> answered c (whole_response (head_response code reason fs) b) c'"
  using pieces_in_head [OF assms(1-3) refl assms(4,5), of "[]" ds c] head_awaited [OF assms(1), of "concat ds"] assms(6)
  by (simp add: response_wire_def)

lemma response_read_in_pieces_witness:
  "\<exists>c'. receive_pieces calm_env
       [''HTTP/1.1 200 O'', [], ''K'' @ crlf @ ''Content-Length: 5'' @ [cr], [lf] @ crlf @ ''hel'', ''lo''] waiting_client =
     Some (Inr c') \<and>
     answered waiting_client (whole_response (head_response 200 ''OK'' [(''Content-Length'', ''5'')]) (With_length ''hello'')) c'"
proof -
  have "concat [''HTTP/1.1 200 O'', [], ''K'' @ crlf @ ''Content-Length: 5'' @ [cr], [lf] @ crlf @ ''hel'', ''lo''] =
      response_wire 200 ''OK'' [(''Content-Length'', ''5'')] (With_length ''hello'')"
    by code_simp
  from response_read_in_pieces [OF waiting_facts(2,1) five_plain _ _ this] show ?thesis
    using five_announced [of 200] waiting_facts(3) by (simp only: five_redirect) simp
qed

text \<open>
  A response cut short is passed off as whole: when the connection closes after the head and a part of a
  body whose length the head announced, the client completes the request with the status of the head and the part of
  the body it has, instead of an error.
\<close>

theorem truncated_response_is_success:
  assumes "awaiting c" and "quiet_listener E" and "plain_response code reason fs"
    and "\<not> is_redirect (head_response code reason fs)"
    and "body_announced (hc_max_buffer c) (head_response code reason fs) (With_length body)"
    and "concat ds = response_head code reason fs @ crlf2 @ got" and "body = got @ lost" and "lost \<noteq> []"
  shows "\<exists>c1 c2. receive_pieces E ds c = Some (Inr c1) \<and> on_disconnected E c1 = Some c2 \<and>
    answered c ((whole_response (head_response code reason fs) (With_length body))\<lparr>rs_body := got\<rparr>) c2"
proof -
  let ?r = "(head_response code reason fs)\<lparr>rs_chunked := False, rs_length := of_nat (length body)\<rparr>"
  have "reading_head (response_head code reason fs) (body_wire (With_length body)) (concat ds @ lost) c c"
    by (rule head_awaited [OF assms(1)]) (simp add: assms(6,7))
  then obtain c1 n q where c1: "receive_pieces E ds c = Some (Inr c1)"
      "c1 = body_at ?r (of_nat (length body)) n q [] c" "q @ lost = body"
    using pieces_in_head [OF assms(1-3) refl assms(4,5), of lost ds c] assms(7,8) by auto
  have "q = got"
    using c1(3) assms(7) by simp
  moreover obtain c2 where "complete_request E c1 = Some c2" "answered c (?r\<lparr>rs_body := q\<rparr>) c2"
    using complete_answers [of c1 c E] assms(1,4)
    by (auto simp: c1(2) body_at_def head_taken_def on_current_def awaiting_def is_redirect_def)
  moreover have "on_disconnected E c1 = complete_request E c1"
    using assms(1) by (simp add: c1(2) on_disconnected_def closed_for_events_def body_at_def head_taken_def
        on_current_def awaiting_def)
  ultimately show ?thesis
    using c1(1) by simp
qed

lemma truncated_response_is_success_witness:
  "\<exists>c1 c2. receive_pieces calm_env [response_head 200 ''OK'' [(''Content-Length'', ''5'')], crlf2 @ ''he''] waiting_client = Some (Inr c1) \<and>
     on_disconnected calm_env c1 = Some c2 \<and>
     answered waiting_client ((whole_response (head_response 200 ''OK'' [(''Content-Length'', ''5'')]) (With_length ''hello''))
       \<lparr>rs_body := ''he''\<rparr>) c2"
proof (rule truncated_response_is_success [OF waiting_facts(2,1) five_plain])
  show "body_announced (hc_max_buffer waiting_client) (head_response 200 ''OK'' [(''Content-Length'', ''5'')]) (With_length ''hello'')"
    unfolding waiting_facts(3) by (rule five_announced)
  show "concat [response_head 200 ''OK'' [(''Content-Length'', ''5'')], crlf2 @ ''he''] =
      response_head 200 ''OK'' [(''Content-Length'', ''5'')] @ crlf2 @ ''he''"
    by simp
  show "''hello'' = ''he'' @ ''llo''"
    by simp
qed (simp_all add: five_redirect)

lemma redirect_loops:
  assumes "is_redirect (st_response (hc_current c))" and "\<not> hc_follow c"
  shows "complete_request E c = None"
proof (rule ccontr)
  assume "complete_request E c \<noteq> None"
  then obtain y where "complete_request E c = Some y"
    by blast
  then have "is_redirect (st_response (hc_current c)) \<longrightarrow> hc_follow c"
    by (rule complete_request.raw_induct [rotated]) (auto split: if_splits)
  then show False
    using assms by simp
qed

text \<open>
  Property C40. A redirect that is not to be followed is never delivered: \<open>CompleteRequest\<close> and \<open>HandleRedirect\<close> call
  each other without end, so the call that receives the response has no result.
\<close>

theorem refused_redirect_never_returns:
  assumes "awaiting c" and "quiet_listener E" and "plain_response code reason fs" and "\<not> hc_follow c"
    and "is_redirect (head_response code reason fs)"
    and "body_announced (hc_max_buffer c) (head_response code reason fs) (With_length body)"
  shows "on_data_received E (response_wire code reason fs (With_length body)) c = None"
proof -
  let ?r = "(head_response code reason fs)\<lparr>rs_chunked := False, rs_length := of_nat (length body)\<rparr>"
  let ?n = "st_bytes_received (hc_current c) + of_nat (length (response_wire code reason fs (With_length body)))"
  have here: "head_at (hc_state c) (st_bytes_received (hc_current c)) [] c = c" and busy: "hc_state c \<noteq> St_idle"
    using assms(1) by (simp_all add: awaiting_def head_at_def)
  have empty: "rs_body ?r = []"
    by (simp add: head_response_def empty_response_def)
  have "on_data_received E (response_wire code reason fs (With_length body)) c =
      process_body E (body_at ?r (of_nat (length body)) ?n [] body c)"
    using data_ends_head [OF assms(1) busy assms(3), of "[]" "response_wire code reason fs (With_length body)" body, OF _ refl refl _ refl,
        of E "st_bytes_received (hc_current c)"] assms(6) body_starts [OF assms(1) empty]
    by (simp add: here response_wire_def)
  also have "\<dots> = map_option Inr (complete_request E (body_at ?r (of_nat (length body)) ?n body [] c))"
    using body_step [OF assms(1,2), of "[]" body "[]" body] assms(6) by simp
  also have "\<dots> = None"
    using redirect_loops [of "body_at ?r (of_nat (length body)) ?n body [] c" E] assms(4,5)
    by (simp add: body_at_def head_taken_def on_current_def is_redirect_def)
  finally show ?thesis .
qed

lemma refused_redirect_never_returns_witness:
  "on_data_received calm_env (response_wire 302 ''OK'' [(''Content-Length'', ''5'')] (With_length ''hello''))
     (waiting_client\<lparr>hc_follow := False\<rparr>) = None"
proof (rule refused_redirect_never_returns [OF waiting_facts(4,1) five_plain])
  have "hc_max_buffer (waiting_client\<lparr>hc_follow := False\<rparr>) = hc_max_buffer waiting_client"
    by simp
  then show "body_announced (hc_max_buffer (waiting_client\<lparr>hc_follow := False\<rparr>))
      (head_response 302 ''OK'' [(''Content-Length'', ''5'')]) (With_length ''hello'')"
    by (simp only: waiting_facts(3) five_announced)
qed (simp_all add: five_redirect)

end
