(* ===== verification/Http_Exchange.thy ===== *)
theory Http_Exchange
  imports Http_Client_Props
begin

text \<open>
  The HTTP client and the HTTP server of the library with each other: what the one sends the other reads.
\<close>

section \<open>A response from the server to the client\<close>

definition sendable_field :: "string \<times> string \<Rightarrow> bool" where
  "sendable_field f \<longleftrightarrow> plain_field f \<and> fst f \<noteq> [] \<and> cr \<notin> set (field_text f) \<and> nul \<notin> set (field_text f) \<and>
     length (field_text f) \<le> 127 \<and> \<not> case_insensitive_equal (fst f) ''Content-Length'' \<and>
     \<not> case_insensitive_equal (fst f) ''Transfer-Encoding''"

definition headers_of :: "(string \<times> string) list \<Rightarrow> http_headers" where
  "headers_of fs = map (\<lambda>(n, v). header n v) fs"

text \<open>An origin the server allows: \<open>*\<close> or what the request gave.\<close>

definition plain_origin :: "string \<Rightarrow> bool" where
  "plain_origin origin \<longleftrightarrow> plain_field (''Access-Control-Allow-Origin'', origin) \<and> cr \<notin> set origin \<and> nul \<notin> set origin \<and>
     length origin \<le> 98"

definition fields_sent :: "(string \<times> string) list \<Rightarrow> nat \<Rightarrow> bool \<Rightarrow> string \<Rightarrow> (string \<times> string) list" where
  "fields_sent fs n keep origin =
     fs @ (''Content-Length'', show_nat n) #
     (if list_ex (\<lambda>f. case_insensitive_eq (fst f) ''connection'') fs then []
      else [(''Connection'', if keep then ''keep-alive'' else ''close'')]) @
     (if origin = [] then [] else [(''Access-Control-Allow-Origin'', origin), (''Vary'', ''Origin'')])"

definition status_text :: "nat \<Rightarrow> string \<Rightarrow> string" where
  "status_text code reason = show_nat code @ '' '' @ reason"

lemma join_lines: "ls \<noteq> [] \<Longrightarrow> lines_text ls @ crlf = join_strings ls crlf @ crlf2"
  by (induction ls) (auto simp: lines_text_def crlf2_def)

lemma whole_fields: "list_all sendable_field fs \<Longrightarrow>
    map field_line_sent (filter (\<lambda>h. h_name h \<noteq> []) (headers_of fs)) = map field_text fs"
  by (induction fs) (auto simp: headers_of_def header_def sendable_field_def field_line_sent_def field_text_def)

lemma lines_are_fields:
  assumes "list_all sendable_field fs" and "plain_origin origin"
  shows "lines_sent (status_text code reason) (headers_of fs) n keep origin = response_lines code reason (fields_sent fs n keep origin)"
proof -
  have "list_ex (\<lambda>h. case_insensitive_eq (h_name h) ''connection'') (headers_of fs) \<longleftrightarrow>
      list_ex (\<lambda>f. case_insensitive_eq (fst f) ''connection'') fs"
    by (auto simp: headers_of_def list_ex_iff header_def split: prod.splits) force+
  then show ?thesis
    using assms(2)
    by (auto simp: lines_sent_def whole_fields [OF assms(1)] response_lines_def status_line_def status_text_def fields_sent_def
        connection_lines_def origin_lines_def field_text_def plain_origin_def)
qed

lemma plain_length: "plain_field (''Content-Length'', show_nat n)" "cr \<notin> set (show_nat n)" "nul \<notin> set (show_nat n)"
proof -
  show "plain_field (''Content-Length'', show_nat n)"
    using show_nat_ends [of n] by (auto simp: plain_field_def is_trimmed_char_def is_digit_def)
  show "cr \<notin> set (show_nat n)" "nul \<notin> set (show_nat n)"
    using show_nat_digits [of n] by (auto simp: is_digit_def list_all_iff nul_def)
qed

lemma fields_plain:
  assumes "list_all sendable_field fs" and "plain_origin origin" and "code < 1000" and "cr \<notin> set reason" and "lf \<notin> set reason"
  shows "plain_response code reason (fields_sent fs n keep origin)"
proof -
  have "plain_field f \<and> cr \<notin> set (fst f) \<and> cr \<notin> set (snd f)" if "f \<in> set fs" for f
    using assms(1) that by (auto simp: list_all_iff sendable_field_def field_text_def)
  moreover have "plain_field (''Connection'', ''keep-alive'')" "plain_field (''Connection'', ''close'')" "plain_field (''Vary'', ''Origin'')"
    by code_simp+
  ultimately show ?thesis
    using assms(2-) plain_length [of n] by (auto simp: plain_response_def fields_sent_def list_all_iff plain_origin_def)
qed

text \<open>What the client finds in the fields.\<close>

lemma field_found:
  assumes "list_all (\<lambda>f. \<not> case_insensitive_equal (fst f) name) fs"
  shows "get_header_value (map (\<lambda>(n, v). header n v) fs @ hs) name = get_header_value hs name"
proof -
  have "find_header (map (\<lambda>(n, v). header n v) fs @ hs) name = find_header hs name"
    using assms by (induction fs) (auto simp: find_header_def header_def)
  then show ?thesis
    by (simp add: get_header_value_def)
qed

lemma framing_found:
  assumes "list_all sendable_field fs"
  shows "response_header (head_response code reason (fields_sent fs n keep origin)) ''Content-Length'' = show_nat n"
    "response_header (head_response code reason (fields_sent fs n keep origin)) ''Transfer-Encoding'' = []"
proof -
  let ?rest = "(if list_ex (\<lambda>f. case_insensitive_eq (fst f) ''connection'') fs then []
      else [(''Connection'', if keep then ''keep-alive'' else ''close'')]) @
     (if origin = [] then [] else [(''Access-Control-Allow-Origin'', origin), (''Vary'', ''Origin'')])"
  have fs: "list_all (\<lambda>f. \<not> case_insensitive_equal (fst f) ''Content-Length'') fs"
    "list_all (\<lambda>f. \<not> case_insensitive_equal (fst f) ''Transfer-Encoding'') fs"
    using assms by (simp_all add: list_all_iff sendable_field_def)
  have "case_insensitive_equal ''Content-Length'' ''Content-Length''"
    by code_simp
  then show "response_header (head_response code reason (fields_sent fs n keep origin)) ''Content-Length'' = show_nat n"
    using field_found [OF fs(1)]
    by (simp add: response_header_def head_response_def fields_sent_def get_header_value_def find_header_def header_def)
  have "\<not> case_insensitive_equal ''Content-Length'' ''Transfer-Encoding''" "\<not> case_insensitive_equal ''Connection'' ''Transfer-Encoding''"
    "\<not> case_insensitive_equal ''Access-Control-Allow-Origin'' ''Transfer-Encoding''"
    "\<not> case_insensitive_equal ''Vary'' ''Transfer-Encoding''"
    by code_simp+
  then have "list_all (\<lambda>f. \<not> case_insensitive_equal (fst f) ''Transfer-Encoding'') (fields_sent fs n keep origin)"
    using fs(2) by (simp add: fields_sent_def)
  from field_found [OF this, of "[]"]
  show "response_header (head_response code reason (fields_sent fs n keep origin)) ''Transfer-Encoding'' = []"
    by (simp add: response_header_def head_response_def get_header_value_def find_header_def)
qed

lemma length_read: "n < 2 ^ 64 \<Longrightarrow> string_to_uint64 (show_nat n) 10 = Some (of_nat n)"
  using digits_scanned(4) [OF show_nat_digits, of n] show_nat_Cons [of n]
  by (auto simp: string_to_uint64_def c_string_to_uint64_def strto_unsigned_def scan_show_nat whole_def)

text \<open>
  Property C39. What the server sends with \<open>SendResponse\<close> the client of the library reads, however the bytes are cut on
  the way: for fields of at most 127 characters that say nothing about the framing, the waiting client completes once
  with the status code, the reason and the body given to \<open>SendResponse\<close>, the given fields in their order and after
  them the ones the server adds.
\<close>

theorem served_response_is_received:
  assumes "omap_find (clients s) k = Some c" and "c_open c" and "\<not> c_websocket c" and "\<not> c_headers_sent c"
    and "c_sent c = []" and "plain_origin (c_origin c)" and "keep \<longleftrightarrow> c_keepalive c \<and> \<not> force_close"
    and "list_all sendable_field fs" and "code < 1000" and "\<not> (300 \<le> code \<and> code < 400)"
    and "cr \<notin> set reason" and "lf \<notin> set reason" and "nul \<notin> set reason"
    and "awaiting cl" and "quiet_listener E" and "of_nat (length sent_body) \<le> hc_max_buffer cl" and "length sent_body < 2 ^ 64 - 1"
  shows "\<exists>s' c'. send_response k (status_text code reason) (headers_of fs) sent_body force_close s = (Inr (), s') \<and>
    omap_find (clients s') k = Some c' \<and>
    (\<forall>pieces. concat pieces = concat (c_sent c') \<longrightarrow>
      (\<exists>cl'. receive_pieces E pieces cl = Some (Inr cl') \<and>
        answered cl \<lparr>rs_code = int code, rs_message = reason,
          rs_headers = headers_of (fields_sent fs (length sent_body) keep (c_origin c)), rs_body = sent_body,
          rs_length = of_nat (length sent_body), rs_chunked = False\<rparr> cl'))"
proof -
  let ?fs = "fields_sent fs (length sent_body) keep (c_origin c)"
  have plain: "list_all plain_header (headers_of fs)" "nul \<notin> set (status_text code reason)" "nul \<notin> set (c_origin c)"
    using assms(6,8,13) plain_length(3) [of code]
    by (auto simp: headers_of_def list_all_iff plain_header_def header_def sendable_field_def field_text_def status_text_def
        plain_origin_def nul_def)
  have chunks: "concat (chunk t) = t" for t
    by (simp add: chunk_def)
  obtain s' c' where sent: "send_response k (status_text code reason) (headers_of fs) sent_body force_close s = (Inr (), s')"
      "omap_find (clients s') k = Some c'"
      "concat (c_sent c') = lines_text (lines_sent (status_text code reason) (headers_of fs) (length sent_body) keep (c_origin c)) @ crlf @ sent_body"
    using run_any_response [OF assms(1-4,7)] head_sent [OF plain assms(17)] assms(5)
    by (simp add: set_conn_def omap_find_set chunks)
  have wire: "concat (c_sent c') = response_head code reason ?fs @ crlf2 @ body_wire (With_length sent_body)"
    using sent(3) join_lines [of "response_lines code reason ?fs"]
    by (simp add: lines_are_fields [OF assms(8,6)] response_head_def response_lines_def)
  have announced: "body_announced (hc_max_buffer cl) (head_response code reason ?fs) (With_length sent_body)"
    using assms(16,17) length_read [of "length sent_body"] show_nat_Cons [of "length sent_body"]
    by (auto simp: framing_found [OF assms(8)])
  have whole: "whole_response (head_response code reason ?fs) (With_length sent_body) =
      \<lparr>rs_code = int code, rs_message = reason, rs_headers = headers_of ?fs, rs_body = sent_body,
       rs_length = of_nat (length sent_body), rs_chunked = False\<rparr>"
    by (simp add: head_response_def empty_response_def headers_of_def)
  have no_redirect: "\<not> is_redirect (head_response code reason ?fs)"
    using assms(10) by (simp add: is_redirect_def head_response_def)
  note read = pieces_in_head [OF assms(14,15) fields_plain [OF assms(8,6,9,11,12)] refl no_redirect announced, of "[]"]
  have "\<exists>cl'. receive_pieces E ds cl = Some (Inr cl') \<and>
      answered cl (whole_response (head_response code reason ?fs) (With_length sent_body)) cl'"
    if "concat ds = concat (c_sent c')" for ds
    using read [of ds cl] head_awaited [OF assms(14) wire] that by simp
  with sent(1,2) show ?thesis
    unfolding whole by blast
qed

lemma served_response_is_received_witness:
  "\<exists>s' c'. send_response 0 (status_text 200 ''OK'') (headers_of [(''X-Id'', ''7'')]) ''hello'' False
       (set_conn 0 ((new_connection 8192)\<lparr>c_origin := ''*''\<rparr>) (one_client [] ())) = (Inr (), s') \<and>
     omap_find (clients s') 0 = Some c' \<and>
     (\<exists>cl'. receive_pieces calm_env (map (\<lambda>x. [x]) (concat (c_sent c'))) waiting_client = Some (Inr cl') \<and>
        rs_body (hc_last cl') = ''hello'' \<and> rs_code (hc_last cl') = 200)"
proof -
  let ?c = "(new_connection 8192)\<lparr>c_origin := ''*''\<rparr>"
  have conn: "omap_find (clients (set_conn 0 ?c (one_client [] ()))) 0 = Some ?c" "c_open ?c" "\<not> c_websocket ?c"
    "\<not> c_headers_sent ?c" "c_sent ?c = []" "c_keepalive ?c"
    by (simp_all add: new_connection_def)
  have fields: "list_all sendable_field [(''X-Id'', ''7'')]" "plain_origin (c_origin ?c)" "cr \<notin> set ''OK''" "lf \<notin> set ''OK''" "nul \<notin> set ''OK''"
    by code_simp+
  obtain s' c' where out: "send_response 0 (status_text 200 ''OK'') (headers_of [(''X-Id'', ''7'')]) ''hello'' False
       (set_conn 0 ?c (one_client [] ())) = (Inr (), s')" "omap_find (clients s') 0 = Some c'"
     "\<forall>pieces. concat pieces = concat (c_sent c') \<longrightarrow>
      (\<exists>cl'. receive_pieces calm_env pieces waiting_client = Some (Inr cl') \<and>
        answered waiting_client \<lparr>rs_code = int 200, rs_message = ''OK'',
          rs_headers = headers_of (fields_sent [(''X-Id'', ''7'')] (length ''hello'') True (c_origin ?c)), rs_body = ''hello'',
          rs_length = of_nat (length ''hello''), rs_chunked = False\<rparr> cl')"
    using served_response_is_received [OF conn(1-5) fields(2) _ fields(1) _ _ fields(3-5) waiting_facts(2,1), of True False 200 "''hello''"]
      conn(6) waiting_facts(3) by auto
  have "concat (map (\<lambda>x. [x]) (concat (c_sent c'))) = concat (c_sent c')"
    by simp
  then show ?thesis
    using out by (fastforce simp: answered_def)
qed

end
