(* ===== verification/Http_Route.thy ===== *)
theory Http_Route
  imports Http_Common
begin

text \<open>
  Routes (\<open>class Router\<close> of \<open>net/http_router.h\<close>, \<open>net/http_router.cc\<close>): compiling a pattern to a regular
  expression, the names of its parameters, and matching a path.

  \<open>std::regex\<close> is modelled for the expressions that patterns without metacharacters of their own compile to:
  characters, the dot, escaped characters and the group \<open>([^/]+)\<close>, matched greedily with backtracking.
  For every other text the library record says whether it is valid and what the groups of a match are.
\<close>

section \<open>Parameters of a route\<close>

type_synonym route_params = "(string, string) omap"

definition params_add :: "string \<Rightarrow> string \<Rightarrow> route_params \<Rightarrow> route_params" where
  "params_add name v params = omap_set name v params"

definition params_get :: "route_params \<Rightarrow> string \<Rightarrow> string" where
  "params_get params name = (case omap_find params name of Some v \<Rightarrow> v | None \<Rightarrow> [])"

definition params_has :: "route_params \<Rightarrow> string \<Rightarrow> bool" where
  "params_has params name \<longleftrightarrow> omap_find params name \<noteq> None"

section \<open>Regular expressions\<close>

datatype rx = Rx_char char | Rx_any | Rx_segment

definition segment_text :: string where
  "segment_text = ''([^/]+)''"

text \<open>What \<open>CompilePattern\<close> escapes, and what has a meaning of its own in an expression.\<close>

definition escaped_chars :: string where
  "escaped_chars = ''.^$*+?()[]{}'' @ [CHR 0x5C]"

definition meta_chars :: string where
  "meta_chars = escaped_chars @ [CHR ''|'', nul]"

function rx_items :: "string \<Rightarrow> rx list option" where
  "rx_items t =
     (case t of
        [] \<Rightarrow> Some []
      | c # cs \<Rightarrow>
          if starts_with t segment_text then map_option (Cons Rx_segment) (rx_items (drop 6 cs))
          else if c = CHR ''.'' then map_option (Cons Rx_any) (rx_items cs)
          else if c = CHR 0x5C then
            (case cs of
               [] \<Rightarrow> None
             | d # ds \<Rightarrow> if d \<in> set escaped_chars then map_option (Cons (Rx_char d)) (rx_items ds) else None)
          else if c \<in> set meta_chars then None
          else map_option (Cons (Rx_char c)) (rx_items cs))"
  by pat_completeness auto
termination
  by (relation "measure length") auto

declare rx_items.simps [simp del]

text \<open>The groups of a match of the whole text; a segment takes as much as the rest of the expression allows.\<close>

fun longest_first :: "nat \<Rightarrow> (nat \<Rightarrow> 'a option) \<Rightarrow> 'a option" where
  "longest_first 0 f = None"
| "longest_first (Suc n) f = (case f (Suc n) of Some a \<Rightarrow> Some a | None \<Rightarrow> longest_first n f)"

fun rx_match :: "rx list \<Rightarrow> string \<Rightarrow> string list option" where
  "rx_match [] s = (if s = [] then Some [] else None)"
| "rx_match (Rx_char c # r) s = (if s \<noteq> [] \<and> hd s = c then rx_match r (tl s) else None)"
| "rx_match (Rx_any # r) s = (if s \<noteq> [] \<and> hd s \<notin> {cr, lf} then rx_match r (tl s) else None)"
| "rx_match (Rx_segment # r) s =
     longest_first (length (takeWhile (\<lambda>c. c \<noteq> CHR ''/'') s))
       (\<lambda>n. map_option (Cons (take n s)) (rx_match r (drop n s)))"

record regex_lib =
  rx_valid :: "string \<Rightarrow> bool"
  rx_groups :: "string \<Rightarrow> string \<Rightarrow> string list option"

datatype regex = Rx_items "rx list" | Rx_library string

text \<open>\<open>std::regex(text)\<close>: \<open>None\<close> for \<open>regex_error\<close>.\<close>

definition std_regex :: "regex_lib \<Rightarrow> string \<Rightarrow> regex option" where
  "std_regex L t =
     (let other = (if rx_valid L t then Some (Rx_library t) else None)
      in if length t \<ge> 2 \<and> hd t = CHR ''^'' \<and> last t = CHR ''$''
         then (case rx_items (butlast (tl t)) of Some items \<Rightarrow> Some (Rx_items items) | None \<Rightarrow> other)
         else other)"

definition regex_match :: "regex_lib \<Rightarrow> regex \<Rightarrow> string \<Rightarrow> string list option" where
  "regex_match L regex path =
     (case regex of Rx_items items \<Rightarrow> rx_match items path | Rx_library t \<Rightarrow> rx_groups L t path)"

section \<open>Compiling a pattern\<close>

text \<open>A colon at the start of a segment; the flag tells whether the text begins there.\<close>

fun has_colon_param :: "bool \<Rightarrow> string \<Rightarrow> bool" where
  "has_colon_param at_start [] = False"
| "has_colon_param at_start (c # cs) \<longleftrightarrow> c = CHR '':'' \<and> at_start \<or> has_colon_param (c = CHR ''/'') cs"

function replace_braces :: "string \<Rightarrow> string" where
  "replace_braces s =
     (case find_sub ''{'' s of
        None \<Rightarrow> s
      | Some pos \<Rightarrow>
          (case find_from s ''}'' pos of
             None \<Rightarrow> s
           | Some end_pos \<Rightarrow> take pos s @ segment_text @ replace_braces (drop (end_pos + 1) s)))"
  by pat_completeness auto
termination
proof (relation "measure length")
  fix s pos end_pos
  assume "find_sub ''{'' s = Some pos"
  then have "s \<noteq> []"
    by auto
  then show "(drop (end_pos + 1) s, s) \<in> measure length"
    by simp
qed simp

declare replace_braces.simps [simp del]

function replace_colons :: "bool \<Rightarrow> string \<Rightarrow> string" where
  "replace_colons at_start [] = []"
| "replace_colons at_start (c # cs) =
     (if c = CHR '':'' \<and> at_start then segment_text @ replace_colons False (dropWhile (\<lambda>d. d \<noteq> CHR ''/'') cs)
      else c # replace_colons (c = CHR ''/'') cs)"
  by pat_completeness auto
termination
  by (relation "measure (\<lambda>(b, s). length s)") (auto simp: le_imp_less_Suc length_dropWhile_le)

definition escape_specials :: "string \<Rightarrow> string" where
  "escape_specials pattern = concat (map (\<lambda>c. if c \<in> set escaped_chars then [CHR 0x5C, c] else [c]) pattern)"

text \<open>The expression and whether the route counts as one; \<open>None\<close> if the fallback is refused as well.\<close>

definition compile_pattern :: "regex_lib \<Rightarrow> string \<Rightarrow> (regex \<times> bool) option" where
  "compile_pattern L pattern =
     (let special = CHR ''{'' \<in> set pattern \<or> has_colon_param True pattern \<or> CHR ''*'' \<in> set pattern \<or>
            CHR ''^'' \<in> set pattern \<or> CHR ''$'' \<in> set pattern;
          regex_pattern = (if special
            then map (\<lambda>c. if c = CHR ''*'' then CHR ''.'' else c) (replace_colons True (replace_braces pattern))
            else pattern)
      in case std_regex L (''^'' @ regex_pattern @ ''$'') of
           Some r \<Rightarrow> Some (r, special)
         | None \<Rightarrow> map_option (\<lambda>r. (r, False)) (std_regex L (''^'' @ escape_specials pattern @ ''$'')))"

text \<open>\<open>ExtractParamNames\<close>; the list its first loop collects is cleared again.\<close>

function extract_param_names :: "bool \<Rightarrow> string \<Rightarrow> string list" where
  "extract_param_names at_start [] = []"
| "extract_param_names at_start (c # cs) =
     (if c = CHR ''{'' then
        (case find_sub ''}'' cs of
           None \<Rightarrow> []
         | Some e \<Rightarrow> take e cs # extract_param_names False (drop (e + 1) cs))
      else if c = CHR '':'' \<and> at_start then
        takeWhile (\<lambda>d. d \<noteq> CHR ''/'') cs # extract_param_names False (dropWhile (\<lambda>d. d \<noteq> CHR ''/'') cs)
      else extract_param_names (c = CHR ''/'') cs)"
  by pat_completeness auto
termination
  by (relation "measure (\<lambda>(b, s). length s)") (auto simp: le_imp_less_Suc length_dropWhile_le)

record 'k route =
  rt_method :: http_method
  rt_pattern :: string
  rt_regex :: regex
  rt_is_regex :: bool
  rt_names :: "string list"
  rt_handler :: 'k

definition make_route :: "regex_lib \<Rightarrow> http_method \<Rightarrow> string \<Rightarrow> 'k \<Rightarrow> 'k route option" where
  "make_route L method pattern handler =
     map_option (\<lambda>(r, is_regex).
       \<lparr>rt_method = method, rt_pattern = pattern, rt_regex = r, rt_is_regex = is_regex,
        rt_names = extract_param_names True pattern, rt_handler = handler\<rparr>)
       (compile_pattern L pattern)"

definition route_matches :: "regex_lib \<Rightarrow> 'k route \<Rightarrow> http_method \<Rightarrow> string \<Rightarrow> route_params option" where
  "route_matches L r method path =
     (if rt_method r \<noteq> M_any \<and> rt_method r \<noteq> method then None
      else map_option (\<lambda>groups. fold (\<lambda>(n, v). params_add n v) (zip (rt_names r) groups) [])
        (regex_match L (rt_regex r) path))"

end
