(* ===== verification/Http_Route_Props.thy ===== *)
theory Http_Route_Props
  imports Http_Route Http_Props
begin

text \<open>
  A pattern made of plain segments and parameters matches a path segment by segment.
\<close>

abbreviation slash :: char where "slash \<equiv> CHR ''/''"

datatype segment = Seg_text string | Seg_colon string | Seg_brace string

fun segment_pattern :: "segment \<Rightarrow> string" where
  "segment_pattern (Seg_text t) = t"
| "segment_pattern (Seg_colon n) = CHR '':'' # n"
| "segment_pattern (Seg_brace n) = CHR ''{'' # n @ ''}''"

definition slashed :: "string list \<Rightarrow> string" where
  "slashed parts = concat (map (Cons slash) parts)"

definition pattern_text :: "segment list \<Rightarrow> string" where
  "pattern_text segs = slashed (map segment_pattern segs)"

definition plain_name :: "string \<Rightarrow> bool" where
  "plain_name n \<longleftrightarrow> slash \<notin> set n \<and> CHR ''{'' \<notin> set n \<and> CHR ''}'' \<notin> set n"

fun plain_segment :: "segment \<Rightarrow> bool" where
  "plain_segment (Seg_text t) \<longleftrightarrow> slash \<notin> set t \<and> set t \<inter> set meta_chars = {} \<and> (t = [] \<or> hd t \<noteq> CHR '':'')"
| "plain_segment (Seg_colon n) = plain_name n"
| "plain_segment (Seg_brace n) = plain_name n"

text \<open>What a segment makes of a part of the path: the parameters it binds.\<close>

fun segment_binds :: "segment \<Rightarrow> string \<Rightarrow> (string \<times> string) list option" where
  "segment_binds (Seg_text t) part = (if part = t then Some [] else None)"
| "segment_binds (Seg_colon n) part = (if part = [] then None else Some [(n, part)])"
| "segment_binds (Seg_brace n) part = (if part = [] then None else Some [(n, part)])"

fun segments_bind :: "segment list \<Rightarrow> string list \<Rightarrow> (string \<times> string) list option" where
  "segments_bind [] [] = Some []"
| "segments_bind (g # gs) (part # parts) =
     (case (segment_binds g part, segments_bind gs parts) of (Some b, Some bs) \<Rightarrow> Some (b @ bs) | _ \<Rightarrow> None)"
| "segments_bind gs parts = None"

section \<open>Compilation\<close>

lemma slashed_simps [simp]: "slashed [] = []" "slashed (p # ps) = slash # p @ slashed ps"
  by (simp_all add: slashed_def)

text \<open>The two rewritings, one after the other.\<close>

fun without_braces :: "segment \<Rightarrow> string" where
  "without_braces (Seg_brace n) = segment_text"
| "without_braces g = segment_pattern g"

fun without_params :: "segment \<Rightarrow> string" where
  "without_params (Seg_text t) = t"
| "without_params g = segment_text"

fun segment_items :: "segment \<Rightarrow> rx list" where
  "segment_items (Seg_text t) = map Rx_char t"
| "segment_items g = [Rx_segment]"

definition segments_items :: "segment list \<Rightarrow> rx list" where
  "segments_items gs = concat (map (\<lambda>g. Rx_char slash # segment_items g) gs)"

lemma segments_items_simps [simp]:
  "segments_items [] = []" "segments_items (g # gs) = Rx_char slash # segment_items g @ segments_items gs"
  by (simp_all add: segments_items_def)

lemma find_char_skip:
  "x \<notin> set a \<Longrightarrow> find_sub [x] (a @ r) = map_option (\<lambda>i. i + length a) (find_sub [x] r)"
  by (induction a) (auto simp: starts_with_def option.map_comp comp_def option.map_ident)

lemma replace_braces_skip:
  assumes "CHR ''{'' \<notin> set a"
  shows "replace_braces (a @ s) = a @ replace_braces s"
proof (cases "find_sub ''{'' s")
  case None
  then show ?thesis
    using assms by (simp add: replace_braces.simps [of s] replace_braces.simps [of "a @ s"] find_char_skip)
next
  case (Some pos)
  then have "find_sub ''{'' (a @ s) = Some (pos + length a)"
    using assms by (simp add: find_char_skip)
  moreover have "find_from (a @ s) ''}'' (pos + length a) = map_option (\<lambda>e. e + length a) (find_from s ''}'' pos)"
    by (simp add: find_from_def option.map_comp comp_def add.assoc)
  ultimately show ?thesis
    using Some by (simp add: replace_braces.simps [of s] replace_braces.simps [of "a @ s"] split: option.split)
qed

lemma replace_braces_here:
  assumes "CHR ''}'' \<notin> set n"
  shows "replace_braces (CHR ''{'' # n @ CHR ''}'' # s) = segment_text @ replace_braces s"
proof -
  let ?t = "CHR ''{'' # n @ CHR ''}'' # s"
  have "find_sub ''{'' ?t = Some 0"
    by (simp add: starts_with_def)
  moreover have "find_sub ''}'' ?t = Some (length n + 1)"
    using assms find_char_skip [of "CHR ''}''" "CHR ''{'' # n" "CHR ''}'' # s"] by (simp add: starts_with_def)
  then have "find_from ?t ''}'' 0 = Some (length n + 1)"
    by (simp add: find_from_def option.map_ident)
  ultimately show ?thesis
    by (simp add: replace_braces.simps [of ?t])
qed

lemma meta_not_in:
  assumes "set t \<inter> set meta_chars = {}"
  shows "CHR ''{'' \<notin> set t" "CHR ''*'' \<notin> set t" "CHR ''^'' \<notin> set t" "CHR ''$'' \<notin> set t"
    "CHR ''('' \<notin> set t"
  using assms by (auto simp: meta_chars_def escaped_chars_def)

lemma braces_replaced:
  "list_all plain_segment gs \<Longrightarrow> replace_braces (slashed (map segment_pattern gs)) = slashed (map without_braces gs)"
proof (induction gs)
  case Nil
  then show ?case
    by (simp add: replace_braces.simps [of "[]"])
next
  case (Cons g gs)
  show ?case
  proof (cases g)
    case (Seg_text t)
    then show ?thesis
      using Cons meta_not_in [of t] replace_braces_skip [of "slash # t"] by simp
  next
    case (Seg_colon n)
    then show ?thesis
      using Cons replace_braces_skip [of "slash # CHR '':'' # n"] by (simp add: plain_name_def)
  next
    case (Seg_brace n)
    then show ?thesis
      using Cons replace_braces_skip [of "[slash]"] by (simp add: plain_name_def replace_braces_here)
  qed
qed

lemma replace_colons_group: "replace_colons b (segment_text @ s) = segment_text @ replace_colons False s"
  by (simp add: segment_text_def)

lemma replace_colons_text:
  assumes "slash \<notin> set t"
  shows "replace_colons False (t @ slashed ps) = t @ replace_colons False (slashed ps)"
  using assms by (induction t) auto

lemma colons_replaced:
  "list_all plain_segment gs \<Longrightarrow>
    replace_colons b (slashed (map without_braces gs)) = slashed (map without_params gs)"
proof (induction gs arbitrary: b)
  case (Cons g gs)
  show ?case
  proof (cases g)
    case (Seg_text t)
    then show ?thesis
      using Cons replace_colons_text [of "tl t" "map without_braces gs"] by (cases t) auto
  next
    case (Seg_colon n)
    then have "dropWhile (\<lambda>d. d \<noteq> slash) (n @ slashed (map without_braces gs)) = slashed (map without_braces gs)"
      using Cons.prems by (cases gs) (auto simp: plain_name_def dropWhile_append3)
    then show ?thesis
      using Cons Seg_colon by simp
  next
    case (Seg_brace n)
    then show ?thesis
      using Cons by (simp add: replace_colons_group)
  qed
qed simp

lemma no_params_text:
  "list_all plain_segment gs \<Longrightarrow> CHR ''*'' \<notin> set (slashed (map without_params gs))"
proof (induction gs)
  case (Cons g gs)
  then show ?case
    by (cases g) (auto simp: segment_text_def dest: meta_not_in)
qed simp

lemma rx_items_text:
  assumes "set t \<inter> set meta_chars = {}"
  shows "rx_items (t @ s) = map_option ((@) (map Rx_char t)) (rx_items s)"
  using assms
proof (induction t)
  case (Cons c t)
  then have "c \<notin> set meta_chars"
    by simp
  then have "\<not> starts_with (c # t @ s) segment_text" "c \<noteq> CHR ''.''" "c \<noteq> CHR 0x5C"
    by (auto simp: starts_with_def segment_text_def meta_chars_def escaped_chars_def)
  then show ?case
    using Cons \<open>c \<notin> set meta_chars\<close> by (simp add: rx_items.simps [of "c # t @ s"] option.map_comp comp_def)
next
  case Nil
  then show ?case
    by (cases "rx_items s") simp_all
qed

lemma rx_items_group: "rx_items (segment_text @ s) = map_option (Cons Rx_segment) (rx_items s)"
proof -
  obtain c cs where split: "segment_text @ s = c # cs" "drop 6 cs = s"
    by (simp add: segment_text_def)
  moreover have "starts_with (segment_text @ s) segment_text"
    by (simp add: starts_with_def)
  ultimately show ?thesis
    by (subst rx_items.simps) simp
qed

lemma slash_plain: "set [slash] \<inter> set meta_chars = {}"
  by (simp add: meta_chars_def escaped_chars_def nul_def)

lemma segments_compile:
  "list_all plain_segment gs \<Longrightarrow> rx_items (slashed (map without_params gs)) = Some (segments_items gs)"
proof (induction gs)
  case Nil
  then show ?case
    by (simp add: rx_items.simps [of "[]"])
next
  case (Cons g gs)
  then show ?case
    using rx_items_text [OF slash_plain] by (cases g) (simp_all add: rx_items_text rx_items_group)
qed

text \<open>Without parameters the rewritings change nothing, so both branches of the compiler agree.\<close>

lemma replace_colons_none: "\<not> has_colon_param b s \<Longrightarrow> replace_colons b s = s"
  by (induction b s rule: has_colon_param.induct) auto

lemma no_star_map: "CHR ''*'' \<notin> set s \<Longrightarrow> map (\<lambda>c. if c = CHR ''*'' then CHR ''.'' else c) s = s"
  by (induction s) auto

lemma pattern_compiles:
  assumes "list_all plain_segment gs"
  shows "\<exists>special. compile_pattern L (pattern_text gs) = Some (Rx_items (segments_items gs), special)"
proof -
  define inner where "inner = slashed (map without_params gs)"
  have rewritten: "map (\<lambda>c. if c = CHR ''*'' then CHR ''.'' else c) (replace_colons True (replace_braces (pattern_text gs))) = inner"
    using braces_replaced [OF assms] colons_replaced [OF assms, of True] no_params_text [OF assms]
    by (simp add: pattern_text_def inner_def no_star_map)
  have unchanged: "pattern_text gs = inner"
    if "CHR ''{'' \<notin> set (pattern_text gs)" "\<not> has_colon_param True (pattern_text gs)" "CHR ''*'' \<notin> set (pattern_text gs)"
    using rewritten that replace_braces_skip [of "pattern_text gs" "[]"] replace_colons_none
    by (simp add: replace_braces.simps [of "[]"] no_star_map)
  have "std_regex L (''^'' @ inner @ ''$'') = Some (Rx_items (segments_items gs))"
    using segments_compile [OF assms] by (simp add: std_regex_def inner_def butlast_append)
  then show ?thesis
    unfolding compile_pattern_def Let_def rewritten using unchanged by auto
qed

section \<open>Names\<close>

fun segment_names :: "segment \<Rightarrow> string list" where
  "segment_names (Seg_text t) = []"
| "segment_names (Seg_colon n) = [n]"
| "segment_names (Seg_brace n) = [n]"

lemma names_skip:
  assumes "slash \<notin> set t" and "CHR ''{'' \<notin> set t"
  shows "extract_param_names False (t @ slashed ps) = extract_param_names False (slashed ps)"
  using assms by (induction t) auto

lemma pattern_names:
  "list_all plain_segment gs \<Longrightarrow>
    extract_param_names b (slashed (map segment_pattern gs)) = concat (map segment_names gs)"
proof (induction gs arbitrary: b)
  case (Cons g gs)
  let ?rest = "slashed (map segment_pattern gs)"
  show ?case
  proof (cases g)
    case (Seg_text t)
    then show ?thesis
      using Cons meta_not_in [of t] names_skip [of "tl t" "map segment_pattern gs"] by (cases t) auto
  next
    case (Seg_colon n)
    then have "takeWhile (\<lambda>d. d \<noteq> slash) (n @ ?rest) = n" "dropWhile (\<lambda>d. d \<noteq> slash) (n @ ?rest) = ?rest"
      using Cons.prems by (cases gs; auto simp: plain_name_def takeWhile_tail dropWhile_append3 takeWhile_eq_all_conv)+
    then show ?thesis
      using Cons Seg_colon by simp
  next
    case (Seg_brace n)
    then have "find_sub ''}'' (n @ CHR ''}'' # ?rest) = Some (length n)"
      using Cons.prems by (intro find_char_first) (simp add: plain_name_def)
    then show ?thesis
      using Cons Seg_brace by simp
  qed
qed simp

section \<open>Matching\<close>

text \<open>What follows a segment starts with a slash or is nothing, on both sides.\<close>

lemma items_need_slash: "s \<noteq> [] \<Longrightarrow> hd s \<noteq> slash \<Longrightarrow> rx_match (segments_items gs) s = None"
  by (cases gs) auto

lemma text_match:
  assumes "slash \<notin> set part" and "slash \<notin> set t"
  shows "rx_match (map Rx_char t @ segments_items gs) (part @ slashed parts) =
    (if part = t then rx_match (segments_items gs) (slashed parts) else None)"
  using assms
proof (induction t arbitrary: part)
  case Nil
  then show ?case
    by (cases part) (auto intro!: items_need_slash)
next
  case (Cons c t)
  then show ?case
    by (cases part; cases parts) auto
qed

lemma longest_first_only:
  assumes "\<And>i. 0 < i \<Longrightarrow> i < n \<Longrightarrow> f i = None"
  shows "longest_first n f = (if n = 0 then None else f n)"
proof -
  have "longest_first m f = None" if "m < n" for m
    using that by (induction m) (auto simp: assms)
  then show ?thesis
    by (cases n) (auto split: option.split)
qed

lemma segment_match:
  assumes "slash \<notin> set part"
  shows "rx_match (Rx_segment # segments_items gs) (part @ slashed parts) =
    (if part = [] then None else map_option (Cons part) (rx_match (segments_items gs) (slashed parts)))"
proof -
  have "takeWhile (\<lambda>c. c \<noteq> slash) (part @ slashed parts) = part"
    using assms by (cases parts) (auto simp: takeWhile_tail takeWhile_eq_all_conv)
  moreover have "rx_match (segments_items gs) (drop i part @ slashed parts) = None" if "i < length part" for i
  proof (intro items_need_slash)
    have "part ! i \<noteq> slash"
      using that assms nth_mem by metis
    then show "hd (drop i part @ slashed parts) \<noteq> slash"
      using that by (simp add: hd_append hd_drop_conv_nth)
  qed (use that in simp)
  ultimately show ?thesis
    by (simp add: longest_first_only)
qed

lemma segments_match:
  assumes "list_all plain_segment gs" and "list_all (\<lambda>p. slash \<notin> set p) parts"
  shows "rx_match (segments_items gs) (slashed parts) = map_option (map snd) (segments_bind gs parts)"
  using assms
proof (induction gs parts rule: segments_bind.induct)
  case (2 g gs part parts)
  then show ?case
    by (cases g) (auto simp: text_match segment_match option.map_comp comp_def simp del: rx_match.simps(4) split: option.splits)
qed auto

lemma bound_names: "segments_bind gs parts = Some bs \<Longrightarrow> map fst bs = concat (map segment_names gs)"
proof (induction gs parts arbitrary: bs rule: segments_bind.induct)
  case (2 g gs part parts)
  then show ?case
    by (cases g) (auto split: option.splits if_splits)
qed auto

lemma route_matched:
  assumes "list_all plain_segment gs" and "list_all (\<lambda>p. slash \<notin> set p) parts"
    and "make_route L method (pattern_text gs) h = Some r"
  shows "route_matches L r m (slashed parts) =
    (if method = M_any \<or> method = m
     then map_option (\<lambda>bs. fold (\<lambda>(n, v). omap_set n v) bs []) (segments_bind gs parts) else None)"
proof -
  obtain special where "compile_pattern L (pattern_text gs) = Some (Rx_items (segments_items gs), special)"
    using pattern_compiles [OF assms(1)] by blast
  moreover have "zip (concat (map segment_names gs)) (map snd bs) = bs" if "segments_bind gs parts = Some bs" for bs
    using bound_names [OF that, symmetric] by (simp add: zip_map_fst_snd)
  moreover have "params_add = omap_set"
    by (intro ext) (simp add: params_add_def)
  ultimately show ?thesis
    using segments_match [OF assms(1,2)] pattern_names [OF assms(1), of True] assms(3)
    by (cases "segments_bind gs parts")
      (auto simp: make_route_def route_matches_def regex_match_def pattern_text_def)
qed

text \<open>
  Property C25. A route whose pattern is made of plain segments and parameters, written \<open>:name\<close> or \<open>{name}\<close>, compiles
  whatever the regular-expression library does, and matches the paths that have as many parts, equal where the pattern
  has text and not empty where it has a parameter; the parameters are the parts under their names.
\<close>

theorem route_matches_segments:
  assumes "list_all plain_segment gs" and "list_all (\<lambda>p. slash \<notin> set p) parts"
  shows "\<exists>r. make_route L method (pattern_text gs) h = Some r \<and>
    (\<forall>m. route_matches L r m (slashed parts) =
      (if method = M_any \<or> method = m
       then map_option (\<lambda>bs. fold (\<lambda>(n, v). omap_set n v) bs []) (segments_bind gs parts) else None))"
proof -
  obtain r where "make_route L method (pattern_text gs) h = Some r"
    using pattern_compiles [OF assms(1), of L] by (auto simp: make_route_def)
  then show ?thesis
    by (intro exI [of _ r] conjI allI route_matched [OF assms])
qed

text \<open>A library without further expressions.\<close>

definition no_library :: regex_lib where
  "no_library = \<lparr>rx_valid = \<lambda>t. False, rx_groups = \<lambda>t path. None\<rparr>"

theorem route_matches_segments_witness:
  "\<exists>r. make_route no_library M_get (pattern_text [Seg_text ''users'', Seg_colon ''id'', Seg_brace ''tab'']) () = Some r \<and>
     route_matches no_library r M_get (slashed [''users'', ''7'', ''posts'']) = Some [(''id'', ''7''), (''tab'', ''posts'')] \<and>
     route_matches no_library r M_get (slashed [''users'', [], ''posts'']) = None"
proof -
  let ?gs = "[Seg_text ''users'', Seg_colon ''id'', Seg_brace ''tab'']"
  have gs: "list_all plain_segment ?gs"
    by code_simp
  obtain special where c: "compile_pattern no_library (pattern_text ?gs) = Some (Rx_items (segments_items ?gs), special)"
    using pattern_compiles [OF gs] by blast
  obtain r where r: "make_route no_library M_get (pattern_text ?gs) () = Some r"
    using c by (simp add: make_route_def)
  have "route_matches no_library r M_get (slashed parts) =
      map_option (\<lambda>bs. fold (\<lambda>(n, v). omap_set n v) bs []) (segments_bind ?gs parts)"
    if "list_all (\<lambda>p. slash \<notin> set p) parts" for parts
    using route_matches_segments [OF gs that, of no_library M_get "()"] r by auto
  from this [of "[''users'', ''7'', ''posts'']"] this [of "[''users'', [], ''posts'']"] show ?thesis
    using r by (simp add: less_char_def)
qed

end
