(* ===== verification/Http_Router.thy ===== *)
theory Http_Router
  imports Http_Server Http_Multipart Http_Route
begin

text \<open>
  The HTTP router (\<open>net/http_router.h\<close>, \<open>net/http_router.cc\<close>): the context of a request, the response
  builder, static files, and the way of a request through middlewares, static servers and routes.

  Handlers are functions of the context and the response on the server's state, as they can use the connection;
  they return the response they leave. \<open>Thrown\<close> is a C++ exception with the text of its \<open>what\<close>. The file system
  is a record of what its queries answer; it does not change while a request is handled.
\<close>

record file_system =
  fs_exists :: "string \<Rightarrow> bool"
  fs_is_directory :: "string \<Rightarrow> string + bool"
  fs_canonical :: "string \<Rightarrow> string + string"
  fs_entries :: "string \<Rightarrow> (string \<times> bool) list option"
  fs_stream :: "string \<Rightarrow> (int \<times> string) option"

section \<open>Query parameters\<close>

text \<open>A \<open>std::multimap\<close>: entries in the order of their keys, those with the same key as they came.\<close>

type_synonym query_params = "(string \<times> string) list"

definition multimap_emplace :: "string \<Rightarrow> string \<Rightarrow> query_params \<Rightarrow> query_params" where
  "multimap_emplace k v m = takeWhile (\<lambda>e. fst e \<le> k) m @ [(k, v)] @ dropWhile (\<lambda>e. fst e \<le> k) m"

definition query_step :: "string \<Rightarrow> query_params \<Rightarrow> query_params" where
  "query_step pair m =
     (case split_pair pair of
        Some (k, v) \<Rightarrow> multimap_emplace (url_decode k) (url_decode v) m
      | None \<Rightarrow> multimap_emplace (url_decode pair) [] m)"

definition query_parse :: "string \<Rightarrow> query_params" where
  "query_parse query_string = (if query_string = [] then [] else fold query_step (getlines CHR ''&'' query_string) [])"

definition query_get :: "query_params \<Rightarrow> string \<Rightarrow> string" where
  "query_get q name = (case map_of q name of Some v \<Rightarrow> v | None \<Rightarrow> [])"

definition query_get_or :: "query_params \<Rightarrow> string \<Rightarrow> string \<Rightarrow> string" where
  "query_get_or q name default_val = (case map_of q name of Some v \<Rightarrow> v | None \<Rightarrow> default_val)"

definition query_has :: "query_params \<Rightarrow> string \<Rightarrow> bool" where
  "query_has q name \<longleftrightarrow> map_of q name \<noteq> None"

definition query_get_all :: "query_params \<Rightarrow> string \<Rightarrow> string list" where
  "query_get_all q name = map snd (filter (\<lambda>e. fst e = name) q)"

section \<open>The context of a request\<close>

record request_context =
  x_conn :: nat
  x_request :: http_request
  x_params :: route_params
  x_query :: query_params
  x_headers :: "(string, string) omap"
  x_multipart_parsed :: bool
  x_multipart :: multipart

definition new_context :: "nat \<Rightarrow> http_request \<Rightarrow> request_context" where
  "new_context k req =
     \<lparr>x_conn = k, x_request = req, x_params = [],
      x_query = (case find_sub ''?'' (r_uri req) of None \<Rightarrow> [] | Some pos \<Rightarrow> query_parse (drop (pos + 1) (r_uri req))),
      x_headers = fold (\<lambda>h. omap_set (to_lower (h_name h)) (h_value h)) (takeWhile (\<lambda>h. h_name h \<noteq> []) (r_headers req)) [],
      x_multipart_parsed = False, x_multipart = \<lparr>mp_fields = [], mp_files = []\<rparr>\<rparr>"

definition get_header :: "request_context \<Rightarrow> string \<Rightarrow> string" where
  "get_header x name = (case omap_find (x_headers x) (to_lower name) of Some v \<Rightarrow> v | None \<Rightarrow> [])"

definition get_param :: "request_context \<Rightarrow> string \<Rightarrow> string" where
  "get_param x name = params_get (x_params x) name"

definition get_query :: "request_context \<Rightarrow> string \<Rightarrow> string" where
  "get_query x name = query_get (x_query x) name"

definition get_body :: "request_context \<Rightarrow> string" where
  "get_body x = r_body (x_request x)"

definition is_json_request :: "request_context \<Rightarrow> bool" where
  "is_json_request x \<longleftrightarrow> find_sub ''application/json'' (get_header x ''content-type'') \<noteq> None"

definition is_form_request :: "request_context \<Rightarrow> bool" where
  "is_form_request x \<longleftrightarrow> find_sub ''application/x-www-form-urlencoded'' (get_header x ''content-type'') \<noteq> None"

definition is_multipart_request :: "request_context \<Rightarrow> bool" where
  "is_multipart_request x \<longleftrightarrow> find_sub ''multipart/form-data'' (get_header x ''content-type'') \<noteq> None"

definition get_client_ip :: "request_context \<Rightarrow> string" where
  "get_client_ip x = ''127.0.0.1''"

definition parse_multipart :: "request_context \<Rightarrow> request_context" where
  "parse_multipart x =
     (let x1 = x\<lparr>x_multipart_parsed := True\<rparr>
      in if \<not> is_multipart_request x then x1
         else let boundary = extract_boundary (get_header x ''content-type'')
              in if boundary = [] then x1
                 else case multipart_parse (r_body (x_request x)) boundary of
                        (mp, True) \<Rightarrow> x1\<lparr>x_multipart := mp\<rparr>
                      | (mp, False) \<Rightarrow> x1)"

definition multipart_of :: "request_context \<Rightarrow> multipart \<times> request_context" where
  "multipart_of x = (let x1 = (if x_multipart_parsed x then x else parse_multipart x) in (x_multipart x1, x1))"

definition get_multipart_fields :: "request_context \<Rightarrow> form_field list \<times> request_context" where
  "get_multipart_fields x = (let (mp, x1) = multipart_of x in (mp_fields mp, x1))"

definition get_multipart_files :: "request_context \<Rightarrow> form_file list \<times> request_context" where
  "get_multipart_files x = (let (mp, x1) = multipart_of x in (mp_files mp, x1))"

section \<open>Responses\<close>

record router_response =
  s_status :: string
  s_headers :: http_headers
  s_body :: string
  s_file_path :: string
  s_is_file :: bool

definition new_response :: router_response where
  "new_response = \<lparr>s_status = ''200 OK'', s_headers = [], s_body = [], s_file_path = [], s_is_file = False\<rparr>"

definition status_codes :: "(int \<times> string) list" where
  "status_codes =
     [(200, ''200 OK''), (201, ''201 Created''), (204, ''204 No Content''), (301, ''301 Moved Permanently''),
      (302, ''302 Found''), (400, ''400 Bad Request''), (401, ''401 Unauthorized''), (403, ''403 Forbidden''),
      (404, ''404 Not Found''), (405, ''405 Method Not Allowed''), (500, ''500 Internal Server Error'')]"

definition set_status_code :: "int \<Rightarrow> router_response \<Rightarrow> router_response" where
  "set_status_code code r =
     r\<lparr>s_status := (case map_of status_codes code of Some t \<Rightarrow> t | None \<Rightarrow> show_int code @ '' Unknown'')\<rparr>"

definition set_status_text :: "string \<Rightarrow> router_response \<Rightarrow> router_response" where
  "set_status_text status r = r\<lparr>s_status := status\<rparr>"

definition with_header :: "string \<Rightarrow> string \<Rightarrow> router_response \<Rightarrow> router_response" where
  "with_header name v r = r\<lparr>s_headers := s_headers r @ [header name v]\<rparr>"

definition with_headers :: "http_headers \<Rightarrow> router_response \<Rightarrow> router_response" where
  "with_headers hs r = r\<lparr>s_headers := s_headers r @ hs\<rparr>"

definition with_content_type :: "string \<Rightarrow> router_response \<Rightarrow> router_response" where
  "with_content_type content_type r = with_header ''Content-Type'' content_type r"

definition with_body :: "string \<Rightarrow> router_response \<Rightarrow> router_response" where
  "with_body b r = r\<lparr>s_body := b, s_is_file := False\<rparr>"

definition with_json :: "string \<Rightarrow> router_response \<Rightarrow> router_response" where
  "with_json json r = with_body json (with_content_type ''application/json'' r)"

definition with_html :: "string \<Rightarrow> router_response \<Rightarrow> router_response" where
  "with_html html r = with_body html (with_content_type ''text/html; charset=utf-8'' r)"

definition with_text :: "string \<Rightarrow> router_response \<Rightarrow> router_response" where
  "with_text t r = with_body t (with_content_type ''text/plain; charset=utf-8'' r)"

definition with_file :: "string \<Rightarrow> router_response \<Rightarrow> router_response" where
  "with_file file_path r = r\<lparr>s_file_path := file_path, s_is_file := True\<rparr>"

text \<open>\<open>file_utils::bsname\<close> and \<open>file_utils::extension\<close>.\<close>

definition bsname :: "string \<Rightarrow> string" where
  "bsname path =
     (if path = [] then ''.'' else case rfind_char path CHR ''/'' of Some i \<Rightarrow> drop (i + 1) path | None \<Rightarrow> path)"

definition file_extension :: "string \<Rightarrow> string" where
  "file_extension path =
     (let base = bsname path
      in case rfind_char base CHR ''.'' of None \<Rightarrow> [] | Some dot_pos \<Rightarrow> if dot_pos = 0 then [] else drop dot_pos base)"

definition with_download :: "string \<Rightarrow> string \<Rightarrow> router_response \<Rightarrow> router_response" where
  "with_download file_path filename r =
     with_header ''Content-Disposition''
       (''attachment; filename='' @ [CHR 0x22] @ (if filename = [] then bsname file_path else filename) @ [CHR 0x22])
       (with_file file_path r)"

definition with_redirect :: "string \<Rightarrow> int \<Rightarrow> router_response \<Rightarrow> router_response" where
  "with_redirect url code r = with_header ''Location'' url (set_status_code code r)"

definition send_error :: "nat \<Rightarrow> int \<Rightarrow> string \<Rightarrow> ('h, unit) http" where
  "send_error k status message =
     (let error_message = (if message = [] then get_status_message status else message)
      in send_response k (show_int status @ '' '' @ error_message)
           [header ''Content-Type'' ''text/html; charset=utf-8'']
           (''<html><body><h1>'' @ show_int status @ '' '' @ error_message @ ''</h1></body></html>'') False)"

definition send_json :: "nat \<Rightarrow> string \<Rightarrow> int \<Rightarrow> ('h, unit) http" where
  "send_json k json status =
     send_response k (show_int status @ '' '' @ get_status_message status)
       [header ''Content-Type'' ''application/json''] json False"

definition stream_or_error :: "file_system \<Rightarrow> nat \<Rightarrow> string \<Rightarrow> string \<Rightarrow> http_headers \<Rightarrow> ('h, unit) http" where
  "stream_or_error F k file_path status headers =
     then_with (send_file_streaming (fs_stream F file_path) k status headers)
       (\<lambda>ok. only_if (\<not> ok) (send_error k 500 ''Failed to read file''))"

definition send_file :: "file_system \<Rightarrow> nat \<Rightarrow> string \<Rightarrow> ('h, unit) http" where
  "send_file F k file_path =
     (if \<not> fs_exists F file_path then send_error k 404 ''File Not Found''
      else stream_or_error F k file_path ''200 OK'' [header ''Content-Type'' (get_mime_type (file_extension file_path))])"

text \<open>\<open>HttpRouterResponse::Send\<close>.\<close>

definition response_send :: "file_system \<Rightarrow> router_response \<Rightarrow> nat \<Rightarrow> ('h, unit) http" where
  "response_send F r k =
     (if s_is_file r then
        (if \<not> fs_exists F (s_file_path r) then send_error k 404 ''File Not Found''
         else stream_or_error F k (s_file_path r) (s_status r)
                (header ''Content-Type'' (get_mime_type (file_extension (s_file_path r))) # s_headers r))
      else send_response k (s_status r) (s_headers r) (s_body r) False)"

section \<open>Static files\<close>

record static_server =
  ss_root :: string
  ss_prefix :: string
  ss_cache_control :: string
  ss_index_file :: string
  ss_listing :: bool

definition new_static_server :: "string \<Rightarrow> string \<Rightarrow> static_server" where
  "new_static_server root url_prefix =
     \<lparr>ss_root = root, ss_prefix = url_prefix, ss_cache_control = ''public, max-age=3600'', ss_index_file = ''index.html'',
      ss_listing = False\<rparr>"

definition set_cache_control :: "string \<Rightarrow> static_server \<Rightarrow> static_server" where
  "set_cache_control cache_control ss = ss\<lparr>ss_cache_control := cache_control\<rparr>"

definition enable_listing :: "bool \<Rightarrow> static_server \<Rightarrow> static_server" where
  "enable_listing enable ss = ss\<lparr>ss_listing := enable\<rparr>"

definition set_index_file :: "string \<Rightarrow> static_server \<Rightarrow> static_server" where
  "set_index_file index_file ss = ss\<lparr>ss_index_file := index_file\<rparr>"

definition can_handle :: "static_server \<Rightarrow> string \<Rightarrow> bool" where
  "can_handle ss path \<longleftrightarrow> find_sub (ss_prefix ss) path = Some 0"

definition get_file_path :: "static_server \<Rightarrow> string \<Rightarrow> ('h, string) http" where
  "get_file_path ss url_path =
     (if length (ss_prefix ss) > length url_path
      then throw (Thrown (''basic_string::substr: __pos (which is '' @ show_nat (length (ss_prefix ss)) @
             '') > this->size() (which is '' @ show_nat (length url_path) @ '')''))
      else let relative_path = drop (length (ss_prefix ss)) url_path
           in give (ss_root ss @ (if relative_path = [] \<or> hd relative_path \<noteq> CHR ''/'' then [CHR ''/''] else []) @ relative_path))"

definition is_valid_path :: "file_system \<Rightarrow> static_server \<Rightarrow> string \<Rightarrow> ('h, bool) http" where
  "is_valid_path F ss file_path =
     (case fs_canonical F (ss_root ss) of
        Inl e \<Rightarrow> throw (Thrown e)
      | Inr canonical_root \<Rightarrow>
          (case fs_canonical F file_path of
             Inl e \<Rightarrow> give False
           | Inr canonical_file \<Rightarrow> give (find_sub canonical_root canonical_file = Some 0)))"

definition listing_entry :: "static_server \<Rightarrow> string \<times> bool \<Rightarrow> string" where
  "listing_entry ss e =
     (case e of (name, is_dir) \<Rightarrow>
        let slash = (if is_dir then ''/'' else [])
        in ''<li><a href='' @ [CHR 0x22] @ ss_prefix ss @ ''/'' @ name @ slash @ [CHR 0x22] @ ''>'' @ name @ slash @ ''</a></li>'')"

definition serve_directory_listing ::
    "file_system \<Rightarrow> static_server \<Rightarrow> string \<Rightarrow> router_response \<Rightarrow> router_response" where
  "serve_directory_listing F ss directory_path r =
     (case fs_entries F directory_path of
        None \<Rightarrow> with_text ''Error reading directory'' (set_status_code 500 r)
      | Some entries \<Rightarrow>
          with_html (''<!DOCTYPE html><html><head><title>Directory Listing</title></head>'' @
            ''<body><h1>Directory Listing</h1><ul>'' @ concat (map (listing_entry ss) entries) @ ''</ul></body></html>'') r)"

definition serve_file ::
    "file_system \<Rightarrow> static_server \<Rightarrow> request_context \<Rightarrow> router_response \<Rightarrow> ('h, router_response) http" where
  "serve_file F ss x r =
     then_with (get_file_path ss (r_uri (x_request x))) (\<lambda>file_path.
     then_with (is_valid_path F ss file_path) (\<lambda>valid.
       let serve = (\<lambda>path. give (with_file path (with_header ''Cache-Control'' (ss_cache_control ss) r)))
       in if \<not> valid then give (with_text ''Forbidden'' (set_status_code 403 r))
          else if \<not> fs_exists F file_path then give (with_text ''File Not Found'' (set_status_code 404 r))
          else case fs_is_directory F file_path of
            Inl e \<Rightarrow> throw (Thrown e)
          | Inr False \<Rightarrow> serve file_path
          | Inr True \<Rightarrow>
              let index_path = file_path @ ''/'' @ ss_index_file ss
              in if fs_exists F index_path then serve index_path
                 else if ss_listing ss then give (serve_directory_listing F ss file_path r)
                 else give (with_text ''Directory listing disabled'' (set_status_code 403 r))))"

section \<open>The router\<close>

type_synonym 'h route_handler = "request_context \<Rightarrow> router_response \<Rightarrow> ('h, router_response) http"
type_synonym 'h middleware = "request_context \<Rightarrow> router_response \<Rightarrow> ('h, bool \<times> router_response) http"

record 'h router =
  ro_routes :: "'h route_handler option route list"
  ro_middlewares :: "(string \<times> 'h middleware) list"
  ro_static :: "static_server list"
  ro_not_found :: "'h route_handler option"
  ro_error :: "(request_context \<Rightarrow> router_response \<Rightarrow> string \<Rightarrow> ('h, router_response) http) option"
  ro_cors :: bool
  ro_cors_origin :: string
  ro_cors_methods :: string

definition new_router :: "'h router" where
  "new_router = \<lparr>ro_routes = [], ro_middlewares = [], ro_static = [], ro_not_found = None, ro_error = None,
     ro_cors = False, ro_cors_origin = [], ro_cors_methods = []\<rparr>"

text \<open>\<open>None\<close> where the constructor of the route throws.\<close>

definition add_route ::
    "regex_lib \<Rightarrow> http_method \<Rightarrow> string \<Rightarrow> 'h route_handler option \<Rightarrow> 'h router \<Rightarrow> 'h router option" where
  "add_route L method pattern handler R =
     map_option (\<lambda>r. R\<lparr>ro_routes := ro_routes R @ [r]\<rparr>) (make_route L method pattern handler)"

definition router_get where "router_get L = add_route L M_get"
definition router_post where "router_post L = add_route L M_post"
definition router_put where "router_put L = add_route L M_put"
definition router_delete where "router_delete L = add_route L M_delete"
definition router_patch where "router_patch L = add_route L M_patch"
definition router_options where "router_options L = add_route L M_options"
definition router_head where "router_head L = add_route L M_head"
definition router_any where "router_any L = add_route L M_any"

definition group_get where "group_get prefix L pattern = router_get L (prefix @ pattern)"
definition group_post where "group_post prefix L pattern = router_post L (prefix @ pattern)"
definition group_put where "group_put prefix L pattern = router_put L (prefix @ pattern)"
definition group_delete where "group_delete prefix L pattern = router_delete L (prefix @ pattern)"

definition use_middleware :: "string \<Rightarrow> 'h middleware \<Rightarrow> 'h router \<Rightarrow> 'h router" where
  "use_middleware path_prefix m R = R\<lparr>ro_middlewares := ro_middlewares R @ [(path_prefix, m)]\<rparr>"

definition add_static :: "string \<Rightarrow> string \<Rightarrow> 'h router \<Rightarrow> 'h router" where
  "add_static url_prefix directory R = R\<lparr>ro_static := ro_static R @ [new_static_server directory url_prefix]\<rparr>"

definition serve_static :: "string \<Rightarrow> 'h router \<Rightarrow> 'h router" where
  "serve_static directory R = add_static ''/static'' directory R"

definition set_not_found :: "'h route_handler option \<Rightarrow> 'h router \<Rightarrow> 'h router" where
  "set_not_found handler R = R\<lparr>ro_not_found := handler\<rparr>"

definition set_error_handler ::
    "(request_context \<Rightarrow> router_response \<Rightarrow> string \<Rightarrow> ('h, router_response) http) option \<Rightarrow> 'h router \<Rightarrow> 'h router" where
  "set_error_handler handler R = R\<lparr>ro_error := handler\<rparr>"

definition enable_cors :: "string \<Rightarrow> string \<Rightarrow> 'h router \<Rightarrow> 'h router" where
  "enable_cors origin methods R = R\<lparr>ro_cors := True, ro_cors_origin := origin, ro_cors_methods := methods\<rparr>"

definition cors_preflight :: "'h router \<Rightarrow> router_response \<Rightarrow> router_response" where
  "cors_preflight R r =
     with_header ''Access-Control-Max-Age'' ''86400''
       (with_header ''Access-Control-Allow-Headers'' ''Content-Type, Authorization''
         (with_header ''Access-Control-Allow-Methods'' (ro_cors_methods R)
           (with_header ''Access-Control-Allow-Origin'' (ro_cors_origin R) (set_status_code 204 r))))"

fun run_middlewares ::
    "(string \<times> 'h middleware) list \<Rightarrow> request_context \<Rightarrow> router_response \<Rightarrow> ('h, bool \<times> router_response) http" where
  "run_middlewares [] x r = give (True, r)"
| "run_middlewares ((prefix, m) # ms) x r =
     (if prefix = [] \<or> find_sub prefix (r_uri (x_request x)) = Some 0
      then then_with (m x r) (\<lambda>(go_on, r1). if go_on then run_middlewares ms x r1 else give (False, r1))
      else run_middlewares ms x r)"

text \<open>The loop on the routes: the first that matches, with its parameters.\<close>

fun find_route :: "regex_lib \<Rightarrow> 'k route list \<Rightarrow> http_method \<Rightarrow> string \<Rightarrow> ('k route \<times> route_params) option" where
  "find_route L [] method path = None"
| "find_route L (r # rs) method path =
     (case route_matches L r method path of Some params \<Rightarrow> Some (r, params) | None \<Rightarrow> find_route L rs method path)"

definition execute_route :: "'h route_handler option route \<Rightarrow> 'h route_handler" where
  "execute_route rt x r = (case rt_handler rt of Some h \<Rightarrow> h x r | None \<Rightarrow> give r)"

definition path_of :: "string \<Rightarrow> string" where
  "path_of uri = (case find_sub ''?'' uri of None \<Rightarrow> uri | Some query_pos \<Rightarrow> take query_pos uri)"

definition serve_routes ::
    "regex_lib \<Rightarrow> file_system \<Rightarrow> 'h router \<Rightarrow> request_context \<Rightarrow> router_response \<Rightarrow> ('h, unit) http" where
  "serve_routes L F R x r =
     (let req = x_request x
      in case find_route L (ro_routes R) (string_to_http_method (r_method req)) (path_of (r_uri req)) of
           Some (route, params) \<Rightarrow>
             then_with (execute_route route (x\<lparr>x_params := params\<rparr>) r) (\<lambda>r1.
               response_send F
                 (if ro_cors R then with_header ''Access-Control-Allow-Methods'' (ro_cors_methods R)
                    (with_header ''Access-Control-Allow-Origin'' (ro_cors_origin R) r1) else r1) (x_conn x))
         | None \<Rightarrow>
             (case ro_not_found R of
                Some h \<Rightarrow> then_with (h x r) (\<lambda>r1. response_send F r1 (x_conn x))
              | None \<Rightarrow> send_error (x_conn x) 404 ''Not Found''))"

text \<open>The body of the \<open>try\<close> in \<open>HandleRequest\<close>, then \<open>HandleRequest\<close> with its handler of exceptions.\<close>

definition route_request ::
    "regex_lib \<Rightarrow> file_system \<Rightarrow> 'h router \<Rightarrow> nat \<Rightarrow> http_request \<Rightarrow> ('h, unit) http" where
  "route_request L F R k req =
     (let x = new_context k req
      in if ro_cors R \<and> r_method req = ''OPTIONS'' then response_send F (cors_preflight R new_response) k
         else then_with (run_middlewares (ro_middlewares R) x new_response) (\<lambda>(go_on, r).
           if \<not> go_on then response_send F r k
           else case List.find (\<lambda>ss. can_handle ss (path_of (r_uri req))) (ro_static R) of
             Some ss \<Rightarrow> then_with (serve_file F ss x r) (\<lambda>r1. response_send F r1 k)
           | None \<Rightarrow> serve_routes L F R x r))"

definition handle_request ::
    "regex_lib \<Rightarrow> file_system \<Rightarrow> 'h router \<Rightarrow> nat \<Rightarrow> http_request \<Rightarrow> ('h, bool) http" where
  "handle_request L F R k req s =
     (case route_request L F R k req s of
        (Inl (Thrown what), t) \<Rightarrow>
          then_do (case ro_error R of
              Some h \<Rightarrow> then_with (h (new_context k req) new_response what) (\<lambda>r. response_send F r k)
            | None \<Rightarrow> send_error k 500 ''Internal Server Error'') (give True) t
      | (Inl e, t) \<Rightarrow> (Inl e, t)
      | (Inr handled, t) \<Rightarrow> (Inr True, t))"

definition router_handler :: "regex_lib \<Rightarrow> file_system \<Rightarrow> 'h router \<Rightarrow> 'h http_handler" where
  "router_handler L F R =
     \<lparr>on_http_request = (\<lambda>k req. then_with (handle_request L F R k req) (\<lambda>handled.
        if handled then give ()
        else send_response_and_close k ''404 Not Found'' [header ''Content-Type'' ''text/html; charset=utf-8'']
               ''<html><body><h1>404 Not Found</h1></body></html>'')),
      on_websocket_message = (\<lambda>k data is_text. give ()), on_connection_closed = (\<lambda>k. give ())\<rparr>"

end
