(* ===== verification/Http_Router_Props.thy ===== *)
theory Http_Router_Props
  imports Http_Router Http_Route_Props Http_Server_Props
begin

text \<open>
  What the router answers: routed requests end to end, static files, and files that turn out shorter while they are
  sent.
\<close>

section \<open>Files on the wire\<close>

text \<open>A connection on which the headers of a response of the given length were sent, and a part of its body.\<close>

definition streaming :: "nat \<Rightarrow> nat \<Rightarrow> connection \<Rightarrow> bool" where
  "streaming announced sent c \<longleftrightarrow> c_open c \<and> \<not> c_websocket c \<and> c_headers_sent c \<and>
     announced < 2 ^ 64 - 1 \<and> c_len_headers c = of_nat announced \<and> c_len_actual c = of_nat sent \<and> sent \<le> announced"

lemma of_nat_le_u64: "a \<le> b \<Longrightarrow> b < 2 ^ 64 \<Longrightarrow> (of_nat a :: u64) \<le> of_nat b"
  by (simp add: word_le_nat_alt unat_of_nat)

lemma send_piece:
  assumes "omap_find (clients s) k = Some c" and "streaming announced sent c" and "sent + length piece \<le> announced"
    and "piece \<noteq> []"
  shows "send_response_body k piece s = (Inr (), set_conn k
      (c\<lparr>c_len_actual := of_nat (sent + length piece), c_sent := c_sent c @ [piece]\<rparr>) s)"
proof -
  have "of_nat (sent + length piece) \<le> (of_nat announced :: u64)"
    using assms(2,3) by (intro of_nat_le_u64) (auto simp: streaming_def)
  then show ?thesis
    using assms
    by (simp add: send_response_body_def streaming_def Let_def run_then_do run_then_with run_get_conn check_def run_sock_send chunk_def)
qed

lemma stream_sent:
  assumes "streaming announced sent c" and "sent + remaining = announced"
  shows "\<exists>c'. stream_loop k remaining data (set_conn k c s) = (Inr (remaining - length data), set_conn k c' s) \<and>
    c_open c' \<and> c_headers_sent c' \<and> \<not> c_websocket c' \<and> c_keepalive c' = c_keepalive c \<and>
    concat (c_sent c') = concat (c_sent c) @ take remaining data"
  using assms
proof (induction remaining arbitrary: data c sent rule: less_induct)
  case (less remaining)
  show ?case
  proof (cases "remaining = 0 \<or> data = []")
    case True
    then show ?thesis
      using less.prems by (subst stream_loop.simps) (auto simp: streaming_def intro!: exI [of _ c])
  next
    case False
    define piece where "piece = take (min remaining k_chunk_size) data"
    have piece: "piece \<noteq> []" "length piece \<le> remaining" "remaining - length piece < remaining"
      using False by (auto simp: piece_def k_chunk_size_def)
    let ?c = "c\<lparr>c_len_actual := of_nat (sent + length piece), c_sent := c_sent c @ [piece]\<rparr>"
    have "send_response_body k piece (set_conn k c s) = (Inr (), set_conn k ?c (set_conn k c s))"
      using less.prems piece by (intro send_piece [of _ k c announced sent]) auto
    then have step: "stream_loop k remaining data (set_conn k c s) =
        stream_loop k (remaining - length piece) (drop (length piece) data) (set_conn k ?c s)"
      using False by (subst stream_loop.simps) (simp add: piece_def [symmetric] Let_def run_then_do)
    have "streaming announced (sent + length piece) ?c" "sent + length piece + (remaining - length piece) = announced"
      using less.prems piece(2) by (auto simp: streaming_def)
    from less.IH [OF piece(3) this, of "drop (length piece) data"]
    obtain c' where c': "stream_loop k (remaining - length piece) (drop (length piece) data) (set_conn k ?c s) =
        (Inr (remaining - length piece - length (drop (length piece) data)), set_conn k c' s)"
      "c_open c'" "c_headers_sent c'" "\<not> c_websocket c'" "c_keepalive c' = c_keepalive c"
      "concat (c_sent c') = concat (c_sent c) @ piece @ take (remaining - length piece) (drop (length piece) data)"
      by auto
    have "length piece \<le> length data" "piece = take (length piece) data"
      by (simp_all add: piece_def min_def)
    moreover have "take remaining data = take (length piece) data @ take (remaining - length piece) (drop (length piece) data)"
      using piece(2) take_add [of "length piece" "remaining - length piece" data] by simp
    ultimately show ?thesis
      using step c' by (intro exI [of _ c']) auto
  qed
qed

text \<open>Sending a file: its headers, what could be read of it, and the result.\<close>

definition header_sent :: "string \<Rightarrow> http_headers \<Rightarrow> nat \<Rightarrow> connection \<Rightarrow> string" where
  "header_sent status headers n c = response_header_text status headers (of_nat n) (c_keepalive c) (c_origin c)"

lemma header_nonempty: "response_header_text status headers n ka origin \<noteq> []"
  by (simp add: response_header_text_def)

lemma run_send_headers:
  assumes "omap_find (clients s) k = Some c" and "ready c"
  shows "send_response_headers k status headers n s = (Inr (), set_conn k
    (c\<lparr>c_headers_sent := True, c_len_actual := 0, c_len_headers := n,
       c_sent := c_sent c @ [response_header_text status headers n (c_keepalive c) (c_origin c)]\<rparr>) s)"
  using assms
  by (simp add: send_response_headers_def ready_def check_def run_then_do run_then_with run_get_conn run_sock_send
      chunk_def header_nonempty)

lemma file_streamed:
  assumes "omap_find (clients s) k = Some c" and "ready c" and "n < 2 ^ 64 - 1"
  shows "\<exists>c'. send_file_streaming (Some (int n, data)) k status headers s = (Inr (n \<le> length data), set_conn k c' s) \<and>
    c_open c' \<and> c_headers_sent c' \<and> \<not> c_websocket c' \<and> c_keepalive c' \<and>
    concat (c_sent c') = concat (c_sent c) @ header_sent status headers n c @ take n data"
proof -
  let ?c = "c\<lparr>c_headers_sent := True, c_len_actual := 0, c_len_headers := of_nat n,
       c_sent := c_sent c @ [response_header_text status headers (of_nat n) (c_keepalive c) (c_origin c)]\<rparr>"
  have "streaming n 0 ?c"
    using assms(2,3) by (simp add: streaming_def ready_def)
  from stream_sent [OF this, of n k data s] obtain c' where
    "stream_loop k n data (set_conn k ?c s) = (Inr (n - length data), set_conn k c' s)"
    "c_open c'" "c_headers_sent c'" "\<not> c_websocket c'" "c_keepalive c' = c_keepalive c"
    "concat (c_sent c') = concat (c_sent ?c) @ take n data"
    by auto
  moreover have "c_keepalive c"
    using assms(2) by (simp add: ready_def)
  ultimately show ?thesis
    using run_send_headers [OF assms(1,2)]
    by (intro exI [of _ c'])
      (simp add: send_file_streaming_def run_then_do run_then_with close_unless_keepalive_def run_get_conn only_if_def
        header_sent_def)
qed

lemma second_response_aborts:
  assumes "omap_find (clients s) k = Some c" and "c_headers_sent c"
  shows "send_response k status headers content False s = (Inl Aborted, s)"
  using assms
  by (simp add: send_response_def send_response_headers_def check_def run_then_do run_then_with run_get_conn only_if_def)

text \<open>
  Property C27. A file response announces the size of the file and sends what can be read of it up to that size. If the
  file has become shorter meanwhile, the router tries to answer once more with an error page, although the headers are
  already out: the check in \<open>SendResponseHeaders\<close> fails and the process is aborted.
\<close>

theorem file_response_on_the_wire:
  assumes "omap_find (clients s) k = Some c" and "ready c" and "n < 2 ^ 64 - 1"
    and "s_is_file r" and "fs_exists F (s_file_path r)" and "fs_stream F (s_file_path r) = Some (int n, data)"
  shows "\<exists>c'. response_send F r k s =
      (if n \<le> length data then Inr () else Inl Aborted, set_conn k c' s) \<and>
    concat (c_sent c') = concat (c_sent c) @
      header_sent (s_status r)
        (header ''Content-Type'' (get_mime_type (file_extension (s_file_path r))) # s_headers r) n c @ take n data"
proof -
  obtain c' where c': "send_file_streaming (Some (int n, data)) k (s_status r)
      (header ''Content-Type'' (get_mime_type (file_extension (s_file_path r))) # s_headers r) s =
      (Inr (n \<le> length data), set_conn k c' s)" "c_headers_sent c'"
    "concat (c_sent c') = concat (c_sent c) @ header_sent (s_status r)
      (header ''Content-Type'' (get_mime_type (file_extension (s_file_path r))) # s_headers r) n c @ take n data"
    using file_streamed [OF assms(1-3)] by blast
  have "send_error k 500 ''Failed to read file'' (set_conn k c' s) = (Inl Aborted, set_conn k c' s)"
    using c'(2) second_response_aborts [OF find_set_conn] unfolding send_error_def Let_def by blast
  then show ?thesis
    using c' assms(4-6)
    by (intro exI [of _ c']) (simp add: response_send_def stream_or_error_def run_then_with only_if_def)
qed

theorem file_response_on_the_wire_witness:
  "\<exists>c'. response_send
      \<lparr>fs_exists = \<lambda>p. True, fs_is_directory = \<lambda>p. Inr False, fs_canonical = Inr, fs_entries = \<lambda>p. None,
       fs_stream = \<lambda>p. Some (10, ''short'')\<rparr>
      (with_file ''/srv/a.txt'' new_response) 0 (one_client [] ()) = (Inl Aborted, set_conn 0 c' (one_client [] ()))"
proof -
  let ?F = "\<lparr>fs_exists = \<lambda>p. True, fs_is_directory = \<lambda>p. Inr False, fs_canonical = Inr, fs_entries = \<lambda>p. None,
       fs_stream = \<lambda>p. Some (10, ''short'')\<rparr>"
  have "omap_find (clients (one_client [] ())) 0 = Some (new_connection 8192)" "ready (new_connection 8192)"
    by (simp_all add: one_client_def new_connection_def ready_def)
  then show ?thesis
    using file_response_on_the_wire [of "one_client [] ()" 0 "new_connection 8192" 10 "with_file ''/srv/a.txt'' new_response"
        ?F "''short''"]
    by (auto simp: with_file_def)
qed

section \<open>Static files\<close>

lemma find_sub_start: "find_sub needle s = Some 0 \<longleftrightarrow> starts_with s needle"
  by (cases s) (auto simp: starts_with_def)

text \<open>The path that a request for a static file names.\<close>

definition requested_path :: "static_server \<Rightarrow> string \<Rightarrow> string" where
  "requested_path ss uri =
     (let relative = drop (length (ss_prefix ss)) uri
      in ss_root ss @ (if relative = [] \<or> hd relative \<noteq> slash then [slash] else []) @ relative)"

lemma file_path_requested:
  "starts_with uri (ss_prefix ss) \<Longrightarrow> get_file_path ss uri = give (requested_path ss uri)"
  by (auto simp: starts_with_def get_file_path_def requested_path_def Let_def not_less dest: arg_cong [of _ _ length])

text \<open>
  Property C28. A file is served only from the path that the request names below the root, or from its index file, and
  only if the canonical name of that path begins with the text of the canonical root. That is all that is checked: every
  file with such a name is served, also from a directory beside the root whose name continues the name of the root.
\<close>

theorem static_prefix_check:
  assumes "fs_canonical F (ss_root ss) = Inr root" and "starts_with (r_uri (x_request x)) (ss_prefix ss)"
    and "p = requested_path ss (r_uri (x_request x))"
  shows "(\<forall>r1 t. serve_file F ss x r s = (Inr r1, t) \<and> s_is_file r1 \<and> \<not> s_is_file r \<longrightarrow>
      t = s \<and> s_file_path r1 \<in> {p, p @ ''/'' @ ss_index_file ss} \<and>
      (\<exists>name. fs_canonical F p = Inr name \<and> starts_with name root)) \<and>
    (\<forall>suffix. fs_canonical F p = Inr (root @ suffix) \<and> fs_exists F p \<and> fs_is_directory F p = Inr False \<longrightarrow>
      serve_file F ss x r s =
        (Inr (with_file p (with_header ''Cache-Control'' (ss_cache_control ss) r)), s))"
proof -
  have valid: "is_valid_path F ss p = give (case fs_canonical F p of Inl e \<Rightarrow> False | Inr name \<Rightarrow> starts_with name root)"
    using assms(1) by (auto simp: is_valid_path_def find_sub_start split: sum.split)
  have serve: "serve_file F ss x r = (
     let serve = (\<lambda>path. give (with_file path (with_header ''Cache-Control'' (ss_cache_control ss) r)))
     in if \<not> (case fs_canonical F p of Inl e \<Rightarrow> False | Inr name \<Rightarrow> starts_with name root)
        then give (with_text ''Forbidden'' (set_status_code 403 r))
        else if \<not> fs_exists F p then give (with_text ''File Not Found'' (set_status_code 404 r))
        else case fs_is_directory F p of
            Inl e \<Rightarrow> throw (Thrown e)
          | Inr False \<Rightarrow> serve p
          | Inr True \<Rightarrow>
              let index_path = p @ ''/'' @ ss_index_file ss
              in if fs_exists F index_path then serve index_path
                 else if ss_listing ss then give (serve_directory_listing F ss p r)
                 else give (with_text ''Directory listing disabled'' (set_status_code 403 r)))"
    unfolding serve_file_def file_path_requested [OF assms(2)] assms(3) [symmetric] then_ended valid ..
  have no_file: "\<not> s_is_file (with_text t r')" "\<not> s_is_file (serve_directory_listing F ss p r)" for t r'
    by (simp_all add: with_text_def with_body_def with_html_def serve_directory_listing_def split: option.split)
  show ?thesis
    unfolding serve
    by (auto simp: Let_def no_file with_file_def starts_with_def split: if_splits sum.splits bool.splits)
qed

text \<open>A private directory beside the root, reached through the parent directory.\<close>

definition sibling_files :: file_system where
  "sibling_files = \<lparr>fs_exists = \<lambda>p. True, fs_is_directory = \<lambda>p. Inr False,
     fs_canonical = (\<lambda>p. if p = ''/srv/www'' then Inr ''/srv/www''
       else if p = ''/srv/www/../www-private/key'' then Inr ''/srv/www-private/key'' else Inl ''no such file''),
     fs_entries = \<lambda>p. None, fs_stream = \<lambda>p. None\<rparr>"

theorem static_prefix_check_witness:
  "serve_file sibling_files (new_static_server ''/srv/www'' ''/static'')
      (new_context 0 (new_request\<lparr>r_uri := ''/static/../www-private/key''\<rparr>)) new_response (one_client [] ()) =
    (Inr (with_file ''/srv/www/../www-private/key'' (with_header ''Cache-Control'' ''public, max-age=3600'' new_response)),
     one_client [] ())"
proof -
  let ?ss = "new_static_server ''/srv/www'' ''/static''"
    and ?x = "new_context 0 (new_request\<lparr>r_uri := ''/static/../www-private/key''\<rparr>)"
  have "requested_path ?ss ''/static/../www-private/key'' = ''/srv/www/../www-private/key''"
    "starts_with ''/static/../www-private/key'' ''/static''"
    by code_simp+
  then show ?thesis
    using static_prefix_check [of sibling_files ?ss "''/srv/www''" ?x "''/srv/www/../www-private/key''" new_response "one_client [] ()",
        THEN conjunct2, THEN spec, of "''-private/key''"]
    by (simp add: sibling_files_def new_static_server_def new_context_def)
qed

section \<open>Routed requests\<close>

text \<open>Routes whose handlers compute the response from the context: the first whose segments match the path answers.\<close>

type_synonym answer = "request_context \<Rightarrow> router_response \<Rightarrow> router_response"

fun first_answer ::
    "(http_method \<times> segment list \<times> answer) list \<Rightarrow> http_method \<Rightarrow> string list \<Rightarrow> (answer \<times> (string \<times> string) list) option" where
  "first_answer [] m parts = None"
| "first_answer ((verb, gs, f) # specs) m parts =
     (if verb = M_any \<or> verb = m
      then (case segments_bind gs parts of Some bs \<Rightarrow> Some (f, bs) | None \<Rightarrow> first_answer specs m parts)
      else first_answer specs m parts)"

definition computes :: "answer \<Rightarrow> 'h route_handler option" where
  "computes f = Some (\<lambda>x r. give (f x r))"

definition built ::
    "regex_lib \<Rightarrow> (http_method \<times> segment list \<times> answer) list \<Rightarrow> 'h route_handler option route list \<Rightarrow> bool" where
  "built L specs routes \<longleftrightarrow> list_all2 (\<lambda>(verb, gs, f) rt. list_all plain_segment gs \<and>
     make_route L verb (pattern_text gs) (computes f) = Some rt) specs routes"

definition bound_params :: "(string \<times> string) list \<Rightarrow> route_params" where
  "bound_params bs = fold (\<lambda>(n, v). omap_set n v) bs []"

lemma route_found:
  assumes "built L specs routes" and "list_all (\<lambda>p. slash \<notin> set p) parts"
  shows "case first_answer specs m parts of
      None \<Rightarrow> find_route L routes m (slashed parts) = None
    | Some (f, bs) \<Rightarrow> \<exists>rt. find_route L routes m (slashed parts) = Some (rt, bound_params bs) \<and>
        rt_handler rt = computes f"
  using assms(1)
proof (induction specs arbitrary: routes)
  case Nil
  then show ?case
    by (simp add: built_def)
next
  case (Cons spec specs)
  obtain verb gs f where spec: "spec = (verb, gs, f)"
    by (cases spec)
  obtain rt rts where routes: "routes = rt # rts" and rt: "make_route L verb (pattern_text gs) (computes f) = Some rt"
    and plain: "list_all plain_segment gs" and "built L specs rts"
    using Cons.prems by (auto simp: built_def spec list_all2_Cons1)
  have "rt_handler rt = computes f"
    using rt by (auto simp: make_route_def)
  then show ?case
    using Cons.IH [OF \<open>built L specs rts\<close>] route_matched [OF plain assms(2) rt, of m]
    by (auto simp: spec routes bound_params_def split: option.splits prod.splits)
qed

definition not_found_page :: router_response where
  "not_found_page = with_html ''<html><body><h1>404 Not Found</h1></body></html>'' (set_status_text ''404 Not Found'' new_response)"

definition answer_to ::
    "(http_method \<times> segment list \<times> answer) list \<Rightarrow> nat \<Rightarrow> http_request \<Rightarrow> string list \<Rightarrow> router_response" where
  "answer_to specs k req parts =
     (case first_answer specs (string_to_http_method (r_method req)) parts of
        Some (f, bs) \<Rightarrow> f ((new_context k req)\<lparr>x_params := bound_params bs\<rparr>) new_response
      | None \<Rightarrow> not_found_page)"

lemma handled_by_routes:
  assumes "built L specs routes" and "list_all (\<lambda>p. slash \<notin> set p) parts" and "path_of (r_uri req) = slashed parts"
    and "a = answer_to specs k req parts" and "\<not> s_is_file a"
    and "send_response k (s_status a) (s_headers a) (s_body a) False s = (Inr (), t)"
  shows "on_http_request (router_handler L F (new_router\<lparr>ro_routes := routes\<rparr>)) k req s = (Inr (), t)"
proof -
  define R where "R = (new_router\<lparr>ro_routes := routes\<rparr> :: 'a router)"
  have R: "ro_routes R = routes" "\<not> ro_cors R" "ro_not_found R = None"
    by (simp_all add: R_def new_router_def)
  have "show_int 404 = ''404''"
    by code_simp
  then have error: "send_error k 404 ''Not Found'' = send_response k (s_status not_found_page) (s_headers not_found_page) (s_body not_found_page) False"
    by (simp add: send_error_def not_found_page_def with_html_def with_body_def with_content_type_def with_header_def
        set_status_text_def new_response_def)
  have x: "x_request (new_context k req) = req" "x_conn (new_context k req) = k"
    by (simp_all add: new_context_def)
  have "serve_routes L F R (new_context k req) new_response s = (Inr (), t)"
  proof (cases "first_answer specs (string_to_http_method (r_method req)) parts")
    case None
    then show ?thesis
      using route_found [OF assms(1,2), of "string_to_http_method (r_method req)"] assms(4,6)
      by (simp add: serve_routes_def R x assms(3) error answer_to_def)
  next
    case (Some fb)
    then show ?thesis
      using route_found [OF assms(1,2), of "string_to_http_method (r_method req)"] assms(4-6)
      by (cases fb) (auto simp: serve_routes_def R x assms(3) answer_to_def execute_route_def computes_def response_send_def)
  qed
  then have "route_request L F R k req s = (Inr (), t)"
    by (simp add: route_request_def R_def new_router_def)
  then show ?thesis
    unfolding R_def [symmetric] by (simp add: router_handler_def handle_request_def run_then_with)
qed

text \<open>
  Property C26. A request that reaches a router whose handlers compute responses is answered with the response of the
  first route whose method and segments match the path before the query, called with the parts of the path under the
  names of its parameters, and with the page 404 if there is none; the connection is ready for the next request.
\<close>

theorem routed_request_answered:
  assumes "plain_request m u hs" and "m \<noteq> ''OPTIONS''" and "fits c m u hs b"
    and "omap_find (clients s) k = Some c" and "ready c" and "c_rxbuf c = request_text m u hs b @ rest"
    and "built L specs routes" and "list_all (\<lambda>p. slash \<notin> set p) parts" and "path_of u = slashed parts"
    and "a = answer_to specs k (parsed_request m u hs b) parts" and "\<not> s_is_file a"
  shows "\<exists>c'. parse_one_http_request (router_handler L F (new_router\<lparr>ro_routes := routes\<rparr>)) k s =
      (Inr (length (request_text m u hs b)), set_conn k c' s) \<and> ready c' \<and> c_rxbuf c' = c_rxbuf c \<and>
    concat (c_sent c') = concat (c_sent c) @
      response_header_text (s_status a) (s_headers a) (of_nat (length (s_body a))) True ''*'' @ s_body a"
proof -
  let ?s = "set_conn k (c\<lparr>c_origin := ''*''\<rparr>) s"
  define c1 where "c1 = c\<lparr>c_origin := ''*'', c_headers_sent := True, c_len_headers := of_nat (length (s_body a)),
    c_len_actual := of_nat (length (s_body a)),
    c_sent := c_sent c @ chunk (response_header_text (s_status a) (s_headers a) (of_nat (length (s_body a))) True ''*'') @ chunk (s_body a)\<rparr>"
  have req: "path_of (r_uri (parsed_request m u hs b)) = slashed parts"
    using assms(9) by (simp add: parsed_request_def)
  have ready: "ready (c\<lparr>c_origin := ''*''\<rparr>)"
    using assms(5) by (simp add: ready_def)
  have "send_response k (s_status a) (s_headers a) (s_body a) False ?s = (Inr (), set_conn k c1 s)"
    by (subst run_send_response [OF find_set_conn ready]) (simp add: c1_def)
  then have "on_http_request (router_handler L F (new_router\<lparr>ro_routes := routes\<rparr>)) k (parsed_request m u hs b) ?s =
      (Inr (), set_conn k c1 s)"
    by (rule handled_by_routes [OF assms(7,8) req assms(10,11)])
  then have "parse_one_http_request (router_handler L F (new_router\<lparr>ro_routes := routes\<rparr>)) k s =
      (Inr (length (request_text m u hs b)), set_conn k (c1\<lparr>c_headers_sent := False\<rparr>) s)"
    using whole_request [OF assms(1,4,6,3), of "router_handler L F (new_router\<lparr>ro_routes := routes\<rparr>)"] assms(2)
    by (simp add: run_then_do run_then_with end_request_def run_get_conn run_on_conn only_if_def c1_def)
  then show ?thesis
    using assms(5) by (intro exI [of _ "c1\<lparr>c_headers_sent := False\<rparr>"]) (simp add: c1_def ready_def chunk_def)
qed

theorem routed_request_answered_witness:
  "\<exists>routes c'. parse_one_http_request (router_handler no_library sibling_files (new_router\<lparr>ro_routes := routes\<rparr>)) 0
      (one_client (request_text ''GET'' ''/users/7?x=1'' [] []) ()) =
      (Inr (length (request_text ''GET'' ''/users/7?x=1'' [] [])),
       set_conn 0 c' (one_client (request_text ''GET'' ''/users/7?x=1'' [] []) ())) \<and>
    concat (c_sent c') = response_header_text ''200 OK'' [] 1 True ''*'' @ ''7''"
proof -
  define f :: answer where "f = (\<lambda>x. with_body (get_param x ''id''))"
  let ?gs = "[Seg_text ''users'', Seg_colon ''id'']" and ?text = "request_text ''GET'' ''/users/7?x=1'' [] []"
  let ?req = "parsed_request ''GET'' ''/users/7?x=1'' [] []" and ?specs = "[(M_get, ?gs, f)]"
  let ?c = "(new_connection 8192)\<lparr>c_rxbuf := ?text\<rparr>"
  have plain: "list_all plain_segment ?gs" "plain_request ''GET'' ''/users/7?x=1'' []" "path_of ''/users/7?x=1'' = slashed [''users'', ''7'']"
    "length ?text = 48" "string_to_http_method ''GET'' = M_get"
    by code_simp+
  obtain rt :: "unit route_handler option route" where "make_route no_library M_get (pattern_text ?gs) (computes f) = Some rt"
    using pattern_compiles [OF plain(1), of no_library] by (auto simp: make_route_def)
  then have routes: "built no_library ?specs [rt]"
    using plain(1) by (simp add: built_def)
  have conn: "omap_find (clients (one_client ?text ())) 0 = Some ?c" "ready ?c" "fits ?c ''GET'' ''/users/7?x=1'' [] []"
    "c_rxbuf ?c = ?text @ []"
    using plain(4) by (simp_all add: one_client_def new_connection_def ready_def fits_def)
  have answer: "answer_to ?specs 0 ?req [''users'', ''7''] = new_response\<lparr>s_body := ''7''\<rparr>"
    using plain(5)
    by (simp add: answer_to_def parsed_request_def f_def get_param_def params_get_def bound_params_def with_body_def new_response_def)
  let ?a = "new_response\<lparr>s_body := ''7''\<rparr>"
  have "\<not> s_is_file ?a" "''GET'' \<noteq> ''OPTIONS''" "list_all (\<lambda>p. slash \<notin> set p) [''users'', ''7'']"
    by (simp_all add: new_response_def)
  from routed_request_answered [OF plain(2) this(2) conn(3,1,2,4) routes this(3) plain(3) answer [symmetric] this(1), of sibling_files]
  show ?thesis
    by (intro exI [of _ "[rt]"], elim exE) (auto simp: new_response_def new_connection_def)
qed

end
