(* ===== verification/Json_Roundtrip.thy ===== *)
theory Json_Roundtrip
  imports Json_Parsing
begin

text \<open>
  What \<open>dump\<close> writes, \<open>parse\<close> reads back.

  Every piece of text is followed by an arbitrary rest that ends it (\<open>ends_value\<close>), so the
  lemmas compose: characters into strings, texts of elements into the array and object loops,
  and those by induction on the value. Floating-point numbers are printed and read by the C
  library; what is needed of it is that the text has a fraction (\<open>decimal_text\<close>) and reads back
  as the same \<open>double\<close>.
\<close>

section \<open>What may follow a value\<close>

definition ends_value :: "string \<Rightarrow> bool" where
  "ends_value rest = (case rest of [] \<Rightarrow> True
     | c # _ \<Rightarrow> c = CHR '','' \<or> c = CHR '']'' \<or> c = CHR ''}'' \<or> c = CHR 0x0A)"

definition blank :: "string \<Rightarrow> bool" where
  "blank w \<longleftrightarrow> list_all is_space w"

lemma skip_blank [simp]: "blank w \<Longrightarrow> skip_ws (w @ s) = skip_ws s"
  by (induction w) (auto simp: blank_def)

lemma blank_simps [simp]:
  "blank []" "blank (spaces n)" "blank (CHR 0x0A # w) \<longleftrightarrow> blank w" "blank [CHR '' '']"
  by (auto simp: blank_def spaces_def is_space_def list_all_iff)

lemma ends_value_digit: "ends_value rest \<Longrightarrow> dropWhile is_digit rest = rest \<and> takeWhile is_digit rest = []"
  by (cases rest) (auto simp: ends_value_def is_digit_def)

lemma ends_value_starts [simp]: "ends_value rest \<Longrightarrow> \<not> starts_digit rest"
  by (auto simp: ends_value_def starts_digit_def is_digit_def split: list.splits)

section \<open>Strings\<close>

lemma hex_value_hex4: "n < 65536 \<Longrightarrow> hex_value (hex4 n) = n"
proof -
  assume "n < 65536"
  then have small: "n div 4096 < 16"
    by simp
  then have top: "n div 4096 mod 16 = n div 4096"
    by simp
  moreover have "n div 256 = n div 16 div 16" "n div 4096 = n div 16 div 16 div 16"
    by (simp_all flip: div_mult2_eq)
  ultimately have "16 * (16 * (16 * (n div 4096 mod 16) + n div 256 mod 16) + n div 16 mod 16) + n mod 16 = n"
    by (simp only:) presburger
  with top small show ?thesis
    by (simp add: hex4_def hex_value_def)
qed

lemma take_hex4_hex4: "n < 65536 \<Longrightarrow> take_hex4 e (hex4 n @ t) = Inr (n, t)"
  using hex_value_hex4 [of n] by (simp add: hex4_def)

lemma string_loop_char:
  "string_loop (Suc n) res (dump_char c @ t) = string_loop n (res @ [c]) t"
proof (cases "(of_char c :: nat) < 0x20 \<and> dump_char c = CHR 0x5C # CHR ''u'' # hex4 (of_char c)")
  case True
  have "take_hex4 Invalid_unicode (hex4 (of_char c) @ t) = Inr (of_char c, t)"
    using True by (intro take_hex4_hex4) simp
  then have "parse_unicode (hex4 (of_char c) @ t) = Inr ([c], t)"
    using True by (simp add: parse_unicode_def utf8_encode_def)
  with True show ?thesis
    by (simp add: simple_escape_def)
next
  case False
  then show ?thesis
    by (auto simp: dump_char_def simple_escape_def split: if_splits)
qed

lemma dump_char_not_Nil [simp]: "dump_char c \<noteq> []"
  by (simp add: dump_char_def)

lemma length_concat_dump: "length s \<le> length (concat (map dump_char s))"
proof (induction s)
  case (Cons c s)
  have "1 \<le> length (dump_char c)"
    by (cases "dump_char c") (auto dest: dump_char_not_Nil [THEN notE])
  with Cons show ?case
    by simp
qed simp

lemma string_loop_dump:
  "length s < n \<Longrightarrow>
     string_loop n res (concat (map dump_char s) @ CHR 0x22 # t) = Inr (res @ s, t)"
proof (induction s arbitrary: n res)
  case Nil
  then show ?case by (cases n) simp_all
next
  case (Cons c s)
  then obtain m where "n = Suc m" "length s < m"
    by (cases n) auto
  with Cons.IH [of m "res @ [c]"] show ?case
    by (simp add: string_loop_char)
qed

lemma parse_dump_string:
  "depth \<le> max_parse_depth \<Longrightarrow> parse_string depth (dump_string s @ t) = Inr (s, t)"
  using length_concat_dump [of s] string_loop_dump [of s]
  by (simp add: parse_string_def dump_string_def)

section \<open>Numbers\<close>

lemma takeWhile_digits: "list_all is_digit ds \<Longrightarrow> ends_value rest \<Longrightarrow>
    takeWhile is_digit (ds @ rest) = ds \<and> dropWhile is_digit (ds @ rest) = rest"
  by (induction ds) (auto simp: ends_value_digit)

lemma scan_int_show_nat: "ends_value rest \<Longrightarrow> scan_int (show_nat n @ rest) = Inr (show_nat n, rest)"
  using show_nat_Cons [of n] takeWhile_digits [of _ rest]
  by (cases "n = 0") (auto simp: scan_int_def)

lemma scan_frac_end: "ends_value rest \<Longrightarrow> scan_frac rest = Inr ([], rest)"
  by (auto simp: scan_frac_def ends_value_def split: list.splits)

lemma scan_exp_end: "ends_value rest \<Longrightarrow> scan_exp rest = Inr ([], rest)"
  by (auto simp: scan_exp_def ends_value_def split: list.splits)

lemma split_sign_show_int:
  "split_sign (show_int i @ rest) = (if i < 0 then ''-'' else [], show_nat (nat \<bar>i\<bar>) @ rest)"
  using show_nat_Cons [of "nat i"] by (auto simp: split_sign_def show_int_def is_digit_def)

lemma stoll_show_int: "- (2 ^ 63) \<le> i \<Longrightarrow> i < 2 ^ 63 \<Longrightarrow> stoll (show_int i) = Some i"
  using show_nat_Cons [of "nat i"] digits_value_show_nat [of "nat i"]
  by (auto simp: stoll_def show_int_def is_digit_def simp del: digits_value_show_nat
      split: list.splits) (simp_all)

lemma parse_show_int:
  assumes "ends_value rest" and "- (2 ^ 63) \<le> i" and "i < 2 ^ 63"
  shows "parse_number stod (show_int i @ rest) = Inr (JInt (word_of_int i), rest)"
proof -
  have "(if i < 0 then ''-'' else []) @ show_nat (nat \<bar>i\<bar>) = show_int i"
    by (simp add: show_int_def)
  with assms show ?thesis
    by (simp add: parse_number_steps split_sign_show_int scan_int_show_nat scan_frac_end
        scan_exp_end number_value_def stoll_show_int)
qed

lemma sint64_bounds: "- (2 ^ 63) \<le> sint (w :: u64)" "sint (w :: u64) < 2 ^ 63"
  using sint_greater_eq [of w] sint_less [of w] by simp_all

text \<open>A JSON number with a fraction, the whole of \<open>s\<close>.\<close>

definition decimal_text :: "string \<Rightarrow> bool" where
  "decimal_text s =
     (case scan_int (snd (split_sign s)) of
        Inl _ \<Rightarrow> False
      | Inr (_, s2) \<Rightarrow>
          (case scan_frac s2 of
             Inl _ \<Rightarrow> False
           | Inr (fp, s3) \<Rightarrow>
               fp \<noteq> [] \<and> (case scan_exp s3 of Inl _ \<Rightarrow> False | Inr (_, s4) \<Rightarrow> s4 = [])))"

lemma takeWhile_end:
  "ends_value rest \<Longrightarrow> takeWhile is_digit (s @ rest) = takeWhile is_digit s \<and>
     dropWhile is_digit (s @ rest) = dropWhile is_digit s @ rest"
  by (induction s) (auto simp: ends_value_digit)

lemma starts_digit_end: "ends_value rest \<Longrightarrow> starts_digit (s @ rest) = starts_digit s"
  using ends_value_starts [of rest] by (cases s) (auto simp: starts_digit_def)

lemma starts_digit_simps [simp]: "\<not> starts_digit []" "starts_digit (c # s) \<longleftrightarrow> is_digit c"
  by (simp_all add: starts_digit_def)

lemma scan_int_append:
  "scan_int s = Inr (ip, s2) \<Longrightarrow> ends_value rest \<Longrightarrow> scan_int (s @ rest) = Inr (ip, s2 @ rest)"
  using takeWhile_end [of rest] starts_digit_end [of rest]
  by (cases s) (auto simp: scan_int_def split: if_splits)

lemma scan_frac_append:
  "scan_frac s = Inr (fp, s2) \<Longrightarrow> ends_value rest \<Longrightarrow> scan_frac (s @ rest) = Inr (fp, s2 @ rest)"
  using takeWhile_end [of rest] starts_digit_end [of rest] scan_frac_end [of rest]
  by (cases s) (auto simp: scan_frac_def split: if_splits)

lemma scan_exp_append:
  assumes "scan_exp s = Inr (ep, s2)" and "ends_value rest"
  shows "scan_exp (s @ rest) = Inr (ep, s2 @ rest)"
proof (cases s)
  case Nil
  then show ?thesis
    using assms scan_exp_end [of rest] by (simp add: scan_exp_def)
next
  case (Cons c r)
  have no_sign: "(case rest of [] \<Rightarrow> ([], rest)
      | d # r' \<Rightarrow> if d = CHR ''+'' \<or> d = CHR ''-'' then ([d], r') else ([], rest)) = ([], rest)"
    using assms(2) by (auto simp: ends_value_def split: list.splits)
  show ?thesis
    using assms Cons no_sign takeWhile_end [OF assms(2)] starts_digit_end [OF assms(2)]
    by (cases r) (auto simp: scan_exp_def Let_def split: if_splits)
qed

lemma split_sign_append:
  "snd (split_sign s) \<noteq> [] \<Longrightarrow>
     split_sign (s @ rest) = (fst (split_sign s), snd (split_sign s) @ rest)"
  by (cases s) (auto simp: split_sign_def)

lemma scan_int_text: "scan_int s = Inr (ip, s2) \<Longrightarrow> s = ip @ s2"
  by (auto simp: scan_int_def split: list.splits if_splits)

lemma scan_frac_text: "scan_frac s = Inr (fp, s2) \<Longrightarrow> s = fp @ s2"
  by (auto simp: scan_frac_def split: list.splits if_splits)

lemma scan_exp_text: "scan_exp s = Inr (ep, s2) \<Longrightarrow> s = ep @ s2"
  by (auto simp: scan_exp_def Let_def split: list.splits if_splits)

lemma split_sign_text: "fst (split_sign s) @ snd (split_sign s) = s"
  by (auto simp: split_sign_def split: list.splits)

lemma parse_decimal_text:
  assumes "decimal_text s" and "stod s = Some d" and "ends_value rest"
  shows "parse_number stod (s @ rest) = Inr (JFloat d, rest)"
proof -
  obtain ip s2 where i: "scan_int (snd (split_sign s)) = Inr (ip, s2)"
    using assms(1) by (auto simp: decimal_text_def split: sum.splits)
  obtain fp s3 where f: "scan_frac s2 = Inr (fp, s3)"
    using assms(1) i by (auto simp: decimal_text_def split: sum.splits)
  obtain ep where e: "scan_exp s3 = Inr (ep, [])" and "fp \<noteq> []"
    using assms(1) i f by (auto simp: decimal_text_def split: sum.splits)
  note steps = i f e \<open>fp \<noteq> []\<close>
  have "snd (split_sign s) \<noteq> []"
    using steps(1) by (auto simp: scan_int_def)
  moreover have "fst (split_sign s) @ ip @ fp @ ep = s"
    using scan_int_text [OF i] scan_frac_text [OF f] scan_exp_text [OF e]
      split_sign_text [of s] by simp
  ultimately show ?thesis
    using assms steps scan_int_append [OF i] scan_frac_append [OF f]
      scan_exp_append [OF e]
    by (simp add: parse_number_steps split_sign_append number_value_def)
qed

lemma decimal_text_hd: "decimal_text s \<Longrightarrow> \<exists>c t. s = c # t \<and> (is_digit c \<or> c = CHR ''-'')"
  by (cases s) (auto simp: decimal_text_def split_sign_def scan_int_def split: if_splits sum.splits)

section \<open>Elements and members\<close>

text \<open>
  The loops see the texts of the elements with \<open>sep\<close> before every element but the first, then the
  blank text \<open>wc\<close> and the closing bracket.
\<close>

definition tail_text :: "string \<Rightarrow> (string \<times> 'a) list \<Rightarrow> string" where
  "tail_text w ps = concat (map (\<lambda>(x, _). CHR '','' # w @ x) ps)"

lemma tail_text_simps [simp]:
  "tail_text w [] = []" "tail_text w ((x, v) # ps) = CHR '','' # w @ x @ tail_text w ps"
  by (simp_all add: tail_text_def)

definition reads :: "(string \<Rightarrow> parse_error + (json \<times> string)) \<Rightarrow> string \<Rightarrow> json \<Rightarrow> bool" where
  "reads pv x v \<longleftrightarrow>
     (\<forall>r. ends_value r \<longrightarrow> pv (x @ r) = Inr (v, r)) \<and>
     (\<exists>c t. x = c # t \<and> \<not> is_space c \<and> c \<noteq> CHR '']'')"

lemma ends_value_tail:
  assumes "wc = [] \<or> hd wc = CHR 0x0A" and "c = CHR '']'' \<or> c = CHR ''}''"
  shows "ends_value (tail_text w ps @ wc @ c # r)"
  using assms by (cases ps; cases wc) (auto simp: ends_value_def)

lemma array_loop_tail:
  assumes "blank w" and "blank wc" and "wc = [] \<or> hd wc = CHR 0x0A"
  shows "reads pv x v \<Longrightarrow> (\<forall>(y, u) \<in> set ps. reads pv y u) \<Longrightarrow> length ps + 1 < n \<Longrightarrow>
     array_loop pv n acc (x @ tail_text w ps @ wc @ CHR '']'' # r) =
       Inr (acc @ v # map snd ps, r)"
proof (induction ps arbitrary: n acc x v)
  case Nil
  then obtain m where "n = Suc (Suc m)"
    by (cases n; cases "n - 1") auto
  moreover have "pv (x @ wc @ CHR '']'' # r) = Inr (v, wc @ CHR '']'' # r)"
    using Nil.prems(1) ends_value_tail [OF assms(3), of "CHR '']''" w "[]" r]
    by (simp add: reads_def)
  ultimately show ?case
    using Nil.prems(1) assms(2) by (auto simp: reads_def is_space_def)
next
  case (Cons p ps)
  obtain y u where p: "p = (y, u)"
    by (cases p)
  obtain m where n: "n = Suc m"
    using Cons.prems(3) by (cases n) auto
  have "pv (x @ tail_text w (p # ps) @ wc @ CHR '']'' # r) =
      Inr (v, tail_text w (p # ps) @ wc @ CHR '']'' # r)"
    using Cons.prems(1) ends_value_tail [OF assms(3), of "CHR '']''" w "p # ps" r]
    by (simp add: reads_def)
  moreover obtain c t where y: "y = c # t" "\<not> is_space c" "c \<noteq> CHR '']''"
    using Cons.prems(2) by (auto simp: p reads_def)
  moreover have "array_loop pv m (acc @ [v]) (y @ tail_text w ps @ wc @ CHR '']'' # r) =
      Inr ((acc @ [v]) @ u # map snd ps, r)"
    using Cons.prems by (intro Cons.IH) (auto simp: p n)
  ultimately show ?case
    using Cons.prems(1) assms(1) by (auto simp: reads_def p n is_space_def)
qed

lemma omap_set_last:
  "\<forall>k' \<in> fst ` set m. k' < k \<Longrightarrow> omap_set k v m = m @ [(k, v)] \<and> omap_find m k = None"
  by (induction k v m rule: omap_set.induct) (auto simp: omap_find_def)

text \<open>A member: the key, the text of its value, the value.\<close>

definition member_text :: "string \<Rightarrow> string \<times> string \<times> json \<Rightarrow> string" where
  "member_text b = (\<lambda>(k, x, v). dump_string k @ CHR '':'' # b @ x)"

lemma object_loop_member:
  assumes "depth < max_parse_depth" and "blank b" and "reads pv x v"
    and "\<forall>k' \<in> fst ` set obj. k' < k" and "ends_value rest"
  shows "object_loop pv depth (Suc n) obj (member_text b (k, x, v) @ rest) =
     (case skip_ws rest of
        [] \<Rightarrow> Inl Eof_in_object
      | f # s4 \<Rightarrow>
          if f = CHR '','' then
            (case skip_ws s4 of
               [] \<Rightarrow> Inl Trailing_comma_object
             | g # s5 \<Rightarrow>
                 if g = CHR ''}'' then Inl Trailing_comma_object
                 else object_loop pv depth n (obj @ [(k, v)]) (g # s5))
          else if f = CHR ''}'' then object_loop pv depth n (obj @ [(k, v)]) (f # s4)
          else Inl Expected_comma_object)"
proof -
  obtain q where q: "dump_string k = CHR 0x22 # q"
    by (simp add: dump_string_def)
  have str: "parse_string (Suc depth) (CHR 0x22 # q @ t) = Inr (k, t)" for t
    using parse_dump_string [of "Suc depth" k t] assms(1) by (simp add: q)
  have colon: "skip_ws (CHR '':'' # t) = CHR '':'' # t" for t
    by (simp add: is_space_def)
  have val: "pv (skip_ws (b @ x @ rest)) = Inr (v, rest)"
    using assms(2,3,5) by (auto simp: reads_def)
  show ?thesis
    using omap_set_last [OF assms(4), of v]
    by (simp add: member_text_def q str colon val del: skip_ws.simps split: list.split)
qed

lemma object_loop_tail:
  assumes "depth < max_parse_depth" and "blank b" and "blank w" and "blank wc"
    and "wc = [] \<or> hd wc = CHR 0x0A"
  shows "(\<forall>(k, x, v) \<in> set (p # ps). reads pv x v) \<Longrightarrow>
     sorted_wrt (<) (map fst obj @ map fst (p # ps)) \<Longrightarrow> length ps + 1 < n \<Longrightarrow>
     object_loop pv depth n obj (member_text b p @
        tail_text w (map (\<lambda>m. (member_text b m, ())) ps) @ wc @ CHR ''}'' # r) =
       Inr (obj @ map (\<lambda>(k, x, v). (k, v)) (p # ps), r)"
proof (induction ps arbitrary: n obj p)
  case Nil
  obtain k x v where p: "p = (k, x, v)"
    by (cases p)
  obtain m where n: "n = Suc (Suc m)"
    using Nil.prems(3) by (cases n; cases "n - 1") auto
  have "ends_value (wc @ CHR ''}'' # r)"
    using ends_value_tail [OF assms(5), of "CHR ''}''" w "[]" r] by simp
  moreover have "\<forall>k' \<in> fst ` set obj. k' < k" and "reads pv x v"
    using Nil.prems(1,2) by (auto simp: p sorted_wrt_append)
  ultimately show ?case
    using assms by (simp add: p n object_loop_member is_space_def)
next
  case (Cons p' ps)
  obtain k x v where p: "p = (k, x, v)"
    by (cases p)
  obtain m where n: "n = Suc m" "length ps + 1 < m"
    using Cons.prems(3) by (cases n) auto
  let ?rest = "tail_text w (map (\<lambda>m. (member_text b m, ())) (p' # ps)) @ wc @ CHR ''}'' # r"
  have "ends_value ?rest"
    using ends_value_tail [OF assms(5)] by blast
  moreover have "\<forall>k' \<in> fst ` set obj. k' < k" and "reads pv x v"
    using Cons.prems(1,2) by (auto simp: p sorted_wrt_append)
  moreover obtain q where q: "member_text b p' = CHR 0x22 # q"
    by (cases p') (simp add: member_text_def dump_string_def)
  moreover have "object_loop pv depth m (obj @ [(k, v)]) (member_text b p' @
        tail_text w (map (\<lambda>m. (member_text b m, ())) ps) @ wc @ CHR ''}'' # r) =
       Inr ((obj @ [(k, v)]) @ map (\<lambda>(k, x, v). (k, v)) (p' # ps), r)"
    using Cons.prems(1,2) n(2) by (intro Cons.IH) (auto simp: p sorted_wrt_append)
  ultimately show ?case
    using assms by (simp add: p n object_loop_member is_space_def)
qed

section \<open>Values\<close>

fun json_depth :: "json \<Rightarrow> nat" where
  "json_depth (JArray a) = (if a = [] then 0 else Suc (foldr max (map json_depth a) 0))"
| "json_depth (JObject m) = (if m = [] then 0 else Suc (foldr max (map (\<lambda>(_, v). json_depth v) m) 0))"
| "json_depth _ = 0"

fun floats_of :: "json \<Rightarrow> f64 list" where
  "floats_of (JFloat f) = [f]"
| "floats_of (JArray a) = concat (map floats_of a)"
| "floats_of (JObject m) = concat (map (\<lambda>(_, v). floats_of v) m)"
| "floats_of _ = []"

lemma foldr_max_ge: "x \<in> set xs \<Longrightarrow> x \<le> foldr max xs (0 :: nat)"
  by (induction xs) auto

lemma json_depth_elem: "v \<in> set a \<Longrightarrow> json_depth v < json_depth (JArray a)"
  using foldr_max_ge [of "json_depth v" "map json_depth a"] by auto

lemma json_depth_member: "(k, v) \<in> set m \<Longrightarrow> json_depth v < json_depth (JObject m)"
  using foldr_max_ge [of "json_depth v" "map (\<lambda>(_, v). json_depth v) m"] by force

lemma join_with_tail:
  "join_with (CHR '','' # s) (x # xs) = x @ concat (map (\<lambda>y. CHR '','' # s @ y) xs)"
  by (induction xs arbitrary: x) simp_all

definition item_break :: "nat \<Rightarrow> nat \<Rightarrow> string" where
  "item_break indent depth = (if indent > 0 then CHR 0x0A # spaces (indent * depth) else [])"

lemma item_break_blank [simp]: "blank (item_break indent depth)"
  by (simp add: item_break_def)

lemma item_break_hd: "item_break indent depth = [] \<or> hd (item_break indent depth) = CHR 0x0A"
  by (simp add: item_break_def)

lemma dump_items_nil: "dump_items oc cc depth indent [] = [oc, cc]"
  by (simp add: dump_items_def)

lemma dump_items_tail:
  "dump_items oc cc depth indent (x # xs) =
     oc # item_break indent (depth + 1) @ x @
       tail_text (item_break indent (depth + 1)) (map (\<lambda>y. (y, u y)) xs) @ item_break indent depth @ [cc]"
  by (simp add: dump_items_def item_break_def join_with_tail tail_text_def comp_def)

lemma length_tail_text: "length ps \<le> length (tail_text w ps)"
  by (induction ps) auto

lemma reads_length: "reads pv x v \<Longrightarrow> 0 < length x"
  by (auto simp: reads_def)

lemma parse_array_reads:
  assumes "depth \<le> max_parse_depth" and "\<forall>v \<in> set a. reads pv (f v) v"
  shows "parse_array pv depth (dump_items CHR ''['' CHR '']'' k indent (map f a) @ r) = Inr (JArray a, r)"
proof (cases a)
  case Nil
  with assms(1) show ?thesis
    by (simp add: dump_items_nil parse_array_def is_space_def)
next
  case (Cons v vs)
  let ?w = "item_break indent (k + 1)" and ?wc = "item_break indent k"
  let ?ps = "map (\<lambda>v. (f v, v)) vs"
  let ?body = "f v @ tail_text ?w ?ps @ ?wc @ CHR '']'' # r"
  have layout: "dump_items CHR ''['' CHR '']'' k indent (map f a) @ r = CHR ''['' # ?w @ ?body"
    by (simp add: Cons dump_items_def item_break_def join_with_tail tail_text_def comp_def)
  have v: "reads pv (f v) v" and vs: "\<forall>(y, u) \<in> set ?ps. reads pv y u"
    using assms(2) by (auto simp: Cons)
  have fuel: "length ?ps + 1 < Suc (length (?w @ ?body))"
    using length_tail_text [of ?ps ?w] reads_length [OF v] by simp
  have "skip_ws (?w @ ?body) = ?body"
    using v by (auto simp: reads_def)
  moreover have "array_loop pv (Suc (length (?w @ ?body))) [] ?body = Inr ([] @ v # map snd ?ps, r)"
    by (intro array_loop_tail v vs fuel item_break_blank item_break_hd)
  ultimately show ?thesis
    unfolding parse_array_def layout
    using assms(1) by (simp add: Cons comp_def del: append_assoc array_loop.simps)
qed

lemma parse_object_reads:
  assumes "m \<noteq> [] \<longrightarrow> depth < max_parse_depth" and "depth \<le> max_parse_depth"
    and "sorted_wrt (<) (map fst m)" and "\<forall>(k, v) \<in> set m. reads pv (f v) v"
  shows "parse_object pv depth (dump_items CHR ''{'' CHR ''}'' k indent
      (map (\<lambda>(k, v). dump_string k @ (if indent > 0 then '': '' else '':'') @ f v) m) @ r) =
    Inr (JObject m, r)"
proof (cases m)
  case Nil
  with assms(2) show ?thesis
    by (simp add: dump_items_nil parse_object_def is_space_def)
next
  case (Cons e es)
  let ?w = "item_break indent (k + 1)" and ?wc = "item_break indent k"
  let ?b = "if indent > 0 then '' '' else []"
  let ?p = "\<lambda>(k, v). (k, f v, v)"
  let ?ps = "map ?p es"
  let ?body = "member_text ?b (?p e) @
    tail_text ?w (map (\<lambda>m. (member_text ?b m, ())) ?ps) @ ?wc @ CHR ''}'' # r"
  have member: "dump_string k @ (if indent > 0 then '': '' else '':'') @ f v = member_text ?b (?p (k, v))"
    for k v
    by (simp add: member_text_def)
  have layout: "dump_items CHR ''{'' CHR ''}'' k indent
      (map (\<lambda>(k, v). dump_string k @ (if indent > 0 then '': '' else '':'') @ f v) m) @ r =
    CHR ''{'' # ?w @ ?body"
    unfolding Cons list.map dump_items_tail [where u = "\<lambda>_. ()"] member
    by (simp add: comp_def case_prod_unfold)
  have items: "\<forall>(k, x, v) \<in> set (?p e # ?ps). reads pv x v"
    using assms(4) by (auto simp: Cons)
  have sorted: "sorted_wrt (<) (map fst [] @ map fst (?p e # ?ps))"
    using assms(3) by (simp add: Cons comp_def case_prod_unfold)
  have fuel: "length ?ps + 1 < Suc (length (?w @ ?body))"
    using length_tail_text [of "map (\<lambda>m. (member_text ?b m, ())) ?ps" ?w] by simp
  have "skip_ws (?w @ ?body) = ?body"
    by (cases e) (simp add: member_text_def dump_string_def is_space_def)
  moreover have "object_loop pv depth (Suc (length (?w @ ?body))) [] ?body =
      Inr ([] @ map (\<lambda>(k, x, v). (k, v)) (?p e # ?ps), r)"
    using assms(1) item_break_hd by (intro object_loop_tail items sorted fuel) (auto simp: Cons)
  moreover have "map (\<lambda>(k, x, v). (k, v)) (?p e # ?ps) = m"
    by (simp add: Cons comp_def case_prod_unfold)
  ultimately show ?thesis
    unfolding parse_object_def layout
    using assms(2) by (simp del: append_assoc object_loop.simps)
qed

lemma reads_whole:
  assumes "reads pv x v"
  shows "pv x = Inr (v, [])" and "x \<noteq> []"
proof -
  have "ends_value []"
    by (simp add: ends_value_def)
  then have "pv (x @ []) = Inr (v, [])"
    using assms unfolding reads_def by blast
  then show "pv x = Inr (v, [])"
    by simp
qed (use assms reads_length in auto)

lemma show_int_hd: "\<exists>c t. show_int i = c # t \<and> (is_digit c \<or> c = CHR ''-'')"
  using show_nat_Cons [of "nat i"] by (auto simp: show_int_def)

lemma digit_not_others: "is_digit c \<Longrightarrow> c \<notin> {CHR 0x22, CHR ''{'', CHR ''['', CHR '']''} \<and> \<not> is_space c"
  by (auto simp: is_digit_def is_space_def)

lemma minus_not_space: "\<not> is_space CHR ''-''"
  by (simp add: is_space_def)

lemma reads_number:
  assumes "depth \<le> max_parse_depth" and "\<exists>c t. x = c # t \<and> (is_digit c \<or> c = CHR ''-'')"
    and "\<And>r. ends_value r \<Longrightarrow> parse_number stod (x @ r) = Inr (v, r)"
  shows "reads (parse_value stod depth) x v"
proof -
  obtain c t where x: "x = c # t" "is_digit c \<or> c = CHR ''-''"
    using assms(2) by blast
  have c: "\<not> is_space c" "c \<notin> {CHR 0x22, CHR ''{'', CHR ''['', CHR '']''}"
    using x(2) digit_not_others [of c] minus_not_space by auto
  show ?thesis
    unfolding reads_def
    using assms(1,3) x c by (auto simp: parse_value.simps [of stod depth])
qed

lemma reads_literal:
  "depth \<le> max_parse_depth \<Longrightarrow> reads (parse_value stod depth) ''null'' JNull"
  "depth \<le> max_parse_depth \<Longrightarrow> reads (parse_value stod depth) ''true'' (JBool True)"
  "depth \<le> max_parse_depth \<Longrightarrow> reads (parse_value stod depth) ''false'' (JBool False)"
  by (simp_all add: reads_def parse_value.simps [of stod depth] parse_literal_def is_space_def is_digit_def)

lemma reads_dump_value:
  assumes "json_wf j" and "depth + json_depth j \<le> max_parse_depth"
    and "\<forall>f \<in> set (floats_of j). decimal_text (fmt f) \<and> stod (fmt f) = Some f"
  shows "reads (parse_value stod depth) (dump_value fmt k indent j) j"
  using assms
proof (induction j arbitrary: depth k)
  case (JBool b)
  then show ?case
    by (cases b) (simp_all add: reads_literal)
next
  case (JInt i)
  show ?case
    using JInt.prems(2) show_int_hd sint64_bounds parse_show_int [of _ "sint i" stod]
    by (auto intro!: reads_number)
next
  case (JFloat f)
  then show ?case
    using decimal_text_hd [of "fmt f"] parse_decimal_text [of "fmt f" stod f]
    by (auto intro!: reads_number)
next
  case (JString s)
  then show ?case
    using parse_dump_string [of depth s]
    by (simp add: reads_def parse_value.simps [of stod depth] dump_string_def is_space_def)
next
  case (JArray a)
  have elems: "\<forall>v \<in> set a. reads (parse_value stod (Suc depth)) (dump_value fmt (Suc k) indent v) v"
  proof
    fix v assume v: "v \<in> set a"
    with JArray.prems json_depth_elem [OF v]
    show "reads (parse_value stod (Suc depth)) (dump_value fmt (Suc k) indent v) v"
      by (intro JArray.IH) (auto simp: list_all_iff simp del: json_depth.simps)
  qed
  have "parse_array (parse_value stod (Suc depth)) depth (dump_value fmt k indent (JArray a) @ r) =
      Inr (JArray a, r)" for r
    using JArray.prems(2) parse_array_reads [OF _ elems] by simp
  then show ?case
    using JArray.prems(2)
    by (simp add: reads_def parse_value.simps [of stod depth] dump_items_def is_space_def)
next
  case (JObject m)
  have elems: "\<forall>(k', v) \<in> set m. reads (parse_value stod (Suc depth)) (dump_value fmt (Suc k) indent v) v"
  proof (clarify)
    fix k' v assume v: "(k', v) \<in> set m"
    with JObject.prems json_depth_member [OF v]
    show "reads (parse_value stod (Suc depth)) (dump_value fmt (Suc k) indent v) v"
      by (intro JObject.IH [of "(k', v)"]) (fastforce simp: list_all_iff simp del: json_depth.simps)+
  qed
  have "parse_object (parse_value stod (Suc depth)) depth (dump_value fmt k indent (JObject m) @ r) =
      Inr (JObject m, r)" for r
    unfolding dump_value.simps
  proof (rule parse_object_reads [OF _ _ _ elems])
    show "m \<noteq> [] \<longrightarrow> depth < max_parse_depth" "depth \<le> max_parse_depth"
      using JObject.prems(2) by (auto split: if_splits)
    show "sorted_wrt (<) (map fst m)"
      using JObject.prems(1) by (simp add: omap_wf_def)
  qed
  then show ?case
    using JObject.prems(2)
    by (simp add: reads_def parse_value.simps [of stod depth] dump_items_def is_space_def)
qed (simp add: reads_literal)

text \<open>Property C1. Dumping a well-formed value (of any shape, with any bytes in its strings and keys, nested at most
  100 deep) at any indentation and parsing the text gives the value back; for the floating-point
  numbers in it, it is enough that the C library prints them with a fraction and reads that text
  back exactly.\<close>

theorem json_dump_parse:
  assumes "json_wf j" and "json_depth j \<le> max_parse_depth"
    and "\<forall>f \<in> set (floats_of j). decimal_text (fmt f) \<and> stod (fmt f) = Some f"
  shows "json_parse stod (json_dump fmt j indent) = Some j"
proof -
  have "reads (parse_value stod 0) (dump_value fmt 0 (nat indent) j) j"
    using assms by (intro reads_dump_value) simp_all
  from reads_whole [OF this] show ?thesis
    by (simp add: json_parse_def json_dump_def)
qed

definition sample_fmt :: "f64 \<Rightarrow> string" where
  "sample_fmt f = (if f = 0x3FF8000000000000 then ''1.5'' else ''0'')"

definition sample_stod :: "string \<Rightarrow> f64 option" where
  "sample_stod s = (if s = ''1.5'' then Some 0x3FF8000000000000 else None)"

theorem json_dump_parse_witness:
  "json_parse sample_stod (json_dump sample_fmt
     (JObject [(''a'', JArray [JInt (- 7), JFloat 0x3FF8000000000000]), (''b'', JString [CHR 0x0A])]) 2) =
   Some (JObject [(''a'', JArray [JInt (- 7), JFloat 0x3FF8000000000000]), (''b'', JString [CHR 0x0A])])"
  by (rule json_dump_parse) code_simp+

text \<open>A \<open>double\<close> that \<open>%.17g\<close> prints without a fraction or an exponent (every whole number below
  \<open>10^17\<close>, such as 2.0) does not come back as a float: it is read as an integer.\<close>

theorem json_whole_float_becomes_integer:
  assumes "fmt f = show_int i" and "- (2 ^ 63) \<le> i" and "i < 2 ^ 63"
  shows "json_parse stod (json_dump fmt (JFloat f) indent) = Some (JInt (word_of_int i))"
proof -
  have "reads (parse_value stod 0) (show_int i) (JInt (word_of_int i))"
    using assms by (intro reads_number show_int_hd parse_show_int) simp_all
  from reads_whole [OF this] show ?thesis
    by (simp add: json_parse_def json_dump_def assms(1))
qed

theorem json_whole_float_becomes_integer_witness:
  "json_parse sample_stod (json_dump (\<lambda>_. ''2'') (JFloat 0x4000000000000000) 0) = Some (JInt 2)"
proof -
  have "show_int 2 = ''2''"
    by code_simp
  then show ?thesis
    using json_whole_float_becomes_integer [where fmt = "\<lambda>_. ''2''" and f = "0x4000000000000000"
        and i = 2 and stod = sample_stod and indent = 0] by simp
qed

end
