(* ===== verification/Spec2Isabelle.thy ===== *)
theory Spec2Isabelle
  imports Base64 Bt_Build Bt_Factory Bt_Life Bt_Nodes Bt_Props Bt_Tree Byte_IO Char_Search Config Config_Props Cron Cron_Props Decimal Effects Fsm Fsm_Props Http_Client Http_Client_Props Http_Common Http_Exchange Http_Multipart Http_Multipart_Props Http_Props Http_Route Http_Route_Props Http_Router Http_Router_Props Http_Server Http_Server_Props Json_Parsing Json_Roundtrip Json_Text Json_Value Ordered_Map Prelude Sha1 String_Props String_Utils Web_Socket
begin

text \<open>
  A verification development for xtils, a C++ library of utilities for services: byte buffers and
  encodings, JSON, a finite state machine, behaviour trees, strings, HTTP, WebSocket, cron and configuration. Paths are
  relative to \<open>src/include/xtils\<close> for headers and to \<open>src/src\<close> for sources.

  \<^bold>\<open>Parts and their theories\<close>

  \<^item> \<open>Prelude\<close>, \<open>Ordered_Map\<close>, \<open>Decimal\<close>, \<open>Effects\<close>: machine types and the bytes of words, \<open>std::map\<close>
    (\<open>omap\<close>, an interpretation of the locale \<open>key_map\<close>), the conversions of the standard library
    between numbers and text, and methods that change a state and may throw (\<open>eff\<close>).
  \<^item> \<open>Byte_IO\<close>: \<open>utils/endianness.h\<close>, \<open>byte_reader\<close>, \<open>byte_writer\<close>. \<open>reader\<close> and \<open>writer\<close> have the
    members of the classes; every access can refuse or fault.
  \<^item> \<open>Base64\<close>: \<open>utils/base64\<close>. \<open>Sha1\<close>: \<open>utils/sha1\<close>, with the hash object \<open>sha\<close> and its block buffer.
  \<^item> \<open>Web_Socket\<close>: \<open>net/websocket_common\<close>, frames as byte lists; uses \<open>Base64\<close> and \<open>Sha1\<close> for the
    accept key.
  \<^item> \<open>Json_Value\<close>, \<open>Json_Text\<close>: \<open>utils/json\<close>, the tagged union as a datatype, its member operations,
    \<open>dump\<close> and \<open>parse\<close>; \<open>Json_Parsing\<close> (termination and types), \<open>Json_Roundtrip\<close> (dump and parse).
  \<^item> \<open>Fsm\<close>, \<open>Fsm_Props\<close>: \<open>fsm/fsm\<close>. The record \<open>fsm\<close> has a field for each member of the class; callbacks
    are handles that a parameter interprets as effects on the machine and the rest of the world.
  \<^item> \<open>Bt_Nodes\<close>, \<open>Bt_Tree\<close>, \<open>Bt_Factory\<close>: \<open>fsm/behavior_tree\<close> and \<open>fsm/nodes.h\<close>. Nodes are addresses in a
    store; \<open>on_start\<close>, \<open>on_tick\<close>, \<open>on_stop\<close> are the virtual methods by class; the factory builds trees from
    \<open>Json_Value\<close> data. \<open>Bt_Life\<close> (life cycle), \<open>Bt_Props\<close> (node classes), \<open>Bt_Build\<close> (built trees).
  \<^item> \<open>String_Utils\<close>, \<open>String_Props\<close>: \<open>utils/string_utils\<close>.
  \<^item> \<open>Http_Common\<close>, \<open>Http_Props\<close>: \<open>net/http_common\<close>, URLs, forms, headers and tables; uses \<open>String_Utils\<close>.
  \<^item> \<open>Http_Server\<close>, \<open>Http_Server_Props\<close>: \<open>net/http_server\<close>. A server is its connections with their buffers and
    what was sent on them; the request handler is a record of effects on the server. It uses the headers of
    \<open>Http_Common\<close> and the frames of \<open>Web_Socket\<close>.
  \<^item> \<open>Http_Multipart\<close>, \<open>Http_Multipart_Props\<close>: \<open>net/http_multipart\<close>, the parser as a loop over positions of the
    body; the differences of positions that wrap in the code do so in \<open>part_view\<close>.
  \<^item> \<open>Http_Route\<close>, \<open>Http_Router\<close> and their \<open>_Props\<close>: \<open>net/http_router\<close>. Patterns are compiled to items of a
    regular expression; the router is a record of routes, middlewares and static servers, and a request handler of
    \<open>Http_Server\<close>; the file system is a record of its answers.
  \<^item> \<open>Cron\<close>, \<open>Cron_Props\<close>: \<open>tasks/cron_scheduler\<close>. The calendar of the C library, the next run of a task, the
    table of tasks, one round, and the worker thread with the threads around it as \<open>worker_step\<close>.
  \<^item> \<open>Config\<close>, \<open>Config_Props\<close>: \<open>config/config\<close>, \<open>config/config_watcher\<close>. A configuration is its options and a \<open>Json_Value\<close>
    object; files are merged as JSON, the command line is read in two passes over the list of arguments.
  \<^item> \<open>Http_Client\<close>, \<open>Http_Client_Props\<close>: \<open>net/http_client\<close>. A client is its settings, cookies, the state of the request
    under way, what was sent and the tasks it posted; events of the transport and the runner are operations on it.
    \<open>Http_Exchange\<close> puts client and server together. \<open>Char_Search\<close> holds lemmas on searching for a character.

  \<^bold>\<open>What the lemmas show\<close>

  \<^item> Round trips: fields in either byte order, base64, WebSocket frames, JSON text, URL-encoded forms and
    URLs, numbers, are read back as written, with the limits of each in its statement.
  \<^item> Refinement: the incremental SHA-1 object computes the hash of the padded message; \<open>ProcessEvent\<close> is the
    step of an abstract automaton; \<open>Selector\<close> is \<open>Sequence\<close> with the outcomes exchanged; UTF-8 cleaning is
    described by the encoding of code points.
  \<^item> Invariants: JSON objects keep unique ordered keys, the state machine stays well formed under every
    sequence of calls, a node is started exactly while its status is running.
  \<^item> Errors: which calls refuse and leave the state alone, and behaviours the code hardly means to have
    (wrapping bounds checks, oversized frames, exceptions between two updates), each a theorem.
  \<^item> The HTTP server hands every request to the handler whole and in order, however it was cut on the way, and
    reads the frames a WebSocket client builds; \<open>response_on_the_wire\<close> gives the bytes of a response.
  \<^item> \<open>multipart_roundtrip\<close>: the multipart parser reads back the bodies clients build, for any content.
  \<^item> \<open>route_matches_segments\<close>, \<open>routed_request_answered\<close>: routes match segment by segment, and the bytes of a request
    become the bytes of the response of the first route that matches. \<open>static_prefix_check\<close> and
    \<open>file_response_on_the_wire\<close> say what is served from files.
  \<^item> \<open>next_run_is_earliest\<close>, \<open>clock_schedule_recurs\<close>, \<open>round_runs_once\<close>: the search for the next run of a cron
    task against the set of its scheduled seconds, when it succeeds, and what a round of the scheduler runs.
  \<^item> \<open>cli_over_file_over_default\<close>, \<open>option_forms_agree\<close>, \<open>config_calls_keep_invariant\<close>: the value of an option by its
    sources, the ways to write one, and the invariant of a configuration; two more say where arguments go wrong.
  \<^item> \<open>response_read_in_pieces\<close>, \<open>served_response_is_received\<close>: the client reads a response whole however it is cut,
    also one from the server of the library; \<open>refused_redirect_never_returns\<close> and \<open>truncated_response_is_success\<close>
    say where it does not.

  \<^bold>\<open>Interfaces\<close>

  What a component relies on is a locale, interpreted on the model in the component that provides it:
  \<open>key_map\<close> on \<open>omap\<close>, \<open>buffer_codec\<close> on the fields of \<open>Byte_IO\<close>, \<open>element_parser\<close> on the JSON parser at every depth,
  \<open>path_store\<close> on the values of a configuration, \<open>safe_callbacks\<close> on the callbacks of the state machine, \<open>quiet_env\<close> on the functions behind behaviour-tree
  actions.

  \<^bold>\<open>Loops, fuel and bounds\<close>

  \<^item> The JSON parser has one more unit of fuel than characters; \<open>parse_never_out_of_fuel\<close> shows it is enough.
    The nesting limit of the code is a number of the model too.
  \<^item> \<open>build_node\<close> and \<open>build_tree\<close> carry the depth of the C++ recursion, as a registered tree may name itself;
    \<open>Too_deep\<close> stands for the exhausted stack, and \<open>self_reference_never_builds\<close> shows that no depth is
    enough for such a tree.
  \<^item> Ticking needs no fuel: the position of a composite in its children, or the attempts left, decrease.
  \<^item> \<open>parse_loop\<close> has a round for each byte in the buffer and one more; every request takes at least a byte,
    and \<open>parse_pending\<close> shows that the rounds are enough.
  \<^item> The operations of the HTTP client that may call themselves without end are \<open>partial_function\<close>s; that they return
    is part of \<open>response_read_in_pieces\<close>.
  \<^item> The 400 rounds of \<open>cron_loop\<close> are the code's; \<open>clock_schedule_recurs\<close> says for which tasks they are enough.
  \<^item> Integers have their width wherever the code can wrap; sizes of buffers in memory are natural numbers.

  \<^bold>\<open>Assumptions\<close>

  \<^item> \<open>std::stod\<close>, the formatting of \<open>double\<close>, \<open>strtod\<close> and the text of \<open>printf\<close> formats are parameters.
  \<^item> A mutex makes concurrent calls some sequence of the operations; interleavings inside an operation are
    not modelled.
  \<^item> The functions behind behaviour-tree actions may change the blackboard and the world but do not tick or
    reset the tree they are ticked from, as the loops carry the position of the current child.
  \<^item> Regular expressions outside the items of \<open>Http_Route\<close> are what a library record says of them.
  \<^item> A file is the size the stream reports and what can be read of it; bytes that arrive at a socket are
    appended to its inbox, and what is sent on an open socket arrives.
  \<^item> What connecting and sending do, \<open>rand\<close>, the files and the methods of the listener of an HTTP client are a
    parameter; the theorems on reading a response assume a listener that lets the body pass.
  \<^item> The indentation of JSON text, state ids and the intervals of cron tasks are too small to overflow.
  \<^item> Time points are unbounded integers; the top of the queue of the scheduler is an entry with the earliest next
    run, although the code can break the order of the heap (a finding).

  \<^bold>\<open>Not modelled\<close>

  \<^item> Sockets, TLS, files, threads, task runners, signals and the event loop: input and output through the
    operating system. \<open>websocket_client\<close>, the pool of HTTP clients, the TCP, UDP and IPC channels are mostly that.
  \<^item> Logging, metrics, tracing and inspection pages: formatting and output.
  \<^item> The scripting bindings, which wrap a third-party engine, and everything under \<open>examples\<close> and \<open>tests\<close>.
  \<^item> \<open>BtFactory::dump\<close> and loading trees from a directory; \<open>GenerateWebSocketKey\<close>, which draws random bytes.
\<close>

end
